(* ===== verification/Prelude.thy ===== *)
theory Prelude
  imports "HOL-Library.Word" "HOL-Library.AList"
begin

text \<open>
  Shared vocabulary of the development: Go's fixed-width integers, clock readings and
  durations, Go maps as association lists, the runtime's map iteration order, and the
  interface of a table that makes room before it inserts.
\<close>

named_theorems gm_simps \<open>rewriting of lookups, keys and lengths of Go maps\<close>

section \<open>Integers, time\<close>

type_synonym byte = "8 word"
type_synonym uint16 = "16 word"

text \<open>
  A clock reading (\<open>time.Now()\<close>) is a number of nanoseconds since the Unix epoch; a
  \<open>time.Duration\<close> is a signed number of nanoseconds. \<open>Time.Sub\<close> saturates at the ends
  of the 64-bit range, as its documentation says.
\<close>

type_synonym time = nat
type_synonym duration = int

definition max_duration :: duration where
  "max_duration = 2 ^ 63 - 1"

definition min_duration :: duration where
  "min_duration = - (2 ^ 63)"

definition time_sub :: "time \<Rightarrow> time \<Rightarrow> duration" where
  "time_sub a b = max min_duration (min max_duration (int a - int b))"

definition seconds :: "nat \<Rightarrow> duration" where
  "seconds n = int n * 1000000000"

definition time_unix :: "time \<Rightarrow> nat" where
  "time_unix t = t div 1000000000"

text \<open>\<open>Duration.Milliseconds\<close> divides with truncation towards zero.\<close>

definition Milliseconds :: "duration \<Rightarrow> int" where
  "Milliseconds d = (if 0 \<le> d then d div 1000000 else - ((- d) div 1000000))"

lemma time_sub_le_max: "time_sub a b \<le> max_duration"
  by (simp add: time_sub_def max_duration_def min_duration_def)

lemma time_sub_pos_iff: "0 < time_sub a b \<longleftrightarrow> b < a"
  by (auto simp: time_sub_def max_duration_def min_duration_def)

lemma time_sub_self [simp]: "time_sub a a = 0"
  by (simp add: time_sub_def max_duration_def min_duration_def)

lemma time_sub_exact: "int a - int b \<le> max_duration \<Longrightarrow> b \<le> a \<Longrightarrow> time_sub a b = int a - int b"
  by (simp add: time_sub_def max_duration_def min_duration_def)

section \<open>Go maps\<close>

text \<open>
  A Go map is an association list with distinct keys. The order of the list carries no
  meaning: a \<open>for range\<close> over a map visits the keys in an order the runtime chooses, so
  every loop of the code that does so takes that order as an argument, and the results
  hold for every order that enumerates the keys (\<open>gm_enum\<close>).
\<close>

type_synonym ('k, 'v) gomap = "('k \<times> 'v) list"

abbreviation gm_keys :: "('k, 'v) gomap \<Rightarrow> 'k set" where
  "gm_keys m \<equiv> fst ` set m"

definition gm_wf :: "('k, 'v) gomap \<Rightarrow> bool" where
  "gm_wf m \<longleftrightarrow> distinct (map fst m)"

definition gm_enum :: "'k list \<Rightarrow> ('k, 'v) gomap \<Rightarrow> bool" where
  "gm_enum ord m \<longleftrightarrow> distinct ord \<and> set ord = gm_keys m"

text \<open>Reading a missing key gives the zero value of the element type.\<close>

definition gm_get :: "'v \<Rightarrow> ('k, 'v) gomap \<Rightarrow> 'k \<Rightarrow> 'v" where
  "gm_get z m k = (case map_of m k of None \<Rightarrow> z | Some v \<Rightarrow> v)"

lemma gm_wf_Nil [simp]: "gm_wf []"
  by (simp add: gm_wf_def)

lemma gm_wf_update [simp]: "gm_wf m \<Longrightarrow> gm_wf (AList.update k v m)"
  by (simp add: gm_wf_def AList.distinct_update)

lemma gm_wf_delete [simp]: "gm_wf m \<Longrightarrow> gm_wf (AList.delete k m)"
  by (simp add: gm_wf_def AList.distinct_delete)

lemma gm_wf_filter [simp]: "gm_wf m \<Longrightarrow> gm_wf (filter P m)"
  unfolding gm_wf_def by (induction m) auto

lemma gm_keys_update [gm_simps]: "gm_keys (AList.update k v m) = insert k (gm_keys m)"
  by (simp add: AList.dom_update)

lemma gm_keys_delete [gm_simps]: "gm_keys (AList.delete k m) = gm_keys m - {k}"
  by (auto simp: AList.delete_eq)

lemma gm_lookup_update [gm_simps]:
  "map_of (AList.update k v m) k' = (if k' = k then Some v else map_of m k')"
  by (simp add: AList.update_conv')

lemma gm_lookup_delete [gm_simps]:
  "map_of (AList.delete k m) k' = (if k' = k then None else map_of m k')"
  by (simp add: AList.delete_conv')

lemma gm_lookup_None_iff: "map_of m k = None \<longleftrightarrow> k \<notin> gm_keys m"
  by (simp add: map_of_eq_None_iff)

lemma gm_lookup_Some_key: "map_of m k = Some v \<Longrightarrow> k \<in> gm_keys m"
  by (metis map_of_SomeD fst_conv image_eqI)

lemma gm_in_set_iff: "gm_wf m \<Longrightarrow> (k, v) \<in> set m \<longleftrightarrow> map_of m k = Some v"
  by (simp add: gm_wf_def)

lemma gm_length_keys: "gm_wf m \<Longrightarrow> length m = card (gm_keys m)"
  by (metis gm_wf_def distinct_card length_map list.set_map)

lemma gm_length_update [gm_simps]:
  "length (AList.update k v m) = (if k \<in> gm_keys m then length m else Suc (length m))"
  by (induction m) auto

lemma gm_length_delete [gm_simps]:
  "gm_wf m \<Longrightarrow> length (AList.delete k m) = (if k \<in> gm_keys m then length m - 1 else length m)"
  by (simp add: gm_length_keys gm_keys_delete)

lemma gm_get_update [gm_simps]:
  "gm_get z (AList.update k v m) k' = (if k' = k then v else gm_get z m k')"
  by (simp add: gm_get_def gm_lookup_update)

lemma gm_get_delete [gm_simps]:
  "gm_get z (AList.delete k m) k' = (if k' = k then z else gm_get z m k')"
  by (simp add: gm_get_def gm_lookup_delete)

lemma gm_enum_keys: "gm_wf m \<Longrightarrow> gm_enum (map fst m) m"
  by (simp add: gm_enum_def gm_wf_def)

lemma gm_enum_Nil_iff: "gm_enum ord m \<Longrightarrow> ord = [] \<longleftrightarrow> m = []"
  by (auto simp: gm_enum_def)

lemma map_of_filter_key:
  "map_of (filter (\<lambda>(k, v). P k) m) k = (if P k then map_of m k else None)"
  by (induction m) auto

section \<open>Making room before inserting\<close>

text \<open>
  Three tables of the program are bounded the same way: when a new key arrives and the
  table is full, one entry chosen from the runtime's iteration order is deleted first.
  They differ in how the victim is chosen, which is the parameter of the interface.
\<close>

definition evict :: "('k list \<Rightarrow> ('k, 'v) gomap \<Rightarrow> 'k option) \<Rightarrow> 'k list \<Rightarrow> ('k, 'v) gomap \<Rightarrow> ('k, 'v) gomap" where
  "evict victim ord m = (case victim ord m of None \<Rightarrow> m | Some k \<Rightarrow> AList.delete k m)"

definition put_bounded ::
  "('k list \<Rightarrow> ('k, 'v) gomap \<Rightarrow> 'k option) \<Rightarrow> int \<Rightarrow> 'k list \<Rightarrow> 'k \<Rightarrow> 'v \<Rightarrow> ('k, 'v) gomap \<Rightarrow> ('k, 'v) gomap" where
  "put_bounded victim cap ord k v m =
     AList.update k v
       (if k \<notin> gm_keys m \<and> cap \<le> int (length m) then evict victim ord m else m)"

locale evict_policy =
  fixes victim :: "'k list \<Rightarrow> ('k, 'v) gomap \<Rightarrow> 'k option"
  assumes victim_key: "gm_enum ord m \<Longrightarrow> victim ord m = Some k \<Longrightarrow> k \<in> gm_keys m"
    and victim_total: "gm_enum ord m \<Longrightarrow> m \<noteq> [] \<Longrightarrow> victim ord m \<noteq> None"
begin

lemma evict_wf: "gm_wf m \<Longrightarrow> gm_wf (evict victim ord m)"
  by (simp add: evict_def split: option.split)

lemma evict_keys_subset: "gm_keys (evict victim ord m) \<subseteq> gm_keys m"
  by (auto simp: evict_def gm_keys_delete split: option.split)

lemma evict_length:
  assumes "gm_wf m" and "gm_enum ord m"
  shows "length (evict victim ord m) = length m - 1"
proof (cases "m = []")
  case True
  then show ?thesis by (simp add: evict_def split: option.split)
next
  case False
  with assms obtain k where "victim ord m = Some k" and "k \<in> gm_keys m"
    using victim_total [OF assms(2)] victim_key [OF assms(2)] by blast
  with assms(1) show ?thesis by (simp add: evict_def gm_length_delete)
qed

lemma evict_lookup:
  "map_of (evict victim ord m) k = (if victim ord m = Some k then None else map_of m k)"
  by (simp add: evict_def gm_lookup_delete split: option.split)

lemma put_bounded_wf: "gm_wf m \<Longrightarrow> gm_wf (put_bounded victim cap ord k v m)"
  by (simp add: put_bounded_def evict_wf)

lemma put_bounded_length:
  assumes "gm_wf m" and "gm_enum ord m" and "1 \<le> cap" and "int (length m) \<le> cap"
  shows "int (length (put_bounded victim cap ord k v m)) \<le> cap"
  using assms evict_length [OF assms(1,2)] evict_keys_subset [of ord m]
  by (auto simp: put_bounded_def gm_length_update)

lemma put_bounded_same: "map_of (put_bounded victim cap ord k v m) k = Some v"
  by (simp add: put_bounded_def gm_lookup_update)

lemma put_bounded_other:
  "k' \<noteq> k \<Longrightarrow> map_of (put_bounded victim cap ord k v m) k' =
     (if k \<notin> gm_keys m \<and> cap \<le> int (length m) \<and> victim ord m = Some k' then None else map_of m k')"
  by (simp add: put_bounded_def gm_lookup_update evict_lookup)

end

text \<open>
  The victim two of the tables choose: the entry with the oldest timestamp among the
  first \<open>evictionSampleSize\<close> keys of the iteration order. The accumulator is the loop's
  \<open>(oldestKey, oldestTime)\<close>, absent while the loop's \<open>first\<close> is true.
\<close>

definition evictionSampleSize :: nat where
  "evictionSampleSize = 16"

fun oldest_scan :: "('v \<Rightarrow> time) \<Rightarrow> ('k, 'v) gomap \<Rightarrow> 'k list \<Rightarrow> ('k \<times> time) option \<Rightarrow> ('k \<times> time) option" where
  "oldest_scan ts m [] acc = acc"
| "oldest_scan ts m (k # ks) acc =
     (case map_of m k of
        None \<Rightarrow> oldest_scan ts m ks acc
      | Some v \<Rightarrow>
          (case acc of
             None \<Rightarrow> oldest_scan ts m ks (Some (k, ts v))
           | Some (k0, t0) \<Rightarrow> oldest_scan ts m ks (if ts v < t0 then Some (k, ts v) else acc)))"

definition sampled_oldest :: "('v \<Rightarrow> time) \<Rightarrow> 'k list \<Rightarrow> ('k, 'v) gomap \<Rightarrow> 'k option" where
  "sampled_oldest ts ord m = map_option fst (oldest_scan ts m (take evictionSampleSize ord) None)"

lemma oldest_scan_acc: "acc \<noteq> None \<Longrightarrow> oldest_scan ts m ks acc \<noteq> None"
  by (induction ks arbitrary: acc) (auto split: option.split prod.split)

lemma oldest_scan_min:
  assumes "oldest_scan ts m ks acc = Some (k, t)"
  shows "(acc = Some (k, t) \<or> (\<exists>v. k \<in> set ks \<and> map_of m k = Some v \<and> t = ts v))
    \<and> (\<forall>k0 t0. acc = Some (k0, t0) \<longrightarrow> t \<le> t0)
    \<and> (\<forall>k' \<in> set ks. \<forall>v'. map_of m k' = Some v' \<longrightarrow> t \<le> ts v')"
  using assms
proof (induction ks arbitrary: acc)
  case Nil
  then show ?case by simp
next
  case (Cons x xs)
  show ?case
  proof (cases "map_of m x")
    case None
    with Cons show ?thesis by auto
  next
    case (Some v)
    show ?thesis
    proof (cases acc)
      case None
      with Some Cons show ?thesis by fastforce
    next
      case acc: (Some kt)
      obtain k0 t0 where kt: "kt = (k0, t0)" by (cases kt)
      show ?thesis
      proof (cases "ts v < t0")
        case True
        with Some acc kt Cons.prems have "oldest_scan ts m xs (Some (x, ts v)) = Some (k, t)"
          by simp
        from Cons.IH [OF this] True Some acc kt show ?thesis by fastforce
      next
        case False
        with Some acc kt Cons.prems have "oldest_scan ts m xs (Some (k0, t0)) = Some (k, t)"
          by simp
        from Cons.IH [OF this] False Some acc kt show ?thesis by fastforce
      qed
    qed
  qed
qed

lemma oldest_scan_None:
  "oldest_scan ts m ks None = None \<longleftrightarrow> (\<forall>k \<in> set ks. map_of m k = None)"
proof (induction ks)
  case (Cons x xs)
  then show ?case
    using oldest_scan_acc [of "Some (x, t)" ts m xs for t] by (cases "map_of m x") auto
qed simp

lemma sampled_oldest_Some:
  assumes "sampled_oldest ts ord m = Some k"
  obtains v where "k \<in> set (take evictionSampleSize ord)" and "map_of m k = Some v"
    and "\<And>k' v'. k' \<in> set (take evictionSampleSize ord) \<Longrightarrow> map_of m k' = Some v' \<Longrightarrow> ts v \<le> ts v'"
proof -
  from assms obtain t where "oldest_scan ts m (take evictionSampleSize ord) None = Some (k, t)"
    by (auto simp: sampled_oldest_def)
  from oldest_scan_min [OF this] that show thesis by auto
qed

lemma sampled_oldest_policy: "evict_policy (sampled_oldest (ts :: 'v \<Rightarrow> time))"
proof unfold_locales
  fix ord :: "'k list" and m :: "('k, 'v) gomap" and k
  assume "sampled_oldest ts ord m = Some k"
  then obtain v where "map_of m k = Some v" by (rule sampled_oldest_Some)
  then show "k \<in> gm_keys m" by (rule gm_lookup_Some_key)
next
  fix ord :: "'k list" and m :: "('k, 'v) gomap"
  assume enum: "gm_enum ord m" and "m \<noteq> []"
  then obtain x xs where ord: "ord = x # xs"
    by (metis gm_enum_Nil_iff neq_Nil_conv)
  with enum have "x \<in> gm_keys m" by (auto simp: gm_enum_def)
  then have "map_of m x \<noteq> None" using gm_lookup_None_iff [of m x] by blast
  moreover have "x \<in> set (take evictionSampleSize ord)"
    by (simp add: ord evictionSampleSize_def)
  ultimately show "sampled_oldest ts ord m \<noteq> None"
    by (auto simp: sampled_oldest_def oldest_scan_None)
qed

end
