(* ===== verification/GoText.thy ===== *)
theory GoText
  imports Prelude
begin

text \<open>
  The parts of Go's \<open>strconv\<close>, \<open>fmt\<close> and \<open>strings\<close> the program uses: positional
  notation in base ten and sixteen, joining, cutting, prefix tests. A Go string is a
  sequence of bytes, here a \<^typ>\<open>string\<close>.
\<close>

section \<open>Positional notation\<close>

function ndigits :: "nat \<Rightarrow> nat \<Rightarrow> nat list" where
  "ndigits b n = (if b \<le> 1 \<or> n < b then [n] else ndigits b (n div b) @ [n mod b])"
  by pat_completeness auto
termination
  by (relation "measure snd") auto

declare ndigits.simps [simp del]

definition horner :: "nat \<Rightarrow> nat \<Rightarrow> nat list \<Rightarrow> nat" where
  "horner b a ds = foldl (\<lambda>a d. a * b + d) a ds"

definition digit_char :: "nat \<Rightarrow> char" where
  "digit_char d = (if d < 10 then char_of (48 + d) else char_of (87 + d))"

text \<open>\<open>strconv.Itoa\<close> / \<open>%d\<close> on a non-negative number, and lower-case \<open>%x\<close>.\<close>

definition dec :: "nat \<Rightarrow> string" where
  "dec n = map digit_char (ndigits 10 n)"

definition hex :: "nat \<Rightarrow> string" where
  "hex n = map digit_char (ndigits 16 n)"

text \<open>The value of a digit; \<open>None\<close> for any other byte.\<close>

definition dec_val :: "char \<Rightarrow> nat option" where
  "dec_val c = (let n = of_char c in if 48 \<le> n \<and> n \<le> 57 then Some (n - 48) else None)"

definition hex_val :: "char \<Rightarrow> nat option" where
  "hex_val c = (let n = of_char c in
     if 48 \<le> n \<and> n \<le> 57 then Some (n - 48)
     else if 97 \<le> n \<and> n \<le> 102 then Some (n - 87)
     else if 65 \<le> n \<and> n \<le> 70 then Some (n - 55)
     else None)"

lemma horner_Nil [simp]: "horner b a [] = a"
  by (simp add: horner_def)

lemma horner_Cons [simp]: "horner b a (d # ds) = horner b (a * b + d) ds"
  by (simp add: horner_def)

lemma horner_snoc: "horner b a (ds @ [d]) = horner b a ds * b + d"
  by (simp add: horner_def)

lemma horner_mono: "1 \<le> b \<Longrightarrow> a \<le> horner b a ds"
proof (induction ds arbitrary: a)
  case (Cons d ds)
  have "a * 1 \<le> a * b" using Cons.prems by (intro mult_le_mono) auto
  then have "a \<le> a * b + d" by linarith
  also have "\<dots> \<le> horner b (a * b + d) ds" using Cons by blast
  finally show ?case by simp
qed simp

lemma horner_ndigits: "horner b 0 (ndigits b n) = n"
proof (induction b n rule: ndigits.induct)
  case (1 b n)
  then show ?case
    by (subst ndigits.simps) (auto simp: horner_snoc)
qed

lemma ndigits_less: "2 \<le> b \<Longrightarrow> d \<in> set (ndigits b n) \<Longrightarrow> d < b"
proof (induction b n rule: ndigits.induct)
  case (1 b n)
  from "1.prems" show ?case
    by (subst (asm) ndigits.simps) (use "1.IH" "1.prems"(1) in \<open>auto split: if_splits\<close>)
qed

lemma ndigits_not_Nil [simp]: "ndigits b n \<noteq> []"
  by (subst ndigits.simps) simp

lemma ndigits_length: "2 \<le> b \<Longrightarrow> n < b ^ Suc k \<Longrightarrow> length (ndigits b n) \<le> Suc k"
proof (induction k arbitrary: n)
  case 0
  then show ?case by (subst ndigits.simps) simp
next
  case (Suc k)
  have "n div b < b ^ Suc k"
    using Suc.prems by (simp add: less_mult_imp_div_less mult.commute)
  then have "length (ndigits b (n div b)) \<le> Suc k" using Suc by blast
  then show ?case by (subst ndigits.simps) simp
qed

lemma ndigits_hd_nonzero: "2 \<le> b \<Longrightarrow> 0 < n \<Longrightarrow> hd (ndigits b n) \<noteq> 0"
proof (induction b n rule: ndigits.induct)
  case (1 b n)
  show ?case
  proof (cases "n < b")
    case True
    with "1.prems" show ?thesis by (subst ndigits.simps) simp
  next
    case False
    with "1.prems" have "0 < n div b" by (simp add: div_greater_zero_iff)
    with False "1.IH" "1.prems" have "hd (ndigits b (n div b)) \<noteq> 0" by auto
    with False "1.prems" show ?thesis by (subst ndigits.simps) simp
  qed
qed

lemma dec_val_digit_char [simp]: "d < 10 \<Longrightarrow> dec_val (digit_char d) = Some d"
  by (simp add: dec_val_def digit_char_def Let_def of_char_of)

lemma hex_val_digit_char [simp]: "d < 16 \<Longrightarrow> hex_val (digit_char d) = Some d"
  by (auto simp: hex_val_def digit_char_def Let_def of_char_of)

lemma dec_not_Nil [simp]: "dec n \<noteq> []"
  by (simp add: dec_def)

lemma hex_not_Nil [simp]: "hex n \<noteq> []"
  by (simp add: hex_def)

lemma dec_chars: "c \<in> set (dec n) \<Longrightarrow> dec_val c \<noteq> None"
  using ndigits_less [of 10 _ n] by (auto simp: dec_def)

lemma hex_chars: "c \<in> set (hex n) \<Longrightarrow> hex_val c \<noteq> None"
  using ndigits_less [of 16 _ n] by (auto simp: hex_def)

lemma dec_inj: "dec m = dec n \<Longrightarrow> m = n"
proof -
  assume eq: "dec m = dec n"
  have "map dec_val (dec k) = map Some (ndigits 10 k)" for k
    using ndigits_less [of 10 _ k] by (auto simp: dec_def)
  with eq have "map Some (ndigits 10 m) = map Some (ndigits 10 n)" by metis
  then have "ndigits 10 m = ndigits 10 n" by (simp add: inj_map_eq_map)
  then show "m = n" by (metis horner_ndigits)
qed

section \<open>Strings\<close>

definition Contains_char :: "char \<Rightarrow> string \<Rightarrow> bool" where
  "Contains_char c s \<longleftrightarrow> c \<in> set s"

fun HasPrefix :: "string \<Rightarrow> string \<Rightarrow> bool" where
  "HasPrefix s [] = True"
| "HasPrefix [] (p # ps) = False"
| "HasPrefix (c # cs) (p # ps) = (c = p \<and> HasPrefix cs ps)"

fun Join :: "string \<Rightarrow> string list \<Rightarrow> string" where
  "Join sep [] = []"
| "Join sep [x] = x"
| "Join sep (x # y # ys) = x @ sep @ Join sep (y # ys)"

text \<open>\<open>strings.Cut\<close> around the first occurrence of one byte.\<close>

definition Cut :: "char \<Rightarrow> string \<Rightarrow> (string \<times> string) option" where
  "Cut c s = (case dropWhile (\<lambda>x. x \<noteq> c) s of [] \<Rightarrow> None | _ # r \<Rightarrow> Some (takeWhile (\<lambda>x. x \<noteq> c) s, r))"

definition ToLower_char :: "char \<Rightarrow> char" where
  "ToLower_char c = (let n = of_char c :: nat in if 65 \<le> n \<and> n \<le> 90 then char_of (n + 32) else c)"

lemma HasPrefix_iff: "HasPrefix s p \<longleftrightarrow> (\<exists>r. s = p @ r)"
  by (induction s p rule: HasPrefix.induct) auto

lemma Cut_append: "c \<notin> set s \<Longrightarrow> Cut c (s @ c # r) = Some (s, r)"
  by (induction s) (auto simp: Cut_def split: list.splits)

lemma Join_Cons: "xs \<noteq> [] \<Longrightarrow> Join sep (x # xs) = x @ sep @ Join sep xs"
  by (cases xs) auto

end
