(* ===== verification/SecurePath.thy ===== *)
theory SecurePath
  imports GoText
begin

text \<open>
  internal/securepath/securepath.go, with the parts of Go's \<open>path/filepath\<close> and
  \<open>strings\<close> it uses on a slash-separated system. What \<open>os.Lstat\<close> reports for a path is
  a parameter.
\<close>

section \<open>Paths\<close>

fun Split_sep :: "char \<Rightarrow> string \<Rightarrow> string list" where
  "Split_sep sep [] = [[]]"
| "Split_sep sep (c # s) =
     (if c = sep then [] # Split_sep sep s
      else (case Split_sep sep s of p # ps \<Rightarrow> (c # p) # ps | [] \<Rightarrow> [[c]]))"

abbreviation slash :: char where "slash \<equiv> CHR ''/''"

definition IsAbs :: "string \<Rightarrow> bool" where
  "IsAbs p = HasPrefix p ''/''"

text \<open>\<open>filepath.Clean\<close>, component by component.\<close>

fun clean_loop :: "bool \<Rightarrow> string list \<Rightarrow> string list \<Rightarrow> string list" where
  "clean_loop rooted [] out = out"
| "clean_loop rooted (p # ps) out =
     (if p = [] \<or> p = ''.'' then clean_loop rooted ps out
      else if p = ''..'' then
        (if out \<noteq> [] \<and> last out \<noteq> ''..'' then clean_loop rooted ps (butlast out)
         else if rooted then clean_loop rooted ps out
         else clean_loop rooted ps (out @ [''..'']))
      else clean_loop rooted ps (out @ [p]))"

definition Clean :: "string \<Rightarrow> string" where
  "Clean p =
     (let out = clean_loop (IsAbs p) (Split_sep slash p) []
      in if IsAbs p then ''/'' @ Join ''/'' out
         else if out = [] then ''.'' else Join ''/'' out)"

text \<open>\<open>filepath.Join\<close> of two elements, and \<open>filepath.Dir\<close>, \<open>filepath.Base\<close> of a path.\<close>

definition Join2 :: "string \<Rightarrow> string \<Rightarrow> string" where
  "Join2 a b = (if a = [] \<and> b = [] then [] else if a = [] then Clean b else if b = [] then Clean a else Clean (a @ ''/'' @ b))"

definition Dir :: "string \<Rightarrow> string" where
  "Dir p = Clean (rev (dropWhile (\<lambda>c. c \<noteq> slash) (rev p)))"

definition Base :: "string \<Rightarrow> string" where
  "Base p =
     (if p = [] then ''.''
      else (let s = rev (dropWhile (\<lambda>c. c = slash) (rev p))
            in if s = [] then ''/'' else rev (takeWhile (\<lambda>c. c \<noteq> slash) (rev s))))"

text \<open>\<open>strings.Contains\<close>.\<close>

definition Contains_str :: "string \<Rightarrow> string \<Rightarrow> bool" where
  "Contains_str s sub = list_ex (\<lambda>i. HasPrefix (drop i s) sub) [0..<Suc (length s)]"

section \<open>The walk\<close>

datatype lstat_result = NotExist | LstatErr | Symlink | NotSymlink

datatype path_err = DotDot string | StatFailed string | IsSymlink string

fun walk :: "(string \<Rightarrow> lstat_result) \<Rightarrow> string \<Rightarrow> string list \<Rightarrow> path_err option" where
  "walk lstat cur [] = None"
| "walk lstat cur (part # parts) =
     (if part = [] then walk lstat cur parts
      else (let cur' = Join2 cur part
            in case lstat cur' of
                 NotExist \<Rightarrow> walk lstat cur' parts
               | LstatErr \<Rightarrow> Some (StatFailed cur')
               | Symlink \<Rightarrow> Some (IsSymlink cur')
               | NotSymlink \<Rightarrow> walk lstat cur' parts))"

definition RejectSymlinkComponents :: "(string \<Rightarrow> lstat_result) \<Rightarrow> string \<Rightarrow> path_err option" where
  "RejectSymlinkComponents lstat dir =
     (if list_ex (\<lambda>part. part = ''..'') (Split_sep slash dir) then Some (DotDot dir)
      else (let cleaned = Clean dir
            in if IsAbs cleaned then walk lstat ''/'' (Split_sep slash (drop 1 cleaned))
               else walk lstat ''.'' (Split_sep slash cleaned)))"

section \<open>Components\<close>

text \<open>The components of a path the kernel resolves, and the path of a prefix of them.\<close>

definition real_components :: "string \<Rightarrow> string list" where
  "real_components p = filter (\<lambda>c. c \<noteq> [] \<and> c \<noteq> ''.'') (Split_sep slash p)"

definition prefix_path :: "bool \<Rightarrow> string list \<Rightarrow> string" where
  "prefix_path rooted cs = (if rooted then ''/'' @ Join ''/'' cs else Join ''/'' cs)"

definition plain :: "string \<Rightarrow> bool" where
  "plain c \<longleftrightarrow> c \<noteq> [] \<and> c \<noteq> ''.'' \<and> c \<noteq> ''..'' \<and> slash \<notin> set c"

lemma Split_sep_not_Nil [simp]: "Split_sep sep s \<noteq> []"
  by (cases s) (auto split: list.split)

lemma Split_sep_no_sep: "c \<in> set (Split_sep sep s) \<Longrightarrow> sep \<notin> set c"
  by (induction s arbitrary: c) (auto split: list.splits if_splits)

lemma Split_sep_plain: "sep \<notin> set s \<Longrightarrow> Split_sep sep s = [s]"
  by (induction s) auto

lemma Split_sep_append: "sep \<notin> set a \<Longrightarrow> Split_sep sep (a @ sep # s) = a # Split_sep sep s"
  by (induction a) auto

lemma Split_Join: "cs \<noteq> [] \<Longrightarrow> \<forall>c \<in> set cs. slash \<notin> set c \<Longrightarrow> Split_sep slash (Join ''/'' cs) = cs"
proof (induction cs)
  case (Cons c cs)
  then show ?case by (cases "cs = []") (simp_all add: Split_sep_plain Join_Cons Split_sep_append)
qed simp

lemma clean_loop_plain:
  assumes "''..'' \<notin> set ps"
  shows "clean_loop rooted ps out = out @ filter (\<lambda>c. c \<noteq> [] \<and> c \<noteq> ''.'') ps"
  using assms by (induction ps arbitrary: out) auto

lemma plain_components:
  assumes "''..'' \<notin> set (Split_sep slash p)" "c \<in> set (real_components p)"
  shows "plain c"
  using assms Split_sep_no_sep [of c slash p] by (auto simp: real_components_def plain_def)

lemma Clean_components:
  assumes "''..'' \<notin> set (Split_sep slash p)"
  shows "Clean p = (if IsAbs p then prefix_path True (real_components p)
    else if real_components p = [] then ''.'' else prefix_path False (real_components p))"
  by (simp add: Clean_def clean_loop_plain [OF assms] real_components_def prefix_path_def Let_def)

lemma plain_filter: "\<forall>c \<in> set cs. plain c \<Longrightarrow> filter (\<lambda>c. c \<noteq> [] \<and> c \<noteq> ''.'') cs = cs"
  by (simp add: filter_id_conv plain_def)

lemma plain_Split: "\<forall>c \<in> set cs. plain c \<Longrightarrow> cs \<noteq> [] \<Longrightarrow> Split_sep slash (Join ''/'' cs) = cs"
  by (rule Split_Join) (auto simp: plain_def)

lemma Join_Nil_iff: "\<forall>c \<in> set cs. plain c \<Longrightarrow> Join ''/'' cs = [] \<longleftrightarrow> cs = []"
  by (cases cs rule: list.exhaust; cases "tl cs") (auto simp: plain_def)

lemma IsAbs_Join: "\<forall>c \<in> set cs. plain c \<Longrightarrow> \<not> IsAbs (Join ''/'' cs)"
proof (cases cs)
  case (Cons c cs')
  assume "\<forall>c \<in> set cs. plain c"
  with Cons obtain x c' where "c = x # c'" "x \<noteq> slash" by (cases c) (auto simp: plain_def)
  with Cons show ?thesis by (cases "cs' = []") (auto simp: IsAbs_def Join_Cons)
qed (simp add: IsAbs_def)

lemma Join_snoc: "cs \<noteq> [] \<Longrightarrow> Join ''/'' (cs @ [c]) = Join ''/'' cs @ ''/'' @ c"
proof (induction cs)
  case (Cons d cs)
  then show ?case by (cases "cs = []") (simp_all add: Join_Cons)
qed simp

lemma Split_sep_app: "Split_sep sep (a @ sep # s) = Split_sep sep a @ Split_sep sep s"
  by (induction a) (auto split: list.split)

section \<open>What the walk examines\<close>

text \<open>The paths looked at for components \<open>cs\<close> after the prefix \<open>pre\<close>, and a clear result.\<close>

definition cur_path :: "bool \<Rightarrow> string list \<Rightarrow> string" where
  "cur_path rooted pre = (if rooted then prefix_path True pre else if pre = [] then ''.'' else prefix_path False pre)"

definition clear :: "lstat_result \<Rightarrow> bool" where
  "clear r \<longleftrightarrow> r = NotExist \<or> r = NotSymlink"

lemma components_cur_path:
  assumes "\<forall>c \<in> set pre. plain c"
  shows "real_components (cur_path rooted pre) = pre \<and> ''..'' \<notin> set (Split_sep slash (cur_path rooted pre))
    \<and> IsAbs (cur_path rooted pre) = rooted \<and> cur_path rooted pre \<noteq> []"
proof (cases "pre = []")
  case True
  then show ?thesis by (simp add: cur_path_def prefix_path_def real_components_def IsAbs_def)
next
  case False
  then show ?thesis
    using assms plain_Split [OF assms False] IsAbs_Join [OF assms] Join_Nil_iff [OF assms] plain_filter [OF assms]
    by (auto simp: cur_path_def prefix_path_def real_components_def plain_def IsAbs_def)
qed

lemma Join2_cur_path:
  assumes pre: "\<forall>c \<in> set pre. plain c" and c: "plain c"
  shows "Join2 (cur_path rooted pre) c = cur_path rooted (pre @ [c])"
proof -
  let ?p = "cur_path rooted pre @ ''/'' @ c"
  note cp = components_cur_path [OF pre, of rooted]
  have split: "Split_sep slash ?p = Split_sep slash (cur_path rooted pre) @ [c]"
    using c Split_sep_app [of slash "cur_path rooted pre" c] by (simp add: Split_sep_plain plain_def)
  have dots: "''..'' \<notin> set (Split_sep slash ?p)"
    using cp c by (auto simp only: split plain_def set_append list.set)
  have comps: "real_components ?p = pre @ [c]"
    using cp c by (simp add: real_components_def split [simplified] plain_def)
  have abs: "IsAbs ?p = rooted" using cp by (cases "cur_path rooted pre") (auto simp: IsAbs_def)
  have "Join2 (cur_path rooted pre) c = Clean ?p"
    using cp c by (simp add: Join2_def plain_def)
  also have "\<dots> = cur_path rooted (pre @ [c])"
    unfolding Clean_components [OF dots] comps abs by (simp add: cur_path_def)
  finally show ?thesis .
qed

lemma walk_clear_iff:
  assumes "\<forall>c \<in> set (pre @ cs). plain c"
  shows "walk lstat (cur_path rooted pre) cs = None \<longleftrightarrow>
    (\<forall>n < length cs. clear (lstat (cur_path rooted (pre @ take (Suc n) cs))))"
  using assms
proof (induction cs arbitrary: pre)
  case (Cons c cs)
  have c: "plain c" "c \<noteq> []" and pre: "\<forall>c \<in> set pre. plain c" using Cons.prems by (auto simp: plain_def)
  have IH: "walk lstat (cur_path rooted (pre @ [c])) cs = None \<longleftrightarrow>
      (\<forall>n < length cs. clear (lstat (cur_path rooted (pre @ c # take (Suc n) cs))))"
    using Cons.IH [of "pre @ [c]"] Cons.prems by simp
  have "walk lstat (cur_path rooted pre) (c # cs) = None \<longleftrightarrow>
      clear (lstat (cur_path rooted (pre @ [c]))) \<and> walk lstat (cur_path rooted (pre @ [c])) cs = None"
    using c by (simp add: Join2_cur_path [OF pre c(1)] Let_def clear_def split: lstat_result.split)
  also have "\<dots> \<longleftrightarrow> (\<forall>n < length (c # cs). clear (lstat (cur_path rooted (pre @ take (Suc n) (c # cs)))))"
    unfolding IH by (auto simp: less_Suc_eq_0_disj)
  finally show ?case .
qed simp

lemma walk_first_error:
  assumes "\<forall>c \<in> set (pre @ cs). plain c" "walk lstat (cur_path rooted pre) cs = Some e"
  shows "\<exists>n < length cs. let p = cur_path rooted (pre @ take (Suc n) cs) in
    lstat p = Symlink \<and> e = IsSymlink p \<or> lstat p = LstatErr \<and> e = StatFailed p"
  using assms
proof (induction cs arbitrary: pre)
  case (Cons c cs)
  have c: "plain c" "c \<noteq> []" and pre: "\<forall>c \<in> set pre. plain c" using Cons.prems by (auto simp: plain_def)
  note J = Join2_cur_path [OF pre c(1), of rooted]
  show ?case
  proof (cases "clear (lstat (cur_path rooted (pre @ [c])))")
    case True
    with Cons.prems c J have "walk lstat (cur_path rooted (pre @ [c])) cs = Some e"
      by (simp add: Let_def clear_def split: lstat_result.splits)
    from Cons.IH [OF _ this] Cons.prems(1) obtain n where "n < length cs"
      "let p = cur_path rooted ((pre @ [c]) @ take (Suc n) cs) in
        lstat p = Symlink \<and> e = IsSymlink p \<or> lstat p = LstatErr \<and> e = StatFailed p" by auto
    then show ?thesis by (intro exI [of _ "Suc n"]) simp
  next
    case False
    with Cons.prems c J show ?thesis
      by (intro exI [of _ 0]) (simp add: Let_def clear_def split: lstat_result.splits)
  qed
qed simp

lemma Reject_walk:
  assumes "''..'' \<notin> set (Split_sep slash dir)"
  shows "RejectSymlinkComponents lstat dir =
    (if real_components dir = [] then
       (if IsAbs dir \<or> clear (lstat ''.'') then None
        else Some (if lstat ''.'' = Symlink then IsSymlink ''.'' else StatFailed ''.''))
     else walk lstat (cur_path (IsAbs dir) []) (real_components dir))"
proof -
  let ?cs = "real_components dir"
  have pl: "\<forall>c \<in> set ?cs. plain c" using plain_components [OF assms] by blast
  have ex: "\<not> list_ex (\<lambda>part. part = ''..'') (Split_sep slash dir)" using assms by (auto simp: list_ex_iff)
  show ?thesis
  proof (cases "?cs = []")
    case True
    then show ?thesis using ex
      by (simp add: RejectSymlinkComponents_def Clean_components [OF assms] prefix_path_def Let_def)
        (auto simp: IsAbs_def Join2_def Clean_def Let_def clear_def split: lstat_result.split)
  next
    case False
    then show ?thesis using ex plain_Split [OF pl False] IsAbs_Join [OF pl]
      by (simp add: RejectSymlinkComponents_def Clean_components [OF assms] prefix_path_def Let_def cur_path_def)
        (simp add: IsAbs_def)
  qed
qed

lemma Reject_None_iff:
  "RejectSymlinkComponents lstat dir = None \<longleftrightarrow>
     ''..'' \<notin> set (Split_sep slash dir) \<and>
     (\<forall>n < length (real_components dir). clear (lstat (prefix_path (IsAbs dir) (take (Suc n) (real_components dir))))) \<and>
     (real_components dir = [] \<longrightarrow> IsAbs dir \<or> clear (lstat ''.''))"
proof (cases "''..'' \<in> set (Split_sep slash dir)")
  case True
  then show ?thesis by (auto simp: RejectSymlinkComponents_def list_ex_iff)
next
  case False
  have pl: "\<forall>c \<in> set ([] @ real_components dir). plain c" using plain_components [OF False] by simp
  have cp: "cur_path (IsAbs dir) (take (Suc n) (real_components dir)) =
      prefix_path (IsAbs dir) (take (Suc n) (real_components dir))" if "real_components dir \<noteq> []" for n
    using that by (simp add: cur_path_def)
  show ?thesis
    using False walk_clear_iff [OF pl, of lstat "IsAbs dir"]
    by (cases "real_components dir = []") (simp_all add: Reject_walk [OF False] cp)
qed

lemma Reject_names_symlink:
  assumes "RejectSymlinkComponents lstat dir = Some (IsSymlink p)"
  shows "lstat p = Symlink"
proof -
  have dots: "''..'' \<notin> set (Split_sep slash dir)"
    using assms by (auto simp: RejectSymlinkComponents_def list_ex_iff split: if_splits)
  have pl: "\<forall>c \<in> set ([] @ real_components dir). plain c" using plain_components [OF dots] by simp
  show ?thesis
    using walk_first_error [OF pl, of lstat "IsAbs dir" "IsSymlink p"] assms
    by (auto simp: Reject_walk [OF dots] Let_def split: if_splits)
qed

text \<open>
  C12. \<open>RejectSymlinkComponents\<close> accepts a path exactly when none of its components is
  dot-dot and, for every prefix of the components the kernel resolves, the lstat of that
  prefix neither fails (other than because it does not exist) nor reports a symbolic link
  (for a relative path with no component at all, the current directory is looked at).
  An error about a symbolic link always names a prefix that is one.\<close>
theorem accepted_path_has_no_symlink:
  "(RejectSymlinkComponents lstat dir = None \<longleftrightarrow>
     ''..'' \<notin> set (Split_sep slash dir) \<and>
     (\<forall>n < length (real_components dir). clear (lstat (prefix_path (IsAbs dir) (take (Suc n) (real_components dir))))) \<and>
     (real_components dir = [] \<longrightarrow> IsAbs dir \<or> clear (lstat ''.''))) \<and>
   (\<forall>p. RejectSymlinkComponents lstat dir = Some (IsSymlink p) \<longrightarrow> lstat p = Symlink)"
  using Reject_None_iff Reject_names_symlink by blast

theorem accepted_path_has_no_symlink_witness:
  "RejectSymlinkComponents (\<lambda>p. if p = ''/var'' then NotSymlink else NotExist) ''/var//log/.'' = None
   \<and> RejectSymlinkComponents (\<lambda>p. if p = ''/tmp/state'' then Symlink else NotSymlink) ''/tmp/state/fw'' = Some (IsSymlink ''/tmp/state'')"
  using accepted_path_has_no_symlink [of "\<lambda>p. if p = ''/var'' then NotSymlink else NotExist" "''/var//log/.''"]
  by (simp add: real_components_def clear_def) (simp add: RejectSymlinkComponents_def Clean_def IsAbs_def Join2_def)

end
