(* ===== verification/GoIO.thy ===== *)
theory GoIO
  imports GoText
begin

text \<open>
  Reading text the way the program does: \<open>strings.TrimSpace\<close> on UTF-8 bytes,
  \<open>bufio.Reader.ReadSlice\<close> with a bounded buffer, and \<open>io.LimitReader\<close>. A reader is
  the bytes it delivers, what it reports after the last of them, and whether it reports that
  together with the last bytes or by a read of its own.
\<close>

section \<open>Trimming\<close>

text \<open>The UTF-8 encodings of the code points \<open>unicode.IsSpace\<close> accepts.\<close>

definition nl :: char where
  "nl = CHR 0x0A"

definition space_encodings :: "string list" where
  "space_encodings =
     [[CHR 0x09], [nl], [CHR 0x0B], [CHR 0x0C], [CHR 0x0D], [CHR 0x20], [CHR 0xC2, CHR 0x85],
      [CHR 0xC2, CHR 0xA0], [CHR 0xE1, CHR 0x9A, CHR 0x80], [CHR 0xE2, CHR 0x80, CHR 0xA8],
      [CHR 0xE2, CHR 0x80, CHR 0xA9], [CHR 0xE2, CHR 0x80, CHR 0xAF], [CHR 0xE2, CHR 0x81, CHR 0x9F],
      [CHR 0xE3, CHR 0x80, CHR 0x80]] @
     map (\<lambda>i. [CHR 0xE2, CHR 0x80, char_of (0x80 + i :: nat)]) [0..<11]"

function strip :: "string list \<Rightarrow> string \<Rightarrow> string" where
  "strip encs s =
     (case find (\<lambda>e. e \<noteq> [] \<and> HasPrefix s e) encs of
        None \<Rightarrow> s
      | Some e \<Rightarrow> strip encs (drop (length e) s))"
  by pat_completeness auto
termination
proof (relation "measure (length \<circ> snd)")
  fix encs s e
  assume "find (\<lambda>e. e \<noteq> [] \<and> HasPrefix s e) encs = Some e"
  then have "e \<noteq> []" "HasPrefix s e" by (auto simp: find_Some_iff)
  then show "((encs, drop (length e) s), encs, s) \<in> measure (length \<circ> snd)"
    by (cases s) (auto simp: HasPrefix_iff)
qed simp

declare strip.simps [simp del]

definition TrimLeft :: "string \<Rightarrow> string" where
  "TrimLeft s = strip space_encodings s"

definition TrimRight :: "string \<Rightarrow> string" where
  "TrimRight s = rev (strip (map rev space_encodings) (rev s))"

definition TrimSpace :: "string \<Rightarrow> string" where
  "TrimSpace s = TrimRight (TrimLeft s)"

section \<open>Buffered lines\<close>

datatype read_end = EOF | ReadErr

record reader =
  rd_bytes :: string
  rd_end :: read_end
  rd_early :: bool

datatype slice_err = NoErr | BufferFull | Ended

text \<open>
  \<open>ReadSlice(nl)\<close>: the line with its newline when one is within the buffer; otherwise
  what is left and the reader's error when that is already known or the bytes do not fill the
  buffer; otherwise a full buffer.
\<close>

definition ReadSlice :: "nat \<Rightarrow> bool \<Rightarrow> string \<Rightarrow> string \<times> slice_err \<times> string" where
  "ReadSlice bufsize early s =
     (if nl \<in> set (take bufsize s) then (let k = Suc (length (takeWhile (\<lambda>c. c \<noteq> nl) s)) in (take k s, NoErr, drop k s))
      else if length s < bufsize \<or> early \<and> length s = bufsize then (s, Ended, [])
      else (take bufsize s, BufferFull, drop bufsize s))"

text \<open>
  \<open>io.LimitReader\<close>: at most \<open>n\<close> bytes. Once they have been delivered the next read
  is the end of the stream, whatever the underlying reader would say.
\<close>

definition LimitReader :: "nat \<Rightarrow> reader \<Rightarrow> reader" where
  "LimitReader n r =
     (if length (rd_bytes r) < n \<or> length (rd_bytes r) = n \<and> rd_early r then r
      else \<lparr>rd_bytes = take n (rd_bytes r), rd_end = EOF, rd_early = False\<rparr>)"

text \<open>The newline-terminated lines of a text, without their newlines, and what follows the last of them.\<close>

fun split_lines :: "string \<Rightarrow> string list \<times> string" where
  "split_lines [] = ([], [])"
| "split_lines (c # s) =
     (case split_lines s of
        (ls, t) \<Rightarrow> if c = nl then ([] # ls, t) else (case ls of [] \<Rightarrow> ([], c # t) | l # ls' \<Rightarrow> ((c # l) # ls', t)))"

section \<open>Lemmas\<close>

lemma space_encodings_nl: "e \<in> set space_encodings \<Longrightarrow> e = [nl] \<or> (nl \<notin> set e \<and> e \<noteq> [])"
proof -
  have "list_all (\<lambda>e. e = [nl] \<or> (nl \<notin> set e \<and> e \<noteq> [])) space_encodings" by code_simp
  then show "e \<in> set space_encodings \<Longrightarrow> e = [nl] \<or> (nl \<notin> set e \<and> e \<noteq> [])" by (auto simp: list_all_iff)
qed

lemma HasPrefix_nl:
  assumes "e \<in> set space_encodings" "l \<noteq> []"
  shows "HasPrefix (l @ [nl]) e \<longleftrightarrow> HasPrefix l e"
proof
  assume "HasPrefix (l @ [nl]) e"
  then obtain r where r: "l @ [nl] = e @ r" by (auto simp: HasPrefix_iff)
  show "HasPrefix l e"
  proof (cases r rule: rev_cases)
    case Nil
    with r have "e = l @ [nl]" by simp
    with space_encodings_nl [OF assms(1)] assms(2) show ?thesis by auto
  next
    case (snoc r' x)
    with r show ?thesis by (auto simp: HasPrefix_iff)
  qed
qed (auto simp: HasPrefix_iff)

lemma find_cong': "(\<And>x. x \<in> set xs \<Longrightarrow> P x = Q x) \<Longrightarrow> find P xs = find Q xs"
  by (induction xs) auto

lemma TrimLeft_nl: "TrimLeft (l @ [nl]) = (if TrimLeft l = [] then [] else TrimLeft l @ [nl])"
proof (induction "length l" arbitrary: l rule: less_induct)
  case less
  have nlenc: "TrimLeft [nl] = []" "TrimLeft [] = []" unfolding TrimLeft_def by code_simp+
  show ?case
  proof (cases "l = []")
    case False
    then have eq: "find (\<lambda>e. e \<noteq> [] \<and> HasPrefix (l @ [nl]) e) space_encodings =
        find (\<lambda>e. e \<noteq> [] \<and> HasPrefix l e) space_encodings"
      by (intro find_cong') (simp add: HasPrefix_nl)
    show ?thesis
    proof (cases "find (\<lambda>e. e \<noteq> [] \<and> HasPrefix l e) space_encodings")
      case None
      with eq False show ?thesis by (simp add: TrimLeft_def strip.simps [of _ "l @ [nl]"] strip.simps [of _ l])
    next
      case (Some e)
      then have e: "e \<noteq> []" "HasPrefix l e" by (auto simp: find_Some_iff)
      then have "length e \<le> length l" "length (drop (length e) l) < length l"
        using False by (auto simp: HasPrefix_iff)
      with less [of "drop (length e) l"] eq Some show ?thesis
        by (simp add: TrimLeft_def strip.simps [of _ "l @ [nl]"] strip.simps [of _ l])
    qed
  qed (simp add: nlenc)
qed

lemma TrimRight_nl: "TrimRight (l @ [nl]) = TrimRight l"
proof -
  have "find (\<lambda>e. e \<noteq> [] \<and> HasPrefix (nl # s) e) (map rev space_encodings) = Some [nl]" for s
  proof -
    have m: "[nl] \<in> set (map rev space_encodings)" by code_simp
    have only: "e \<noteq> [] \<and> HasPrefix (nl # s) e \<longleftrightarrow> e = [nl]" if "e \<in> set (map rev space_encodings)" for e
    proof -
      have "e = [nl] \<or> (nl \<notin> set e \<and> e \<noteq> [])" using that space_encodings_nl by force
      then show ?thesis by (cases e) (auto simp: HasPrefix_iff)
    qed
    have "find (\<lambda>e. e = x) xs = Some x" if "x \<in> set xs" for x :: string and xs
      using that by (induction xs) auto
    then show ?thesis using m only by (subst find_cong' [of _ _ "\<lambda>e. e = [nl]"]) blast+
  qed
  then show ?thesis by (simp add: TrimRight_def strip.simps [of _ "nl # _"])
qed

lemma TrimSpace_nl: "TrimSpace (l @ [nl]) = TrimSpace l"
  by (simp add: TrimSpace_def TrimLeft_nl TrimRight_nl)

lemma split_lines_line: "nl \<notin> set l \<Longrightarrow> split_lines (l @ nl # s) = (l # fst (split_lines s), snd (split_lines s))"
  by (induction l) (auto split: prod.splits)

lemma split_lines_tail: "nl \<notin> set t \<Longrightarrow> split_lines t = ([], t)"
  by (induction t) auto

end
