(* ===== verification/Files.thy ===== *)
theory Files
  imports SecurePath GoIO Prelude
begin

text \<open>
  What the file readers of the program see of the file system: the results of
  \<open>os.Lstat\<close>, \<open>os.Stat\<close> and of an open with \<open>O_RDONLY|O_NONBLOCK|O_NOFOLLOW\<close>, all
  of them parameters. A file may change between two system calls, so an operation that makes
  several of them takes a view for each.
\<close>

record fstat =
  st_regular :: bool
  st_size :: nat
  st_mtime :: time

text \<open>An opened descriptor: what fstat reports (an error or the data) and what reading delivers.\<close>

record fd =
  fd_stat :: "fstat option"
  fd_content :: reader

datatype open_result = OpenNotExist | OpenError | Opened fd

record files =
  os_lstat :: "string \<Rightarrow> lstat_result"
  os_stat :: "string \<Rightarrow> time option"
  os_open :: "string \<Rightarrow> open_result"

text \<open>\<open>io.ReadAll\<close>: everything up to the end of the stream, or the error that ended it.\<close>

definition ReadAll :: "reader \<Rightarrow> string option" where
  "ReadAll r = (case rd_end r of EOF \<Rightarrow> Some (rd_bytes r) | ReadErr \<Rightarrow> None)"

text \<open>The documented effect of \<open>O_NOFOLLOW\<close>: a symbolic link as the final component is not opened.\<close>

definition nofollow :: "files \<Rightarrow> bool" where
  "nofollow fs \<longleftrightarrow> (\<forall>p. os_lstat fs p = Symlink \<longrightarrow> os_open fs p = OpenError)"

text \<open>No component of the directory of \<open>path\<close>, nor \<open>path\<close> itself, is a symbolic link.\<close>

definition symlink_free :: "files \<Rightarrow> string \<Rightarrow> bool" where
  "symlink_free fs path \<longleftrightarrow>
     (\<forall>n < length (real_components (Dir path)).
        os_lstat fs (prefix_path (IsAbs (Dir path)) (take (Suc n) (real_components (Dir path)))) \<noteq> Symlink) \<and>
     os_lstat fs path \<noteq> Symlink"

lemma opened_symlink_free:
  assumes "nofollow fs" "RejectSymlinkComponents (os_lstat fs) (Dir path) = None" "os_open fs path = Opened f"
  shows "symlink_free fs path"
  using assms unfolding Reject_None_iff symlink_free_def nofollow_def clear_def by fastforce

lemma ReadAll_LimitReader:
  "ReadAll (LimitReader n r) = Some s \<Longrightarrow> length s \<le> n \<and> s = take n (rd_bytes r)"
  by (auto simp: ReadAll_def LimitReader_def split: if_splits read_end.splits)

lemma ReadAll_LimitReader_short:
  "ReadAll (LimitReader (Suc n) r) = Some s \<Longrightarrow> length s \<le> n \<Longrightarrow> rd_bytes r = s \<and> rd_end r = EOF"
  by (auto simp: ReadAll_def LimitReader_def split: if_splits read_end.splits)

end
