(* ===== verification/GoNet.thy ===== *)
theory GoNet
  imports GoText
begin

text \<open>
  Go's \<open>net\<close> and \<open>net/netip\<close> as far as the program uses them: \<open>net.ParseIP\<close>,
  \<open>IP.To4\<close> and \<open>IP.String\<close>, and the address normalisation that conntrack, the rate limiter and
  the layer-2 filter each repeat. An address is its bytes: 4 for IPv4, 16 for IPv6.

  The lemmas show that printing and parsing are inverse on every address, so that
  normalisation is idempotent, and that an IPv4 address and its IPv4-mapped IPv6 form
  normalise to the same key.
\<close>

type_synonym IP = "byte list"

section \<open>Parsing\<close>

subsection \<open>IPv4 fields\<close>

text \<open>
  The loop of \<open>netip.parseIPv4Fields\<close>. \<open>dot\<close> says that no byte precedes the current one
  or that the preceding byte is a dot; \<open>dl\<close> is the number of digits of the current octet;
  \<open>fs\<close> holds the octets already stored.
\<close>

fun parseIPv4Fields_loop :: "string \<Rightarrow> bool \<Rightarrow> nat \<Rightarrow> nat \<Rightarrow> byte list \<Rightarrow> byte list option" where
  "parseIPv4Fields_loop [] dot val dl fs =
     (if length fs < 3 then None else Some (fs @ [of_nat val]))"
| "parseIPv4Fields_loop (c # cs) dot val dl fs =
     (case dec_val c of
        Some d \<Rightarrow>
          if dl = 1 \<and> val = 0 then None
          else if 255 < val * 10 + d then None
          else parseIPv4Fields_loop cs False (val * 10 + d) (dl + 1) fs
      | None \<Rightarrow>
          if c = CHR ''.'' then
            (if dot \<or> cs = [] then None
             else if length fs = 3 then None
             else parseIPv4Fields_loop cs True 0 0 (fs @ [of_nat val]))
          else None)"

definition parseIPv4 :: "string \<Rightarrow> byte list option" where
  "parseIPv4 s = parseIPv4Fields_loop s True 0 0 []"

subsection \<open>IPv6\<close>

text \<open>One hexadecimal group: its value, its number of digits and the rest of the string.\<close>

fun hex_run :: "string \<Rightarrow> nat \<Rightarrow> nat \<Rightarrow> (nat \<times> nat \<times> string) option" where
  "hex_run [] off acc = Some (acc, off, [])"
| "hex_run (c # cs) off acc =
     (case hex_val c of
        None \<Rightarrow> Some (acc, off, c # cs)
      | Some d \<Rightarrow>
          if 3 < off then None
          else if 65535 < acc * 16 + d then None
          else hex_run cs (off + 1) (acc * 16 + d))"

definition group_bytes :: "nat \<Rightarrow> byte list" where
  "group_bytes g = [of_nat (g div 256), of_nat (g mod 256)]"

lemma hex_run_length: "hex_run s off acc = Some (g, off', r) \<Longrightarrow> length r + off' = length s + off"
  by (induction s off acc rule: hex_run.induct) (auto split: option.splits if_splits)

text \<open>
  The loop of \<open>netip.parseIPv6\<close>: \<open>ip\<close> are the bytes stored so far and \<open>ell\<close> the position
  of the ellipsis. The result is the state in which the loop is left.
\<close>

function parseIPv6_loop :: "string \<Rightarrow> byte list \<Rightarrow> nat option \<Rightarrow> (string \<times> byte list \<times> nat option) option" where
  "parseIPv6_loop s ip ell =
     (if 16 \<le> length ip then Some (s, ip, ell)
      else case hex_run s 0 0 of
        None \<Rightarrow> None
      | Some (acc, off, rest) \<Rightarrow>
          if off = 0 then None
          else case rest of
            [] \<Rightarrow> Some ([], ip @ group_bytes acc, ell)
          | c # r \<Rightarrow>
              if c = CHR ''.'' then
                (if ell = None \<and> length ip \<noteq> 12 then None
                 else if 16 < length ip + 4 then None
                 else case parseIPv4 s of
                   None \<Rightarrow> None
                 | Some fs \<Rightarrow> Some ([], ip @ fs, ell))
              else if c \<noteq> CHR '':'' then None
              else case r of
                [] \<Rightarrow> None
              | c' # r' \<Rightarrow>
                  if c' = CHR '':'' then
                    (if ell \<noteq> None then None
                     else if r' = [] then Some ([], ip @ group_bytes acc, Some (length ip + 2))
                     else parseIPv6_loop r' (ip @ group_bytes acc) (Some (length ip + 2)))
                  else parseIPv6_loop r (ip @ group_bytes acc) ell)"
  by pat_completeness auto
termination
  by (relation "measure (\<lambda>(s, ip, ell). length s)") (auto dest!: hex_run_length)

declare parseIPv6_loop.simps [simp del]

definition expand_ellipsis :: "string \<times> byte list \<times> nat option \<Rightarrow> byte list option" where
  "expand_ellipsis st = (case st of (s, ip, ell) \<Rightarrow>
     if s \<noteq> [] then None
     else if length ip < 16 then
       (case ell of
          None \<Rightarrow> None
        | Some e \<Rightarrow> Some (take e ip @ replicate (16 - length ip) 0 @ drop e ip))
     else if ell \<noteq> None then None
     else Some ip)"

definition parseIPv6 :: "string \<Rightarrow> byte list option" where
  "parseIPv6 s =
     (if HasPrefix s ''::'' then
        (if drop 2 s = [] then Some (replicate 16 0)
         else Option.bind (parseIPv6_loop (drop 2 s) [] (Some 0)) expand_ellipsis)
      else Option.bind (parseIPv6_loop s [] None) expand_ellipsis)"

subsection \<open>Addresses\<close>

text \<open>
  \<open>netip.ParseAddr\<close> looks for the first dot, colon or percent sign. A string with a zone
  (\<open>%\<close>) is refused by both callers of this package, \<open>net.ParseIP\<close> and \<open>net.ParseCIDR\<close>.
\<close>

fun addr_kind :: "string \<Rightarrow> char option" where
  "addr_kind [] = None"
| "addr_kind (c # cs) = (if c \<in> {CHR ''.'', CHR '':'', CHR ''%''} then Some c else addr_kind cs)"

definition ParseAddr :: "string \<Rightarrow> byte list option" where
  "ParseAddr s =
     (if CHR ''%'' \<in> set s then None
      else if addr_kind s = Some (CHR ''.'') then parseIPv4 s
      else if addr_kind s = Some (CHR '':'') then parseIPv6 s
      else None)"

definition v4InV6Prefix :: "byte list" where
  "v4InV6Prefix = [0, 0, 0, 0, 0, 0, 0, 0, 0, 0, 255, 255]"

text \<open>\<open>Addr.As16\<close>: an IPv4 address becomes its IPv4-mapped form.\<close>

definition As16 :: "byte list \<Rightarrow> IP" where
  "As16 a = (if length a = 4 then v4InV6Prefix @ a else a)"

definition ParseIP :: "string \<Rightarrow> IP option" where
  "ParseIP s = map_option As16 (ParseAddr s)"

definition To4 :: "IP \<Rightarrow> IP option" where
  "To4 ip =
     (if length ip = 4 then Some ip
      else if length ip = 16 \<and> take 12 ip = v4InV6Prefix then Some (drop 12 ip)
      else None)"

section \<open>Printing\<close>

fun groups_of :: "byte list \<Rightarrow> nat list" where
  "groups_of (a # b # r) = (unat a * 256 + unat b) # groups_of r"
| "groups_of r = []"

definition string4 :: "IP \<Rightarrow> string" where
  "string4 ip = Join ''.'' (map (\<lambda>b. dec (unat b)) ip)"

text \<open>
  \<open>netip.appendTo6\<close>: the first of the longest runs of at least two zero groups is
  written as \<open>::\<close>.
\<close>

definition zero_run :: "nat list \<Rightarrow> nat" where
  "zero_run gs = length (takeWhile (\<lambda>g. g = 0) gs)"

fun best_run :: "nat \<Rightarrow> nat list \<Rightarrow> nat \<times> nat \<Rightarrow> nat \<times> nat" where
  "best_run i [] best = best"
| "best_run i (g # gs) best =
     (let l = zero_run (g # gs)
      in best_run (i + 1) gs (if 2 \<le> l \<and> snd best - fst best < l then (i, i + l) else best))"

definition join_groups :: "nat list \<Rightarrow> string" where
  "join_groups gs = Join '':'' (map hex gs)"

definition string6 :: "IP \<Rightarrow> string" where
  "string6 ip =
     (let gs = groups_of ip; (zs, ze) = best_run 0 gs (255, 255)
      in if zs = 255 then join_groups gs
         else join_groups (take zs gs) @ ''::'' @ join_groups (drop ze gs))"

text \<open>\<open>IP.String\<close>: the two lengths an address of this program can have, \<open>?\<close> and the
  bytes in hexadecimal otherwise.\<close>

definition hex2 :: "byte \<Rightarrow> string" where
  "hex2 b = [digit_char (unat b div 16), digit_char (unat b mod 16)]"

definition IP_String :: "IP \<Rightarrow> string" where
  "IP_String ip =
     (if ip = [] then ''<nil>''
      else if length ip \<noteq> 4 \<and> length ip \<noteq> 16 then ''?'' @ concat (map hex2 ip)
      else case To4 ip of Some p4 \<Rightarrow> string4 p4 | None \<Rightarrow> string6 ip)"

section \<open>The program's address normalisation\<close>

text \<open>\<open>normalizeIP\<close> of internal/conntrack/table.go.\<close>

definition normalizeIP :: "string \<Rightarrow> string" where
  "normalizeIP ip =
     (case ParseIP ip of
        None \<Rightarrow> ip
      | Some parsed \<Rightarrow>
          (case To4 parsed of
             Some v4 \<Rightarrow> IP_String v4
           | None \<Rightarrow> IP_String parsed))"

section \<open>Printing and parsing are inverse\<close>

subsection \<open>IPv4\<close>

lemma unat_byte_less [simp]: "unat (b :: byte) < 256"
  using unsigned_less [of b] by simp

lemma parseIPv4_digits:
  assumes "\<forall>d \<in> set ds. d < 10" and "horner 10 val ds \<le> 255" and "ds = [] \<or> dl = 0 \<and> val = 0 \<and> (hd ds = 0 \<longrightarrow> length ds = 1) \<or> 0 < val"
  shows "parseIPv4Fields_loop (map digit_char ds @ rest) dot val dl fs =
    parseIPv4Fields_loop rest (dot \<and> ds = []) (horner 10 val ds) (dl + length ds) fs"
  using assms
proof (induction ds arbitrary: val dl dot)
  case Nil
  then show ?case by simp
next
  case (Cons d ds)
  have d: "d < 10" using Cons.prems(1) by simp
  have le: "val * 10 + d \<le> 255"
    using Cons.prems(2) horner_mono [of 10 "val * 10 + d" ds] by simp
  have nz: "\<not> (dl = 1 \<and> val = 0)" using Cons.prems(3) by auto
  have "parseIPv4Fields_loop (map digit_char ds @ rest) False (val * 10 + d) (dl + 1) fs =
    parseIPv4Fields_loop rest False (horner 10 (val * 10 + d) ds) (dl + 1 + length ds) fs"
    using Cons.IH [of "val * 10 + d" "dl + 1" False] Cons.prems by auto
  with d le nz show ?case by auto
qed

lemma parseIPv4_octet:
  "parseIPv4Fields_loop (dec (unat (b :: byte)) @ rest) dot 0 0 fs =
     parseIPv4Fields_loop rest False (unat b) (length (dec (unat b))) fs"
proof -
  let ?ds = "ndigits 10 (unat b)"
  have "\<forall>d \<in> set ?ds. d < 10" using ndigits_less [of 10 _ "unat b"] by auto
  moreover have "horner 10 0 ?ds \<le> 255"
    using unat_byte_less [of b] by (simp add: horner_ndigits del: unat_byte_less)
  moreover have "hd ?ds = 0 \<longrightarrow> length ?ds = 1"
    using ndigits_hd_nonzero [of 10 "unat b"] by (cases "unat b = 0") (auto simp: ndigits.simps [of 10 0])
  ultimately show ?thesis
    using parseIPv4_digits [of ?ds 0 0 rest dot fs] by (simp add: dec_def horner_ndigits)
qed

lemma dec_val_dot [simp]: "dec_val CHR ''.'' = None"
  by (simp add: dec_val_def)

lemma parseIPv4_string4: "length ip = 4 \<Longrightarrow> parseIPv4 (string4 ip) = Some ip"
  by (auto simp: length_Suc_conv numeral_eq_Suc string4_def parseIPv4_def parseIPv4_octet
      parseIPv4_octet [where rest = "[]", simplified])

subsection \<open>IPv6\<close>

lemma hex_run_digits:
  assumes "\<forall>d \<in> set ds. d < 16" and "off + length ds \<le> 4" and "horner 16 acc ds \<le> 65535"
    and "rest = [] \<or> hex_val (hd rest) = None"
  shows "hex_run (map digit_char ds @ rest) off acc = Some (horner 16 acc ds, off + length ds, rest)"
  using assms
proof (induction ds arbitrary: off acc)
  case Nil
  then show ?case by (cases rest) auto
next
  case (Cons d ds)
  have "acc * 16 + d \<le> 65535"
    using Cons.prems(3) horner_mono [of 16 "acc * 16 + d" ds] by simp
  with Cons show ?case by simp
qed

lemma hex_length: "g < 65536 \<Longrightarrow> 1 \<le> length (hex g) \<and> length (hex g) \<le> 4"
proof -
  assume "g < 65536"
  then have "g < 16 ^ Suc 3" by (simp add: power_numeral_reduce)
  then have "length (ndigits 16 g) \<le> Suc 3" by (intro ndigits_length) auto
  moreover have "1 \<le> length (ndigits 16 g)" using ndigits_not_Nil [of 16 g] by (cases "ndigits 16 g") auto
  ultimately show ?thesis by (simp add: hex_def)
qed

lemma hex_run_hex:
  assumes "g < 65536" and "rest = [] \<or> hex_val (hd rest) = None"
  shows "hex_run (hex g @ rest) 0 0 = Some (g, length (hex g), rest)"
proof -
  have "hex_run (map digit_char (ndigits 16 g) @ rest) 0 0 =
      Some (horner 16 0 (ndigits 16 g), 0 + length (ndigits 16 g), rest)"
    using assms ndigits_less [of 16 _ g] hex_length [OF assms(1)]
    by (intro hex_run_digits) (auto simp: hex_def horner_ndigits)
  then show ?thesis by (simp add: hex_def horner_ndigits)
qed

lemma hex_val_colon [simp]: "hex_val CHR '':'' = None"
  by (simp add: hex_val_def)

lemma hex_val_dot [simp]: "hex_val CHR ''.'' = None"
  by (simp add: hex_val_def)

lemma hd_hex: "hd (hex g @ r) \<noteq> CHR '':''"
  using hex_chars [of "hd (hex g)" g] by (cases "hex g") auto

definition groups_bytes :: "nat list \<Rightarrow> byte list" where
  "groups_bytes gs = concat (map group_bytes gs)"

lemma groups_bytes_simps [simp]:
  "groups_bytes [] = []" "groups_bytes (g # gs) = group_bytes g @ groups_bytes gs"
  "groups_bytes (gs @ hs) = groups_bytes gs @ groups_bytes hs"
  by (simp_all add: groups_bytes_def)

lemma length_group_bytes [simp]: "length (group_bytes g) = 2"
  by (simp add: group_bytes_def)

lemma length_groups_bytes [simp]: "length (groups_bytes gs) = 2 * length gs"
  by (induction gs) auto

lemma join_groups_simps [simp]:
  "join_groups [] = []" "join_groups [g] = hex g"
  "join_groups (g # h # gs) = hex g @ '':'' @ join_groups (h # gs)"
  by (simp_all add: join_groups_def)

lemma join_groups_hd: "gs \<noteq> [] \<Longrightarrow> \<exists>c r. join_groups gs = c # r \<and> c \<noteq> CHR '':''"
proof (induction gs)
  case (Cons g gs)
  obtain c r where "hex g = c # r" by (cases "hex g") auto
  with hd_hex [of g "[]"] show ?case by (cases gs) auto
qed simp

lemma parseIPv6_loop_groups:
  assumes "gs \<noteq> []" and "\<forall>g \<in> set gs. g < 65536" and "length ip + 2 * length gs \<le> 16"
  shows "parseIPv6_loop (join_groups gs) ip ell = Some ([], ip @ groups_bytes gs, ell)"
  using assms
proof (induction gs arbitrary: ip)
  case (Cons g gs)
  show ?case
  proof (cases gs)
    case Nil
    with Cons.prems hex_run_hex [of g "[]"] hex_length [of g] show ?thesis
      by (subst parseIPv6_loop.simps) auto
  next
    case (Cons h hs)
    obtain c r where cr: "join_groups gs = c # r" "c \<noteq> CHR '':''"
      using join_groups_hd [of gs] \<open>gs = h # hs\<close> by auto
    have "parseIPv6_loop (join_groups gs) (ip @ group_bytes g) ell =
        Some ([], (ip @ group_bytes g) @ groups_bytes gs, ell)"
      using Cons.IH [of "ip @ group_bytes g"] Cons.prems \<open>gs = h # hs\<close> by auto
    moreover have "hex_run (hex g @ '':'' @ join_groups gs) 0 0 = Some (g, length (hex g), '':'' @ join_groups gs)"
      using Cons.prems by (intro hex_run_hex) auto
    ultimately show ?thesis
      using Cons.prems cr hex_length [of g] \<open>gs = h # hs\<close>
      by (subst parseIPv6_loop.simps) (auto simp: Join_Cons)
  qed
qed simp

lemma parseIPv6_loop_ellipsis:
  assumes "as \<noteq> []" and "\<forall>g \<in> set (as @ bs). g < 65536" and "length ip + 2 * length (as @ bs) \<le> 14"
  shows "parseIPv6_loop (join_groups as @ ''::'' @ join_groups bs) ip None =
    Some ([], ip @ groups_bytes as @ groups_bytes bs, Some (length ip + 2 * length as))"
  using assms
proof (induction as arbitrary: ip)
  case (Cons g gs)
  have run: "hex_run (hex g @ CHR '':'' # r) 0 0 = Some (g, length (hex g), CHR '':'' # r)" for r
    using Cons.prems by (intro hex_run_hex) auto
  show ?case
  proof (cases gs)
    case Nil
    show ?thesis
    proof (cases "bs = []")
      case True
      with Nil Cons.prems run hex_length [of g] show ?thesis
        by (subst parseIPv6_loop.simps) auto
    next
      case False
      have "parseIPv6_loop (join_groups bs) (ip @ group_bytes g) (Some (length ip + 2)) =
          Some ([], (ip @ group_bytes g) @ groups_bytes bs, Some (length ip + 2))"
        using False Cons.prems Nil by (intro parseIPv6_loop_groups) auto
      moreover have "join_groups bs \<noteq> []" using join_groups_hd [OF False] by auto
      ultimately show ?thesis
        using Nil Cons.prems run hex_length [of g]
        by (subst parseIPv6_loop.simps) auto
    qed
  next
    case (Cons h hs)
    obtain c r where cr: "join_groups gs = c # r" "c \<noteq> CHR '':''"
      using join_groups_hd [of gs] \<open>gs = h # hs\<close> by auto
    have "parseIPv6_loop (join_groups gs @ ''::'' @ join_groups bs) (ip @ group_bytes g) None =
        Some ([], (ip @ group_bytes g) @ groups_bytes gs @ groups_bytes bs,
          Some (length (ip @ group_bytes g) + 2 * length gs))"
      using Cons.IH [of "ip @ group_bytes g"] Cons.prems \<open>gs = h # hs\<close> by auto
    moreover have "join_groups (g # gs) = hex g @ '':'' @ join_groups gs"
      using \<open>gs = h # hs\<close> by simp
    ultimately show ?thesis
      using Cons.prems cr run hex_length [of g]
      by (subst parseIPv6_loop.simps) auto
  qed
qed simp

lemma zero_run_nth: "j < zero_run gs \<Longrightarrow> gs ! j = 0"
  using nth_mem [of j "takeWhile (\<lambda>g. g = 0) gs"]
  by (auto simp: zero_run_def takeWhile_nth dest: set_takeWhileD)

lemma best_run_zero:
  assumes "best_run i gs best = (s, e)"
  shows "(s, e) = best \<or>
    (i \<le> s \<and> s + 2 \<le> e \<and> e \<le> i + length gs \<and> (\<forall>j. s \<le> j \<and> j < e \<longrightarrow> gs ! (j - i) = 0))"
  using assms
proof (induction i gs best rule: best_run.induct)
  case (2 i g gs best)
  let ?l = "zero_run (g # gs)"
  let ?new = "if 2 \<le> ?l \<and> snd best - fst best < ?l then (i, i + ?l) else best"
  have "best_run (i + 1) gs ?new = (s, e)" using "2.prems" by (simp add: Let_def)
  from "2.IH" [OF refl this] show ?case
  proof
    assume new: "(s, e) = ?new"
    show ?thesis
    proof (cases "2 \<le> ?l \<and> snd best - fst best < ?l")
      case True
      have "(g # gs) ! j = 0" if "j < ?l" for j
        using that by (rule zero_run_nth)
      moreover have "?l \<le> length (g # gs)"
        unfolding zero_run_def by (rule length_takeWhile_le)
      ultimately show ?thesis using new True by auto
    next
      case False
      with new show ?thesis by auto
    qed
  next
    assume a: "i + 1 \<le> s \<and> s + 2 \<le> e \<and> e \<le> i + 1 + length gs \<and>
      (\<forall>j. s \<le> j \<and> j < e \<longrightarrow> gs ! (j - (i + 1)) = 0)"
    have "(g # gs) ! (j - i) = 0" if "s \<le> j" "j < e" for j
    proof -
      have "j - i = Suc (j - (i + 1))" using a that by linarith
      with a that show ?thesis by simp
    qed
    with a show ?thesis by auto
  qed
qed simp

lemma groups_of_bytes: "even (length ip) \<Longrightarrow> groups_bytes (groups_of ip) = ip"
proof (induction ip rule: groups_of.induct)
  case (1 a b r)
  have "unat b < 256" by simp
  then have "(unat a * 256 + unat b) div 256 = unat a" "(unat a * 256 + unat b) mod 256 = unat b"
    by auto
  with 1 show ?case by (simp add: group_bytes_def)
qed auto

lemma groups_of_less: "g \<in> set (groups_of ip) \<Longrightarrow> g < 65536"
proof (induction ip rule: groups_of.induct)
  case (1 a b r)
  have "unat a < 256" "unat b < 256" by simp_all
  then have "unat a * 256 + unat b < 65536" by linarith
  with 1 show ?case by auto
qed auto

lemma length_groups_of: "length (groups_of ip) = length ip div 2"
  by (induction ip rule: groups_of.induct) auto

lemma groups_bytes_zeros: "groups_bytes (replicate n 0) = replicate (2 * n) 0"
  by (induction n) (auto simp: group_bytes_def)

text \<open>The three parts a printed address falls into around its compressed run.\<close>

lemma string6_cases:
  assumes "length ip = 16"
  obtains (plain) "string6 ip = join_groups (groups_of ip)"
  | (compressed) as n bs where "string6 ip = join_groups as @ ''::'' @ join_groups bs"
      "groups_of ip = as @ replicate n 0 @ bs" "2 \<le> n"
proof -
  let ?gs = "groups_of ip"
  obtain zs ze where b: "best_run 0 ?gs (255, 255) = (zs, ze)" by fastforce
  show thesis
  proof (cases "zs = 255")
    case True
    with b plain show thesis by (simp add: string6_def Let_def)
  next
    case False
    with best_run_zero [OF b]
    have z: "zs + 2 \<le> ze" "ze \<le> length ?gs" "\<forall>j. zs \<le> j \<and> j < ze \<longrightarrow> ?gs ! j = 0" by auto
    have "take (ze - zs) (drop zs ?gs) = replicate (ze - zs) 0"
      using z by (intro nth_equalityI) auto
    moreover have "?gs = take zs ?gs @ take (ze - zs) (drop zs ?gs) @ drop ze ?gs"
      using z by (metis append_take_drop_id drop_drop le_add_diff_inverse2 add_leD1)
    ultimately have "?gs = take zs ?gs @ replicate (ze - zs) 0 @ drop ze ?gs" by simp
    moreover have "string6 ip = join_groups (take zs ?gs) @ ''::'' @ join_groups (drop ze ?gs)"
      using b False by (simp add: string6_def Let_def)
    ultimately show thesis using compressed [of "take zs ?gs" "drop ze ?gs" "ze - zs"] z(1) by simp
  qed
qed

lemma join_groups_chars: "c \<in> set (join_groups gs) \<Longrightarrow> c = CHR '':'' \<or> hex_val c \<noteq> None"
  by (induction gs rule: induct_list012) (auto dest: hex_chars)

lemma join_groups_no_prefix: "gs \<noteq> [] \<Longrightarrow> \<not> HasPrefix (join_groups gs @ r) ''::''"
  using join_groups_hd [of gs] by auto

lemma parseIPv6_string6:
  assumes len: "length ip = 16"
  shows "parseIPv6 (string6 ip) = Some ip"
proof -
  have less: "\<forall>g \<in> set (groups_of ip). g < 65536" using groups_of_less by blast
  have gl: "length (groups_of ip) = 8" using len by (simp add: length_groups_of)
  have ipb: "groups_bytes (groups_of ip) = ip" using len by (intro groups_of_bytes) simp
  show ?thesis using len
  proof (cases rule: string6_cases)
    case plain
    have ne: "groups_of ip \<noteq> []" using gl by auto
    have "parseIPv6_loop (join_groups (groups_of ip)) [] None = Some ([], groups_bytes (groups_of ip), None)"
      using parseIPv6_loop_groups [of "groups_of ip" "[]" None] ne less gl by simp
    then show ?thesis
      using plain ipb len join_groups_no_prefix [OF ne, of "[]"]
      by (simp add: parseIPv6_def expand_ellipsis_def)
  next
    case (compressed as n bs)
    have n: "length as + length bs + n = 8" using gl compressed(2) by simp
    have ip: "ip = groups_bytes as @ replicate (2 * n) 0 @ groups_bytes bs"
      using ipb compressed(2) by (simp add: groups_bytes_zeros)
    have r: "16 - 2 * (length as + length bs) = 2 * n" using n by simp
    show ?thesis
    proof (cases "as = []")
      case True
      show ?thesis
      proof (cases "bs = []")
        case True
        with \<open>as = []\<close> n ip compressed(1) show ?thesis by (simp add: parseIPv6_def)
      next
        case False
        have "parseIPv6_loop (join_groups bs) [] (Some 0) = Some ([], groups_bytes bs, Some 0)"
          using parseIPv6_loop_groups [of bs "[]" "Some 0"] False less n compressed(2,3) by auto
        with False \<open>as = []\<close> r n ip compressed(1,3) join_groups_hd [OF False] show ?thesis
          by (auto simp: parseIPv6_def expand_ellipsis_def)
      qed
    next
      case False
      have "parseIPv6_loop (join_groups as @ ''::'' @ join_groups bs) [] None =
          Some ([], [] @ groups_bytes as @ groups_bytes bs, Some (length ([] :: byte list) + 2 * length as))"
        using False less n compressed(2,3) by (intro parseIPv6_loop_ellipsis) auto
      with False r n ip compressed(1,3) join_groups_no_prefix [OF False] show ?thesis
        by (simp add: parseIPv6_def expand_ellipsis_def)
    qed
  qed
qed

subsection \<open>Addresses\<close>

lemma addr_kind_append:
  "(\<forall>c \<in> set s. c \<notin> {CHR ''.'', CHR '':'', CHR ''%''}) \<Longrightarrow> addr_kind (s @ r) = addr_kind r"
  by (induction s) auto

lemma dec_plain: "c \<in> set (dec n) \<Longrightarrow> c \<notin> {CHR ''.'', CHR '':'', CHR ''%'', CHR ''/''}"
  using dec_chars [of c n] by (auto simp: dec_val_def split: if_splits)

lemma hex_plain: "c \<in> set (hex n) \<Longrightarrow> c \<notin> {CHR ''.'', CHR '':'', CHR ''%'', CHR ''/''}"
  using hex_chars [of c n] by (auto simp: hex_val_def split: if_splits)

lemma ParseAddr_string4: "length ip = 4 \<Longrightarrow> ParseAddr (string4 ip) = Some ip"
proof -
  assume len: "length ip = 4"
  then obtain a b c d where ip: "ip = [a, b, c, d]"
    by (auto simp: length_Suc_conv numeral_eq_Suc)
  have "CHR ''%'' \<notin> set (string4 ip)" using dec_plain by (auto simp: ip string4_def)
  moreover have "addr_kind (string4 ip) = Some (CHR ''.'')"
    using addr_kind_append [of "dec (unat a)"] dec_plain [of _ "unat a"] by (auto simp: ip string4_def)
  ultimately show ?thesis using parseIPv4_string4 [OF len] by (simp add: ParseAddr_def)
qed

lemma join_groups_kind:
  "addr_kind (join_groups (g # gs) @ '':'' @ r) = Some (CHR '':'')"
  "gs \<noteq> [] \<Longrightarrow> addr_kind (join_groups (g # gs)) = Some (CHR '':'')"
  using addr_kind_append [of "hex g"] hex_plain [of _ g] by (cases gs; auto)+

lemma join_groups_percent: "CHR ''%'' \<notin> set (join_groups gs)"
proof
  assume "CHR ''%'' \<in> set (join_groups gs)"
  from join_groups_chars [OF this] show False by (simp add: hex_val_def)
qed

lemma ParseAddr_string6: "length ip = 16 \<Longrightarrow> ParseAddr (string6 ip) = Some ip"
proof -
  assume len: "length ip = 16"
  have gl: "length (groups_of ip) = 8" using len by (simp add: length_groups_of)
  have "CHR ''%'' \<notin> set (string6 ip) \<and> addr_kind (string6 ip) = Some (CHR '':'')"
    using len
  proof (cases rule: string6_cases)
    case plain
    obtain g gs where "groups_of ip = g # gs" "gs \<noteq> []"
      using gl by (cases "groups_of ip"; cases "tl (groups_of ip)") auto
    with plain show ?thesis by (simp add: join_groups_percent join_groups_kind(2))
  next
    case (compressed as n bs)
    then show ?thesis
      using join_groups_kind(1) [of _ _ "'':'' @ join_groups bs"]
      by (cases as) (auto simp: join_groups_percent)
  qed
  then show ?thesis using parseIPv6_string6 [OF len] by (simp add: ParseAddr_def)
qed

lemma To4_As16: "length a = 4 \<Longrightarrow> To4 (As16 a) = Some a"
  by (simp add: To4_def As16_def v4InV6Prefix_def)

lemma To4_length: "To4 ip = Some v4 \<Longrightarrow> length v4 = 4"
  by (auto simp: To4_def split: if_splits)

lemma parseIPv4_length: "parseIPv4 s = Some fs \<Longrightarrow> length fs = 4"
proof -
  have "parseIPv4Fields_loop s dot val dl fs = Some r \<Longrightarrow> length fs \<le> 3 \<Longrightarrow> length r = 4" for dot val dl fs r
    by (induction s dot val dl fs rule: parseIPv4Fields_loop.induct)
      (auto split: option.splits if_splits)
  then show "parseIPv4 s = Some fs \<Longrightarrow> length fs = 4" by (force simp: parseIPv4_def)
qed

lemma parseIPv6_loop_length:
  assumes "parseIPv6_loop s ip ell = Some (s', ip', ell')"
    and "even (length ip)" and "length ip \<le> 16" and "\<forall>e. ell = Some e \<longrightarrow> e \<le> length ip"
  shows "length ip' \<le> 16 \<and> (\<forall>e. ell' = Some e \<longrightarrow> e \<le> length ip')"
  using assms
proof (induction s ip ell rule: parseIPv6_loop.induct)
  case (1 s ip ell)
  show ?case
  proof (cases "16 \<le> length ip")
    case True
    with "1.prems" show ?thesis by (auto simp: parseIPv6_loop.simps [of s])
  next
    case False
    with "1.prems"(2) have room: "length ip + 2 \<le> 16" by presburger
    obtain acc off rest where run: "hex_run s 0 0 = Some (acc, off, rest)"
      using "1.prems"(1) False by (auto simp: parseIPv6_loop.simps [of s] split: option.splits)
    have off: "off \<noteq> 0"
      using "1.prems"(1) False run by (auto simp: parseIPv6_loop.simps [of s] split: if_splits)
    show ?thesis
    proof (cases rest)
      case Nil
      with "1.prems" False run off room show ?thesis by (auto simp: parseIPv6_loop.simps [of s])
    next
      case rest: (Cons c r)
      show ?thesis
      proof (cases "c = CHR ''.''")
        case True
        with "1.prems" False run off rest show ?thesis
          by (auto simp: parseIPv6_loop.simps [of s] dest: parseIPv4_length split: if_splits option.splits)
      next
        case nd: False
        then obtain c' r' where r: "c = CHR '':''" "r = c' # r'"
          using "1.prems"(1) False run off rest
          by (auto simp: parseIPv6_loop.simps [of s] split: if_splits list.splits)
        note IH = "1.IH" [OF False run refl refl off rest nd _ r(2)]
        have "\<forall>e. ell = Some e \<longrightarrow> e \<le> Suc (Suc (length ip))" using "1.prems"(4) by auto
        then show ?thesis
          using "1.prems" False run off rest nd r room IH(1) IH(2)
          by (auto simp: parseIPv6_loop.simps [of s] split: if_splits)
      qed
    qed
  qed
qed

lemma parseIPv6_length: "parseIPv6 s = Some ip \<Longrightarrow> length ip = 16"
  by (auto simp: parseIPv6_def expand_ellipsis_def bind_eq_Some_conv split: if_splits option.splits
      dest!: parseIPv6_loop_length)

lemma ParseAddr_length: "ParseAddr s = Some a \<Longrightarrow> length a = 4 \<or> length a = 16"
  by (auto simp: ParseAddr_def dest: parseIPv4_length parseIPv6_length split: if_splits)

lemma ParseIP_length: "ParseIP s = Some ip \<Longrightarrow> length ip = 16"
  by (auto simp: ParseIP_def As16_def v4InV6Prefix_def dest: ParseAddr_length)

lemma As16_To4: "length ip = 16 \<Longrightarrow> To4 ip = Some v4 \<Longrightarrow> As16 v4 = ip"
  by (auto simp: To4_def As16_def split: if_splits) (metis append_take_drop_id)

text \<open>The canonical text of a parsed address, and that it parses back to the address.\<close>

lemma IP_String_v4: "length v4 = 4 \<Longrightarrow> IP_String v4 = string4 v4"
  by (cases v4) (auto simp: IP_String_def To4_def)

lemma normalizeIP_parsed: "ParseIP s = Some ip \<Longrightarrow> normalizeIP s = IP_String ip"
proof -
  assume p: "ParseIP s = Some ip"
  then have len: "length ip = 16" by (rule ParseIP_length)
  show "normalizeIP s = IP_String ip"
  proof (cases "To4 ip")
    case None
    with p show ?thesis by (simp add: normalizeIP_def)
  next
    case (Some v4)
    moreover have "IP_String ip = string4 v4" using len Some by (auto simp: IP_String_def)
    ultimately show ?thesis
      using p To4_length [OF Some] by (simp add: normalizeIP_def IP_String_v4)
  qed
qed

lemma normalizeIP_unparsed: "ParseIP s = None \<Longrightarrow> normalizeIP s = s"
  by (simp add: normalizeIP_def)

lemma ParseIP_IP_String:
  assumes len: "length ip = 16"
  shows "ParseIP (IP_String ip) = Some ip"
proof (cases "To4 ip")
  case None
  with len have "IP_String ip = string6 ip" by (auto simp: IP_String_def)
  with len show ?thesis by (simp add: ParseIP_def ParseAddr_string6 As16_def)
next
  case (Some v4)
  then have "length v4 = 4" by (rule To4_length)
  moreover have "IP_String ip = string4 v4" using len Some by (auto simp: IP_String_def)
  ultimately show ?thesis
    using As16_To4 [OF len Some] by (simp add: ParseIP_def ParseAddr_string4)
qed

lemma ParseIP_normalizeIP: "ParseIP (normalizeIP s) = ParseIP s"
proof (cases "ParseIP s")
  case None
  then show ?thesis by (simp add: normalizeIP_def)
next
  case (Some ip)
  then show ?thesis by (simp add: normalizeIP_parsed ParseIP_IP_String ParseIP_length)
qed

lemma normalizeIP_idem [simp]: "normalizeIP (normalizeIP s) = normalizeIP s"
proof (cases "ParseIP s")
  case None
  then show ?thesis by (simp add: normalizeIP_unparsed)
next
  case (Some ip)
  then show ?thesis
    using ParseIP_normalizeIP [of s] normalizeIP_parsed [of "normalizeIP s" ip]
    by (simp add: normalizeIP_parsed)
qed

lemma normalizeIP_eq_iff:
  "normalizeIP a = normalizeIP b \<longleftrightarrow>
     (if ParseIP a = None \<and> ParseIP b = None then a = b else ParseIP a = ParseIP b)"
proof
  assume eq: "normalizeIP a = normalizeIP b"
  then have "ParseIP a = ParseIP b" by (metis ParseIP_normalizeIP)
  with eq show "if ParseIP a = None \<and> ParseIP b = None then a = b else ParseIP a = ParseIP b"
    by (auto simp: normalizeIP_unparsed)
next
  assume "if ParseIP a = None \<and> ParseIP b = None then a = b else ParseIP a = ParseIP b"
  then show "normalizeIP a = normalizeIP b"
    by (cases "ParseIP a"; cases "ParseIP b") (auto simp: normalizeIP_parsed split: if_splits)
qed

lemma IP_String_not_Nil: "length ip = 4 \<or> length ip = 16 \<Longrightarrow> IP_String ip \<noteq> []"
proof
  assume len: "length ip = 4 \<or> length ip = 16" and eq: "IP_String ip = []"
  have "ParseAddr [] = None" by (simp add: ParseAddr_def)
  then have none: "ParseIP [] = None" by (simp add: ParseIP_def)
  from len show False
  proof
    assume "length ip = 16"
    from ParseIP_IP_String [OF this] eq none show False by simp
  next
    assume l4: "length ip = 4"
    from ParseAddr_string4 [OF l4] IP_String_v4 [OF l4] eq \<open>ParseAddr [] = None\<close> show False by simp
  qed
qed

lemma normalizeIP_Nil_iff: "normalizeIP s = [] \<longleftrightarrow> s = []"
proof (cases "ParseIP s")
  case None
  then show ?thesis by (simp add: normalizeIP_unparsed)
next
  case (Some ip)
  moreover have "ParseIP [] = None" by (simp add: ParseIP_def ParseAddr_def)
  ultimately show ?thesis
    using IP_String_not_Nil [of ip] ParseIP_length [OF Some] by (auto simp: normalizeIP_parsed)
qed

text \<open>An IPv4 address and its IPv4-mapped IPv6 spelling.\<close>

lemma hex_run_dec:
  assumes "n < 256"
  shows "\<exists>acc. hex_run (dec n @ CHR ''.'' # r) 0 0 = Some (acc, length (dec n), CHR ''.'' # r)"
proof -
  let ?ds = "ndigits 10 n"
  have lt: "\<forall>d \<in> set ?ds. d < 10" using ndigits_less [of 10 _ n] by auto
  have lt16: "\<forall>d \<in> set ?ds. d < 16" using lt by fastforce
  have "n < 10 ^ Suc 2" using assms by simp
  then have len: "length ?ds \<le> 3" using ndigits_length [of 10 n 2] by simp
  have bound: "horner 16 a ds + 1 \<le> (a + 1) * 16 ^ length ds" if "\<forall>d \<in> set ds. d < 16" for a ds
    using that
  proof (induction ds arbitrary: a)
    case (Cons d ds)
    have "horner 16 (a * 16 + d) ds + 1 \<le> (a * 16 + d + 1) * 16 ^ length ds" using Cons by auto
    also have "\<dots> \<le> ((a + 1) * 16) * 16 ^ length ds" using Cons.prems by (intro mult_le_mono1) auto
    finally show ?case by (simp add: algebra_simps)
  qed simp
  have "horner 16 0 ?ds + 1 \<le> 16 ^ length ?ds" using bound [OF lt16, of 0] by simp
  also have "\<dots> \<le> 16 ^ 3" using len by (intro power_increasing) auto
  finally have "horner 16 0 ?ds \<le> 65535" by simp
  with hex_run_digits [of ?ds 0 0 "CHR ''.'' # r"] lt16 len show ?thesis
    by (fastforce simp: dec_def)
qed

lemma ParseIP_mapped:
  assumes "length v4 = 4"
  shows "ParseIP (''::ffff:'' @ string4 v4) = Some (v4InV6Prefix @ v4)"
proof -
  obtain a b c d where v4: "v4 = [a, b, c, d]"
    using assms by (auto simp: length_Suc_conv numeral_eq_Suc)
  let ?s = "string4 v4"
  have s: "?s = dec (unat a) @ CHR ''.'' # Join ''.'' [dec (unat b), dec (unat c), dec (unat d)]"
    by (simp add: v4 string4_def)
  obtain acc where run: "hex_run ?s 0 0 = Some (acc, length (dec (unat a)),
      CHR ''.'' # Join ''.'' [dec (unat b), dec (unat c), dec (unat d)])"
    using hex_run_dec [of "unat a"] s by auto
  have inner: "parseIPv6_loop ?s [255, 255] (Some 0) = Some ([], [255, 255] @ v4, Some 0)"
    using run parseIPv4_string4 [OF assms] by (subst parseIPv6_loop.simps) simp
  have ffff: "hex_run (''ffff'' @ CHR '':'' # ?s) 0 0 = Some (65535, 4, CHR '':'' # ?s)"
    by (simp add: hex_val_def)
  obtain ch r where cs: "?s = ch # r" "ch \<noteq> CHR '':''"
    using dec_plain [of "hd (dec (unat a))" "unat a"] s by (cases "dec (unat a)") auto
  have "parseIPv6_loop (''ffff'' @ CHR '':'' # ?s) [] (Some 0) = Some ([], [255, 255] @ v4, Some 0)"
    using ffff inner cs by (subst parseIPv6_loop.simps) (simp add: group_bytes_def)
  then have "parseIPv6 (''::ffff:'' @ ?s) = Some (v4InV6Prefix @ v4)"
    by (simp add: parseIPv6_def expand_ellipsis_def v4 v4InV6Prefix_def numeral_eq_Suc)
  moreover have "CHR ''%'' \<notin> set ?s" using dec_plain by (auto simp: v4 string4_def)
  ultimately show ?thesis
    using assms by (simp add: ParseIP_def ParseAddr_def As16_def v4InV6Prefix_def)
qed

lemma ParseIP_dotted: "length v4 = 4 \<Longrightarrow> ParseIP (string4 v4) = Some (v4InV6Prefix @ v4)"
  by (simp add: ParseIP_def ParseAddr_string4 As16_def)

lemma normalizeIP_dotted: "length v4 = 4 \<Longrightarrow> normalizeIP (string4 v4) = string4 v4"
  using To4_As16 [of v4] by (simp add: normalizeIP_def ParseIP_dotted IP_String_v4 As16_def)

lemma normalizeIP_mapped: "length v4 = 4 \<Longrightarrow> normalizeIP (''::ffff:'' @ string4 v4) = string4 v4"
  using normalizeIP_eq_iff [of "''::ffff:'' @ string4 v4" "string4 v4"] ParseIP_mapped [of v4]
  by (simp add: ParseIP_dotted normalizeIP_dotted)

text \<open>The addresses the sample states use.\<close>

lemma sample_strings:
  "''10.0.0.1'' = string4 [10, 0, 0, 1]" "''10.0.0.2'' = string4 [10, 0, 0, 2]" "''10.0.0.9'' = string4 [10, 0, 0, 9]"
  "''::ffff:10.0.0.1'' = ''::ffff:'' @ string4 [10, 0, 0, 1]"
  by (simp_all add: string4_def dec_def ndigits.simps digit_char_def char_of_def bit_0)

lemma sample_addresses:
  "normalizeIP ''10.0.0.1'' = ''10.0.0.1''" "normalizeIP ''10.0.0.2'' = ''10.0.0.2''"
  "normalizeIP ''::ffff:10.0.0.1'' = ''10.0.0.1''"
  "ParseIP ''::ffff:10.0.0.1'' = ParseIP ''10.0.0.1''" "ParseIP ''10.0.0.1'' \<noteq> None" "ParseIP ''10.0.0.2'' \<noteq> None"
  using normalizeIP_mapped [of "[10, 0, 0, 1]"] ParseIP_mapped [of "[10, 0, 0, 1]"]
  unfolding sample_strings by (simp_all add: normalizeIP_dotted ParseIP_dotted)

end
