(* ===== verification/PacketParser.thy ===== *)
theory PacketParser
  imports GoNet
begin

unbundle bit_operations_syntax

text \<open>
  internal/packet/parser.go: decoding of a raw IPv4 or IPv6 packet into the fields the
  policy judges. Every read of the packet bytes is bounds-checked in the model
  (\<open>byte_at\<close>, \<open>u16_at\<close>): a read out of range is Go's index panic and shows as \<open>None\<close>,
  or as \<open>Panicked\<close> in the result of \<open>ParsePacket\<close>.

  The gopacket library is not part of the repository. It is the argument \<open>gp\<close> of the
  functions that call it; \<open>gopacket_contract\<close> states what the code relies on: on a
  buffer of at least the fixed header size the network layer is present and carries the
  header fields of the wire format, and \<open>Data()\<close> is the whole buffer.
\<close>

section \<open>Data\<close>

type_synonym IPProtocol = "8 word"

record TCPFlags =
  SYN :: bool
  ACK :: bool
  RST :: bool
  FIN :: bool

record FragmentInfo =
  IsFragment :: bool
  MoreFragments :: bool
  Offset :: int
  L4Incomplete :: bool

record PacketInfo =
  SrcMAC :: string
  DstMAC :: string
  SrcIP :: string
  DstIP :: string
  Protocol :: string
  SrcPort :: uint16
  DstPort :: uint16
  Flags :: TCPFlags
  ICMPType :: "byte option"
  ICMPCode :: "byte option"
  Fragment :: FragmentInfo
  PacketSize :: int
  IPv6ExtHeaders :: "string list"

definition no_flags :: TCPFlags where
  "no_flags = \<lparr>SYN = False, ACK = False, RST = False, FIN = False\<rparr>"

definition no_fragment :: FragmentInfo where
  "no_fragment = \<lparr>IsFragment = False, MoreFragments = False, Offset = 0, L4Incomplete = False\<rparr>"

subsection \<open>What the code uses of gopacket\<close>

record ipv4_layer =
  ip4_SrcIP :: IP
  ip4_DstIP :: IP
  ip4_Protocol :: IPProtocol
  ip4_FragOffset :: uint16
  ip4_Flags :: byte
  ip4_IHL :: byte

record ipv6_layer =
  ip6_SrcIP :: IP
  ip6_DstIP :: IP
  ip6_NextHeader :: IPProtocol

record ethernet_layer =
  eth_SrcMAC :: "byte list"
  eth_DstMAC :: "byte list"

text \<open>The result of \<open>packet.Layer(t)\<close>: nil, a layer of another Go type, or the layer.\<close>

datatype 'l layer = NoLayer | OtherType | Layer 'l

record gopacket_packet =
  layer_IPv4 :: "ipv4_layer layer"
  layer_IPv6 :: "ipv6_layer layer"
  layer_Ethernet :: "ethernet_layer layer"
  packet_Data :: "byte list"

datatype layer_type = LayerTypeIPv4 | LayerTypeIPv6

type_synonym gopacket = "layer_type \<Rightarrow> byte list \<Rightarrow> gopacket_packet option"

subsection \<open>Errors\<close>

datatype parse_error =
    PacketTooShort nat
  | UnsupportedVersion nat
  | IPv4TooShort nat
  | IPv6TooShort nat
  | DecodeFailed layer_type
  | NoLayerFound layer_type
  | CastFailed layer_type

datatype parse_result = Parsed PacketInfo | ParseError parse_error | Panicked

section \<open>Reading bytes\<close>

definition byte_at :: "byte list \<Rightarrow> nat \<Rightarrow> byte option" where
  "byte_at raw i = (if i < length raw then Some (raw ! i) else None)"

text \<open>\<open>binary.BigEndian.Uint16\<close> of the two bytes from \<open>i\<close>.\<close>

definition be16 :: "byte \<Rightarrow> byte \<Rightarrow> uint16" where
  "be16 hi lo = of_nat (unat hi * 256 + unat lo)"

definition u16_at :: "byte list \<Rightarrow> nat \<Rightarrow> uint16 option" where
  "u16_at raw i = (if i + 2 \<le> length raw then Some (be16 (raw ! i) (raw ! (i + 1))) else None)"

section \<open>Protocol names\<close>

definition protocolName :: "IPProtocol \<Rightarrow> string" where
  "protocolName proto =
     (if proto = 6 then ''TCP''
      else if proto = 17 then ''UDP''
      else if proto = 1 then ''ICMP''
      else if proto = 58 then ''ICMPv6''
      else ''IP-'' @ dec (unat proto))"

definition extHeaderTypes :: "IPProtocol \<Rightarrow> string option" where
  "extHeaderTypes proto =
     (if proto = 0 then Some ''HopByHop''
      else if proto = 43 then Some ''Routing''
      else if proto = 44 then Some ''Fragment''
      else if proto = 60 then Some ''Destination''
      else None)"

definition ipv4HeaderLen :: nat where "ipv4HeaderLen = 20"
definition ipv6HeaderLen :: nat where "ipv6HeaderLen = 40"
definition ipv6FragmentHeaderLen :: nat where "ipv6FragmentHeaderLen = 8"
definition tcpMinHeaderLen :: nat where "tcpMinHeaderLen = 20"
definition udpHeaderLen :: nat where "udpHeaderLen = 8"
definition icmpMinHeaderLen :: nat where "icmpMinHeaderLen = 4"

lemmas header_lens = ipv4HeaderLen_def ipv6HeaderLen_def ipv6FragmentHeaderLen_def
  tcpMinHeaderLen_def udpHeaderLen_def icmpMinHeaderLen_def

section \<open>The IPv6 header chain\<close>

record ipv6HeaderChain =
  L4Proto :: IPProtocol
  L4Offset :: int
  ExtHeaders :: "string list"
  ChainFragment :: FragmentInfo

text \<open>
  The loop of \<open>walkIPv6HeaderChain\<close>; \<open>exts\<close> and \<open>frag\<close> are the fields of \<open>chain\<close> it
  has filled so far. Each hop advances by at least eight bytes, so the bytes that are left
  decrease.
\<close>

function walk_loop :: "byte list \<Rightarrow> IPProtocol \<Rightarrow> nat \<Rightarrow> string list \<Rightarrow> FragmentInfo \<Rightarrow> ipv6HeaderChain option" where
  "walk_loop raw proto off exts frag =
     (case extHeaderTypes proto of
        None \<Rightarrow> Some \<lparr>L4Proto = proto, L4Offset = (if off < length raw then int off else - 1),
                       ExtHeaders = exts, ChainFragment = frag\<rparr>
      | Some name \<Rightarrow>
          if length raw \<le> off then
            Some \<lparr>L4Proto = proto, L4Offset = - 1, ExtHeaders = exts, ChainFragment = frag\<rparr>
          else
            (case byte_at raw off of
               None \<Rightarrow> None
             | Some next_hdr \<Rightarrow>
                 if proto = 44 then
                   (if length raw < off + ipv6FragmentHeaderLen then
                      Some \<lparr>L4Proto = proto, L4Offset = - 1, ExtHeaders = exts @ [name], ChainFragment = frag\<rparr>
                    else
                      (case u16_at raw (off + 2) of
                         None \<Rightarrow> None
                       | Some flagsOffset \<Rightarrow>
                           (let frag' = \<lparr>IsFragment = True, MoreFragments = (flagsOffset AND 1 = 1),
                                         Offset = uint (drop_bit 3 flagsOffset), L4Incomplete = False\<rparr>
                            in if 0 < Offset frag' then
                                 Some \<lparr>L4Proto = next_hdr, L4Offset = - 1, ExtHeaders = exts @ [name], ChainFragment = frag'\<rparr>
                               else walk_loop raw next_hdr (off + ipv6FragmentHeaderLen) (exts @ [name]) frag')))
                 else if length raw < off + 2 then
                   Some \<lparr>L4Proto = proto, L4Offset = - 1, ExtHeaders = exts @ [name], ChainFragment = frag\<rparr>
                 else
                   (case byte_at raw (off + 1) of
                      None \<Rightarrow> None
                    | Some hdrExtLen \<Rightarrow>
                        walk_loop raw next_hdr (off + (unat hdrExtLen + 1) * 8) (exts @ [name]) frag)))"
  by pat_completeness auto
termination
  by (relation "measure (\<lambda>(raw, proto, off, exts, frag). length raw - off)")
    (auto simp: header_lens)

declare walk_loop.simps [simp del]

definition walkIPv6HeaderChain :: "byte list \<Rightarrow> IPProtocol \<Rightarrow> ipv6HeaderChain option" where
  "walkIPv6HeaderChain raw first = walk_loop raw first ipv6HeaderLen [] no_fragment"

section \<open>The transport header\<close>

definition set_incomplete :: "PacketInfo \<Rightarrow> PacketInfo" where
  "set_incomplete info = info\<lparr>Fragment := (Fragment info)\<lparr>L4Incomplete := True\<rparr>\<rparr>"

definition populateL4FromBytes :: "PacketInfo \<Rightarrow> byte list \<Rightarrow> int \<Rightarrow> IPProtocol \<Rightarrow> PacketInfo option" where
  "populateL4FromBytes info0 raw off proto =
     (let info = info0\<lparr>Protocol := protocolName proto\<rparr>; at = nat off
      in if off < 0 then Some info
         else if proto = 6 then
           (if length raw < at + tcpMinHeaderLen then Some (set_incomplete info)
            else case (u16_at raw at, u16_at raw (at + 2), byte_at raw (at + 13)) of
                (Some sp, Some dp, Some flags) \<Rightarrow>
                  Some (info\<lparr>SrcPort := sp, DstPort := dp,
                    Flags := \<lparr>SYN = (flags AND 2 \<noteq> 0), ACK = (flags AND 16 \<noteq> 0),
                              RST = (flags AND 4 \<noteq> 0), FIN = (flags AND 1 \<noteq> 0)\<rparr>\<rparr>)
              | _ \<Rightarrow> None)
         else if proto = 17 then
           (if length raw < at + udpHeaderLen then Some (set_incomplete info)
            else case (u16_at raw at, u16_at raw (at + 2)) of
                (Some sp, Some dp) \<Rightarrow> Some (info\<lparr>SrcPort := sp, DstPort := dp\<rparr>)
              | _ \<Rightarrow> None)
         else if proto = 1 \<or> proto = 58 then
           (if length raw < at + icmpMinHeaderLen then Some (set_incomplete info)
            else case (byte_at raw at, byte_at raw (at + 1)) of
                (Some t, Some c) \<Rightarrow> Some (info\<lparr>ICMPType := Some t, ICMPCode := Some c\<rparr>)
              | _ \<Rightarrow> None)
         else Some info)"

section \<open>The two address families\<close>

definition HardwareAddr_String :: "byte list \<Rightarrow> string" where
  "HardwareAddr_String a = Join '':'' (map hex2 a)"

definition extractMAC :: "gopacket_packet \<Rightarrow> string \<times> string" where
  "extractMAC p =
     (case layer_Ethernet p of
        NoLayer \<Rightarrow> ([], [])
      | OtherType \<Rightarrow> ([], [])
      | Layer e \<Rightarrow> (HardwareAddr_String (eth_SrcMAC e), HardwareAddr_String (eth_DstMAC e)))"

definition blank_info :: "string \<times> string \<Rightarrow> IP \<Rightarrow> IP \<Rightarrow> nat \<Rightarrow> FragmentInfo \<Rightarrow> string list \<Rightarrow> PacketInfo" where
  "blank_info macs src dst n frag exts =
     \<lparr>SrcMAC = fst macs, DstMAC = snd macs, SrcIP = IP_String src, DstIP = IP_String dst,
      Protocol = [], SrcPort = 0, DstPort = 0, Flags = no_flags, ICMPType = None, ICMPCode = None,
      Fragment = frag, PacketSize = int n, IPv6ExtHeaders = exts\<rparr>"

definition parseIPv4Packet :: "gopacket \<Rightarrow> byte list \<Rightarrow> parse_result" where
  "parseIPv4Packet gp raw =
     (if length raw < 20 then ParseError (IPv4TooShort (length raw))
      else case gp LayerTypeIPv4 raw of
        None \<Rightarrow> ParseError (DecodeFailed LayerTypeIPv4)
      | Some packet \<Rightarrow>
          (case layer_IPv4 packet of
             NoLayer \<Rightarrow> ParseError (NoLayerFound LayerTypeIPv4)
           | OtherType \<Rightarrow> ParseError (CastFailed LayerTypeIPv4)
           | Layer ipv4 \<Rightarrow>
               (let mf = (ip4_Flags ipv4 AND 1 \<noteq> 0);
                    info = blank_info (extractMAC packet) (ip4_SrcIP ipv4) (ip4_DstIP ipv4)
                      (length (packet_Data packet))
                      \<lparr>IsFragment = (0 < ip4_FragOffset ipv4 \<or> mf), MoreFragments = mf,
                       Offset = uint (ip4_FragOffset ipv4), L4Incomplete = False\<rparr> [];
                    l4Off = unat (ip4_IHL ipv4) * 4
                in if 0 < ip4_FragOffset ipv4 then
                     Parsed (info\<lparr>Protocol := protocolName (ip4_Protocol ipv4)\<rparr>)
                   else if l4Off < ipv4HeaderLen then
                     Parsed (set_incomplete (info\<lparr>Protocol := protocolName (ip4_Protocol ipv4)\<rparr>))
                   else
                     (case populateL4FromBytes info raw (int l4Off) (ip4_Protocol ipv4) of
                        None \<Rightarrow> Panicked
                      | Some info' \<Rightarrow> Parsed info'))))"

definition parseIPv6Packet :: "gopacket \<Rightarrow> byte list \<Rightarrow> parse_result" where
  "parseIPv6Packet gp raw =
     (if length raw < 40 then ParseError (IPv6TooShort (length raw))
      else case gp LayerTypeIPv6 raw of
        None \<Rightarrow> ParseError (DecodeFailed LayerTypeIPv6)
      | Some packet \<Rightarrow>
          (case layer_IPv6 packet of
             NoLayer \<Rightarrow> ParseError (NoLayerFound LayerTypeIPv6)
           | OtherType \<Rightarrow> ParseError (CastFailed LayerTypeIPv6)
           | Layer ipv6 \<Rightarrow>
               (case walkIPv6HeaderChain raw (ip6_NextHeader ipv6) of
                  None \<Rightarrow> Panicked
                | Some chain \<Rightarrow>
                    (case populateL4FromBytes
                        (blank_info (extractMAC packet) (ip6_SrcIP ipv6) (ip6_DstIP ipv6)
                          (length (packet_Data packet)) (ChainFragment chain) (ExtHeaders chain))
                        raw (L4Offset chain) (L4Proto chain) of
                       None \<Rightarrow> Panicked
                     | Some info \<Rightarrow> Parsed info))))"

definition ParsePacket :: "gopacket \<Rightarrow> byte list \<Rightarrow> parse_result" where
  "ParsePacket gp raw =
     (if length raw < 1 then ParseError (PacketTooShort (length raw))
      else case byte_at raw 0 of
        None \<Rightarrow> Panicked
      | Some b0 \<Rightarrow>
          (let version = drop_bit 4 b0
           in if version = 4 then parseIPv4Packet gp raw
              else if version = 6 then parseIPv6Packet gp raw
              else ParseError (UnsupportedVersion (unat version))))"

section \<open>Reading is safe\<close>

lemma byte_at_Some [simp]: "i < length raw \<Longrightarrow> byte_at raw i = Some (raw ! i)"
  by (simp add: byte_at_def)

lemma u16_at_Some [simp]:
  "i + 2 \<le> length raw \<Longrightarrow> u16_at raw i = Some (be16 (raw ! i) (raw ! (i + 1)))"
  by (simp add: u16_at_def)

text \<open>The fragment state a Fragment header with these flag and offset bits stands for.\<close>

definition frag_of :: "uint16 \<Rightarrow> FragmentInfo" where
  "frag_of w = \<lparr>IsFragment = True, MoreFragments = (w AND 1 = 1),
                Offset = uint (drop_bit 3 w), L4Incomplete = False\<rparr>"

lemma frag_of_simps [simp]:
  "IsFragment (frag_of w)" "\<not> L4Incomplete (frag_of w)" "0 \<le> Offset (frag_of w)"
  "MoreFragments (frag_of w) \<longleftrightarrow> w AND 1 = 1" "Offset (frag_of w) = uint (drop_bit 3 w)"
  by (simp_all add: frag_of_def)

text \<open>One equation per branch of the walk, and the induction rule that goes with them.\<close>

lemma walk_terminator:
  "extHeaderTypes proto = None \<Longrightarrow> walk_loop raw proto off exts frag =
     Some \<lparr>L4Proto = proto, L4Offset = (if off < length raw then int off else - 1),
           ExtHeaders = exts, ChainFragment = frag\<rparr>"
  by (simp add: walk_loop.simps)

lemma walk_absent:
  "extHeaderTypes proto = Some name \<Longrightarrow> length raw \<le> off \<Longrightarrow> walk_loop raw proto off exts frag =
     Some \<lparr>L4Proto = proto, L4Offset = - 1, ExtHeaders = exts, ChainFragment = frag\<rparr>"
  by (simp add: walk_loop.simps [of raw proto])

lemma walk_fragment_cut:
  "off < length raw \<Longrightarrow> length raw < off + 8 \<Longrightarrow> walk_loop raw 44 off exts frag =
     Some \<lparr>L4Proto = 44, L4Offset = - 1, ExtHeaders = exts @ [''Fragment''], ChainFragment = frag\<rparr>"
  by (simp add: walk_loop.simps [of raw 44] extHeaderTypes_def header_lens)

lemma walk_fragment:
  "off + 8 \<le> length raw \<Longrightarrow> walk_loop raw 44 off exts frag =
     (let frag' = frag_of (be16 (raw ! (off + 2)) (raw ! (off + 3)))
      in if 0 < Offset frag'
         then Some \<lparr>L4Proto = raw ! off, L4Offset = - 1, ExtHeaders = exts @ [''Fragment''], ChainFragment = frag'\<rparr>
         else walk_loop raw (raw ! off) (off + 8) (exts @ [''Fragment'']) frag')"
proof -
  assume le: "off + 8 \<le> length raw"
  have "u16_at raw (off + 2) = Some (be16 (raw ! (off + 2)) (raw ! (off + 3)))"
    using le u16_at_Some [of "off + 2" raw] by (simp add: numeral_3_eq_3)
  with le show ?thesis
    by (simp add: walk_loop.simps [of raw 44] extHeaderTypes_def header_lens frag_of_def Let_def)
qed

lemma walk_options_cut:
  "extHeaderTypes proto = Some name \<Longrightarrow> proto \<noteq> 44 \<Longrightarrow> off < length raw \<Longrightarrow> length raw < off + 2 \<Longrightarrow>
   walk_loop raw proto off exts frag =
     Some \<lparr>L4Proto = proto, L4Offset = - 1, ExtHeaders = exts @ [name], ChainFragment = frag\<rparr>"
  by (simp add: walk_loop.simps [of raw proto])

lemma walk_options:
  "extHeaderTypes proto = Some name \<Longrightarrow> proto \<noteq> 44 \<Longrightarrow> off + 2 \<le> length raw \<Longrightarrow>
   walk_loop raw proto off exts frag =
     walk_loop raw (raw ! off) (off + (unat (raw ! (off + 1)) + 1) * 8) (exts @ [name]) frag"
  by (simp add: walk_loop.simps [of raw proto])

lemma walk_cases:
  obtains (terminator) "extHeaderTypes proto = None"
  | (absent) name where "extHeaderTypes proto = Some name" "length raw \<le> off"
  | (fragment_cut) "proto = (44 :: IPProtocol)" "off < length raw" "length raw < off + 8"
  | (fragment) "proto = 44" "off + 8 \<le> length (raw :: byte list)"
  | (options_cut) name where "extHeaderTypes proto = Some name" "proto \<noteq> 44" "off < length raw" "length raw < off + 2"
  | (options) name where "extHeaderTypes proto = Some name" "proto \<noteq> 44" "off + 2 \<le> length raw"
  by (cases "extHeaderTypes proto"; cases "proto = 44") (metis not_le)+

lemma walk_invariant:
  assumes init: "I off frag"
    and frag_step: "\<And>off frag w. I off frag \<Longrightarrow> uint (drop_bit 3 w) = 0 \<Longrightarrow> I (off + 8) (frag_of w)"
    and opt_step: "\<And>off frag n. I off frag \<Longrightarrow> I (off + (n + 1) * 8) frag"
    and stop_end: "\<And>off frag proto exts. I off frag \<Longrightarrow> off < length raw \<Longrightarrow> extHeaderTypes proto = None \<Longrightarrow>
       Q \<lparr>L4Proto = proto, L4Offset = int off, ExtHeaders = exts, ChainFragment = frag\<rparr>"
    and stop_none: "\<And>off frag proto exts. I off frag \<Longrightarrow>
       Q \<lparr>L4Proto = proto, L4Offset = - 1, ExtHeaders = exts, ChainFragment = frag\<rparr>"
    and stop_cont: "\<And>proto exts w. 0 < uint (drop_bit 3 (w :: uint16)) \<Longrightarrow>
       Q \<lparr>L4Proto = proto, L4Offset = - 1, ExtHeaders = exts, ChainFragment = frag_of w\<rparr>"
  shows "\<exists>chain. walk_loop raw proto off exts frag = Some chain \<and> Q chain"
  using init
proof (induction "length raw - off" arbitrary: proto off exts frag rule: less_induct)
  case less
  show ?case
  proof (cases rule: walk_cases [where proto = proto and raw = raw and off = off])
    case terminator
    then show ?thesis
      using less.prems stop_end stop_none by (simp add: walk_terminator)
  next
    case fragment
    let ?w = "be16 (raw ! (off + 2)) (raw ! (off + 3))"
    show ?thesis
    proof (cases "0 < uint (drop_bit 3 ?w)")
      case False
      with uint_ge_0 [of "drop_bit 3 ?w"] have "uint (drop_bit 3 ?w) = 0" by linarith
      then have "\<exists>chain. walk_loop raw (raw ! off) (off + 8) (exts @ [''Fragment'']) (frag_of ?w) = Some chain \<and> Q chain"
        by (intro less.hyps) (use fragment frag_step [OF less.prems] in auto)
      then show ?thesis using fragment False by (simp add: walk_fragment Let_def)
    next
      case True
      from stop_cont [OF this] show ?thesis using fragment True by (simp add: walk_fragment Let_def)
    qed
  next
    case (options name)
    have "\<exists>chain. walk_loop raw (raw ! off) (off + (unat (raw ! (off + 1)) + 1) * 8) (exts @ [name]) frag = Some chain \<and> Q chain"
      by (rule less.hyps) (use options opt_step [OF less.prems] in auto)
    then show ?thesis using options by (simp add: walk_options)
  qed (use less.prems stop_none in \<open>simp_all add: walk_absent walk_fragment_cut walk_options_cut\<close>)
qed

lemma walk_total: "\<exists>chain. walkIPv6HeaderChain raw first = Some chain"
  using walk_invariant [of "\<lambda>_ _. True" ipv6HeaderLen no_fragment raw "\<lambda>_. True" first "[]"]
  by (simp add: walkIPv6HeaderChain_def)

lemma walk_bounds:
  "\<exists>chain. walkIPv6HeaderChain raw first = Some chain \<and>
     (L4Offset chain = - 1 \<or> 40 \<le> L4Offset chain \<and> L4Offset chain < int (length raw))"
  using walk_invariant [of "\<lambda>off _. 40 \<le> off" ipv6HeaderLen no_fragment raw
      "\<lambda>chain. L4Offset chain = - 1 \<or> 40 \<le> L4Offset chain \<and> L4Offset chain < int (length raw)" first "[]"]
  by (simp add: walkIPv6HeaderChain_def header_lens)

lemma walk_fragment_state:
  "\<exists>chain. walkIPv6HeaderChain raw first = Some chain \<and> \<not> L4Incomplete (ChainFragment chain) \<and>
     0 \<le> Offset (ChainFragment chain) \<and>
     (0 < Offset (ChainFragment chain) \<longrightarrow> L4Offset chain = - 1 \<and> IsFragment (ChainFragment chain))"
  using walk_invariant [of "\<lambda>_ frag. \<not> L4Incomplete frag \<and> Offset frag = 0" ipv6HeaderLen no_fragment raw
      "\<lambda>chain. \<not> L4Incomplete (ChainFragment chain) \<and> 0 \<le> Offset (ChainFragment chain) \<and>
         (0 < Offset (ChainFragment chain) \<longrightarrow> L4Offset chain = - 1 \<and> IsFragment (ChainFragment chain))" first "[]"]
  by (simp add: walkIPv6HeaderChain_def no_fragment_def)

section \<open>The transport header against a reference\<close>

text \<open>What RFC 9293, RFC 768 and RFC 792 put at the head of the IP payload.\<close>

record l4_header =
  h_name :: string
  h_src :: uint16
  h_dst :: uint16
  h_flags :: TCPFlags
  h_type :: "byte option"
  h_code :: "byte option"
  h_incomplete :: bool

definition tcp_flags :: "byte \<Rightarrow> TCPFlags" where
  "tcp_flags b = \<lparr>SYN = bit b 1, ACK = bit b 4, RST = bit b 2, FIN = bit b 0\<rparr>"

definition l4_none :: "IPProtocol \<Rightarrow> bool \<Rightarrow> l4_header" where
  "l4_none proto inc = \<lparr>h_name = protocolName proto, h_src = 0, h_dst = 0, h_flags = no_flags,
     h_type = None, h_code = None, h_incomplete = inc\<rparr>"

fun l4_spec :: "IPProtocol \<Rightarrow> byte list \<Rightarrow> l4_header" where
  "l4_spec proto (b0 # b1 # b2 # b3 # rest) =
     (if proto = 6 \<and> 16 \<le> length rest then
        (l4_none proto False)\<lparr>h_src := be16 b0 b1, h_dst := be16 b2 b3, h_flags := tcp_flags (rest ! 9)\<rparr>
      else if proto = 17 \<and> 4 \<le> length rest then
        (l4_none proto False)\<lparr>h_src := be16 b0 b1, h_dst := be16 b2 b3\<rparr>
      else if proto = 1 \<or> proto = 58 then
        (l4_none proto False)\<lparr>h_type := Some b0, h_code := Some b1\<rparr>
      else l4_none proto (proto = 6 \<or> proto = 17))"
| "l4_spec proto short = l4_none proto (proto \<in> {6, 17, 1, 58})"

definition l4_view :: "PacketInfo \<Rightarrow> l4_header" where
  "l4_view i = \<lparr>h_name = Protocol i, h_src = SrcPort i, h_dst = DstPort i, h_flags = Flags i,
     h_type = ICMPType i, h_code = ICMPCode i, h_incomplete = L4Incomplete (Fragment i)\<rparr>"

definition l4_write :: "PacketInfo \<Rightarrow> l4_header \<Rightarrow> PacketInfo" where
  "l4_write i h = i\<lparr>Protocol := h_name h, SrcPort := h_src h, DstPort := h_dst h, Flags := h_flags h,
     ICMPType := h_type h, ICMPCode := h_code h,
     Fragment := (Fragment i)\<lparr>L4Incomplete := h_incomplete h\<rparr>\<rparr>"

definition l4_blank :: "PacketInfo \<Rightarrow> bool" where
  "l4_blank i \<longleftrightarrow> l4_view i = \<lparr>h_name = [], h_src = 0, h_dst = 0, h_flags = no_flags,
     h_type = None, h_code = None, h_incomplete = False\<rparr>"

lemma l4_view_write [simp]: "l4_view (l4_write i h) = h"
  by (simp add: l4_view_def l4_write_def)

lemma l4_write_other [simp]:
  "SrcMAC (l4_write i h) = SrcMAC i" "DstMAC (l4_write i h) = DstMAC i"
  "SrcIP (l4_write i h) = SrcIP i" "DstIP (l4_write i h) = DstIP i"
  "PacketSize (l4_write i h) = PacketSize i" "IPv6ExtHeaders (l4_write i h) = IPv6ExtHeaders i"
  "IsFragment (Fragment (l4_write i h)) = IsFragment (Fragment i)"
  "MoreFragments (Fragment (l4_write i h)) = MoreFragments (Fragment i)"
  "Offset (Fragment (l4_write i h)) = Offset (Fragment i)"
  by (simp_all add: l4_write_def)

lemma and_flag:
  "(b :: byte) AND 2 \<noteq> 0 \<longleftrightarrow> bit b 1" "b AND 16 \<noteq> 0 \<longleftrightarrow> bit b 4"
  "b AND 4 \<noteq> 0 \<longleftrightarrow> bit b 2" "b AND 1 \<noteq> 0 \<longleftrightarrow> bit b 0"
proof -
  have "b AND 2 ^ n = (if bit b n then 2 ^ n else 0)" for n
    by (rule bit_eqI) (auto simp: bit_and_iff bit_exp_iff)
  from this [of 1] this [of 4] this [of 2] this [of 0] show
    "b AND 2 \<noteq> 0 \<longleftrightarrow> bit b 1" "b AND 16 \<noteq> 0 \<longleftrightarrow> bit b 4"
    "b AND 4 \<noteq> 0 \<longleftrightarrow> bit b 2" "b AND 1 \<noteq> 0 \<longleftrightarrow> bit b 0"
    by (auto split: if_splits)
qed

lemma l4_blank_fields:
  "l4_blank i \<longleftrightarrow> Protocol i = [] \<and> SrcPort i = 0 \<and> DstPort i = 0 \<and> Flags i = no_flags \<and>
     ICMPType i = None \<and> ICMPCode i = None \<and> \<not> L4Incomplete (Fragment i)"
  by (auto simp: l4_blank_def l4_view_def)

lemma populate_no_header:
  assumes "l4_blank info"
  shows "populateL4FromBytes info raw (- 1) proto = Some (l4_write info (l4_none proto False))"
  using assms by (cases info; cases "Fragment info")
    (simp add: populateL4FromBytes_def l4_write_def l4_none_def l4_blank_fields)

lemma l4_spec_short:
  "length p < 4 \<Longrightarrow> l4_spec proto p = l4_none proto (proto \<in> {6, 17, 1, 58})"
  by (cases p rule: remdups_adj.cases; cases "tl (tl p)" rule: remdups_adj.cases) (auto simp: numeral_eq_Suc)

lemma four_bytes:
  assumes "4 \<le> length p"
  obtains b0 b1 b2 b3 rest where "p = b0 # b1 # b2 # b3 # rest"
  using assms by (metis Suc_le_length_iff numeral_eq_Suc pred_numeral_simps(2,3) BitM.simps)

lemma populate_refines:
  assumes blank: "l4_blank info"
  shows "populateL4FromBytes info raw (int off) proto = Some (l4_write info (l4_spec proto (drop off raw)))"
proof (cases "4 \<le> length (drop off raw)")
  case False
  then have "length raw < off + 4" by simp
  then have "length raw < off + 4" "length raw < off + 8" "length raw < off + 20" by simp_all
  with blank show ?thesis
    by (cases info; cases "Fragment info")
      (simp add: populateL4FromBytes_def l4_spec_short l4_none_def l4_write_def l4_blank_fields
        set_incomplete_def header_lens Let_def)
next
  case True
  then obtain b0 b1 b2 b3 rest where p: "drop off raw = b0 # b1 # b2 # b3 # rest" by (rule four_bytes)
  from True have le: "off \<le> length raw" and len: "length raw = off + length (drop off raw)" by simp_all
  have nth: "raw ! off = b0" "raw ! Suc off = b1" "raw ! Suc (Suc off) = b2" "raw ! Suc (Suc (Suc off)) = b3"
    "raw ! (off + 13) = rest ! 9"
    using le nth_drop [of off raw 0] nth_drop [of off raw 1] nth_drop [of off raw 2] nth_drop [of off raw 3]
      nth_drop [of off raw 13] by (simp_all add: p numeral_eq_Suc)
  from blank len show ?thesis
    unfolding p
    by (cases info; cases "Fragment info")
      (simp add: populateL4FromBytes_def l4_none_def l4_write_def l4_blank_fields and_flag tcp_flags_def
        set_incomplete_def header_lens Let_def nth)
qed

section \<open>Extension headers on the wire\<close>

text \<open>
  The header chain of RFC 8200: Hop-by-Hop, Routing and Destination Options headers with
  their length byte and body, and the Fragment header of a first fragment (offset zero).
\<close>

datatype ext_header =
    OptionsHeader IPProtocol byte "byte list"
  | FirstFragment byte byte "byte list"

fun ext_number :: "ext_header \<Rightarrow> IPProtocol" where
  "ext_number (OptionsHeader proto _ _) = proto"
| "ext_number (FirstFragment _ _ _) = 44"

fun ext_ok :: "ext_header \<Rightarrow> bool" where
  "ext_ok (OptionsHeader proto n body) \<longleftrightarrow> proto \<in> {0, 43, 60} \<and> length body = unat n * 8 + 6"
| "ext_ok (FirstFragment _ bits ident) \<longleftrightarrow> drop_bit 3 bits = 0 \<and> length ident = 4"

fun ext_bytes :: "IPProtocol \<Rightarrow> ext_header \<Rightarrow> byte list" where
  "ext_bytes next_hdr (OptionsHeader _ n body) = [next_hdr, n] @ body"
| "ext_bytes next_hdr (FirstFragment reserved bits ident) = [next_hdr, reserved, 0, bits] @ ident"

fun chain_first :: "ext_header list \<Rightarrow> IPProtocol \<Rightarrow> IPProtocol" where
  "chain_first [] proto = proto"
| "chain_first (h # _) _ = ext_number h"

fun chain_bytes :: "ext_header list \<Rightarrow> IPProtocol \<Rightarrow> byte list" where
  "chain_bytes [] _ = []"
| "chain_bytes (h # hs) proto = ext_bytes (chain_first hs proto) h @ chain_bytes hs proto"

definition ext_name :: "ext_header \<Rightarrow> string" where
  "ext_name h = the (extHeaderTypes (ext_number h))"

fun chain_frag :: "FragmentInfo \<Rightarrow> ext_header list \<Rightarrow> FragmentInfo" where
  "chain_frag frag [] = frag"
| "chain_frag frag (OptionsHeader _ _ _ # hs) = chain_frag frag hs"
| "chain_frag frag (FirstFragment _ bits _ # hs) = chain_frag (frag_of (be16 0 bits)) hs"

lemma unat_drop_bit_3: "unat (drop_bit 3 (w :: 'a :: len word)) = unat w div 8"
  by (simp add: unat_drop_bit_eq drop_bit_nat_def)

lemma unat_be16: "unat (be16 hi lo) = unat hi * 256 + unat lo"
proof -
  have "unat hi * 256 + unat lo < 65536"
    using unat_byte_less [of hi] unat_byte_less [of lo] by linarith
  then show ?thesis unfolding be16_def unat_of_nat by simp
qed

lemma be16_small_offset:
  assumes "drop_bit 3 bits = 0"
  shows "drop_bit 3 (be16 0 bits) = 0"
proof -
  from assms have "unat bits div 8 = 0"
    by (metis unat_drop_bit_3 unat_0)
  then have "unat (drop_bit 3 (be16 0 bits)) = 0"
    unfolding unat_drop_bit_3 unat_be16 by simp
  then show ?thesis by (metis unat_eq_zero)
qed

lemma walk_chain:
  assumes "list_all ext_ok hs" "extHeaderTypes proto = None"
  shows "walk_loop (pre @ chain_bytes hs proto @ payload) (chain_first hs proto) (length pre) exts frag =
    Some \<lparr>L4Proto = proto,
          L4Offset = (if payload = [] then - 1 else int (length pre + length (chain_bytes hs proto))),
          ExtHeaders = exts @ map ext_name hs, ChainFragment = chain_frag frag hs\<rparr>"
  using assms(1)
proof (induction hs arbitrary: pre exts frag)
  case Nil
  with assms(2) show ?case by (simp add: walk_terminator)
next
  case (Cons h hs)
  let ?b = "ext_bytes (chain_first hs proto) h"
  let ?raw = "pre @ ?b @ chain_bytes hs proto @ payload"
  have IH: "walk_loop ?raw (chain_first hs proto) (length pre + length ?b) exts' frag' = 
    Some \<lparr>L4Proto = proto,
          L4Offset = (if payload = [] then - 1 else int (length pre + length ?b + length (chain_bytes hs proto))),
          ExtHeaders = exts' @ map ext_name hs, ChainFragment = chain_frag frag' hs\<rparr>" for exts' frag'
    using Cons.IH [of "pre @ ?b" exts' frag'] Cons.prems by simp
  show ?case
  proof (cases h)
    case (OptionsHeader q n body)
    with Cons.prems have q: "q \<in> {0, 43, 60}" and body: "length body = unat n * 8 + 6" by auto
    from q obtain name where name: "extHeaderTypes q = Some name" "q \<noteq> 44"
      by (auto simp: extHeaderTypes_def)
    have "walk_loop ?raw q (length pre) exts frag =
        walk_loop ?raw (chain_first hs proto) (length pre + length ?b) (exts @ [name]) frag"
      using walk_options [OF name, of "length pre" ?raw exts frag] OptionsHeader body
      by (simp add: nth_append algebra_simps)
    then show ?thesis using IH OptionsHeader name by (simp add: ext_name_def)
  next
    case (FirstFragment res bits ident)
    with Cons.prems have bits: "drop_bit 3 (be16 0 bits) = 0" and ident: "length ident = 4"
      by (auto intro: be16_small_offset)
    have "walk_loop ?raw 44 (length pre) exts frag =
        walk_loop ?raw (chain_first hs proto) (length pre + length ?b) (exts @ [''Fragment'']) (frag_of (be16 0 bits))"
      using walk_fragment [of "length pre" ?raw exts frag] FirstFragment ident bits
      by (simp add: nth_append Let_def)
    then show ?thesis using IH FirstFragment by (simp add: ext_name_def extHeaderTypes_def)
  qed
qed

section \<open>What the parser relies on of gopacket\<close>

definition ipv4_wire :: "byte list \<Rightarrow> ipv4_layer" where
  "ipv4_wire raw = \<lparr>ip4_SrcIP = take 4 (drop 12 raw), ip4_DstIP = take 4 (drop 16 raw), ip4_Protocol = raw ! 9,
     ip4_FragOffset = be16 (raw ! 6) (raw ! 7) AND 0x1FFF, ip4_Flags = drop_bit 5 (raw ! 6), ip4_IHL = raw ! 0 AND 0xF\<rparr>"

definition ipv6_wire :: "byte list \<Rightarrow> ipv6_layer" where
  "ipv6_wire raw = \<lparr>ip6_SrcIP = take 16 (drop 8 raw), ip6_DstIP = take 16 (drop 24 raw), ip6_NextHeader = raw ! 6\<rparr>"

text \<open>
  The documented decoding of the two network layers. Nothing is said of an Ethernet layer:
  gopacket decodes one inside a tunnelled payload.
\<close>

definition gopacket_contract :: "gopacket \<Rightarrow> bool" where
  "gopacket_contract gp \<longleftrightarrow> (\<forall>raw.
     (20 \<le> length raw \<longrightarrow> (\<exists>p. gp LayerTypeIPv4 raw = Some p \<and> layer_IPv4 p = Layer (ipv4_wire raw) \<and> packet_Data p = raw)) \<and>
     (40 \<le> length raw \<longrightarrow> (\<exists>p. gp LayerTypeIPv6 raw = Some p \<and> layer_IPv6 p = Layer (ipv6_wire raw) \<and> packet_Data p = raw)))"

text \<open>A decoder that satisfies the contract, for the witnesses.\<close>

definition gp_wire :: gopacket where
  "gp_wire t raw = Some \<lparr>
     layer_IPv4 = (if t = LayerTypeIPv4 then Layer (ipv4_wire raw) else NoLayer),
     layer_IPv6 = (if t = LayerTypeIPv6 then Layer (ipv6_wire raw) else NoLayer),
     layer_Ethernet = NoLayer, packet_Data = raw\<rparr>"

lemma gp_wire_contract: "gopacket_contract gp_wire"
  by (simp add: gopacket_contract_def gp_wire_def)

lemma l4_blank_info [simp]: "\<not> L4Incomplete frag \<Longrightarrow> l4_blank (blank_info macs src dst n frag exts)"
  by (simp add: l4_blank_fields blank_info_def)

section \<open>The parser against the reference\<close>

text \<open>Every successful parse is blank address information with one transport view written in.\<close>

definition ipv4_frag :: "ipv4_layer \<Rightarrow> FragmentInfo" where
  "ipv4_frag ip = \<lparr>IsFragment = (0 < ip4_FragOffset ip \<or> ip4_Flags ip AND 1 \<noteq> 0),
     MoreFragments = (ip4_Flags ip AND 1 \<noteq> 0), Offset = uint (ip4_FragOffset ip), L4Incomplete = False\<rparr>"

definition ipv4_l4 :: "ipv4_layer \<Rightarrow> byte list \<Rightarrow> l4_header" where
  "ipv4_l4 ip raw =
     (if 0 < ip4_FragOffset ip then l4_none (ip4_Protocol ip) False
      else if ip4_IHL ip < 5 then l4_none (ip4_Protocol ip) True
      else l4_spec (ip4_Protocol ip) (drop (unat (ip4_IHL ip) * 4) raw))"

definition chain_l4 :: "ipv6HeaderChain \<Rightarrow> byte list \<Rightarrow> l4_header" where
  "chain_l4 chain raw =
     (if L4Offset chain < 0 then l4_none (L4Proto chain) False
      else l4_spec (L4Proto chain) (drop (nat (L4Offset chain)) raw))"

lemma write_none:
  "l4_blank i \<Longrightarrow> i\<lparr>Protocol := protocolName proto\<rparr> = l4_write i (l4_none proto False)"
  "set_incomplete (l4_write i (l4_none proto False)) = l4_write i (l4_none proto True)"
  by (cases i; cases "Fragment i"; simp add: l4_write_def l4_none_def l4_blank_fields set_incomplete_def)+

lemma parseIPv4_refines:
  assumes "gp LayerTypeIPv4 raw = Some p" "layer_IPv4 p = Layer ip" "20 \<le> length raw"
  shows "parseIPv4Packet gp raw =
    Parsed (l4_write (blank_info (extractMAC p) (ip4_SrcIP ip) (ip4_DstIP ip) (length (packet_Data p)) (ipv4_frag ip) [])
      (ipv4_l4 ip raw))"
proof -
  have "unat (ip4_IHL ip) * 4 < ipv4HeaderLen \<longleftrightarrow> ip4_IHL ip < 5"
    by (simp add: header_lens word_less_nat_alt)
  with assms show ?thesis
    using populate_refines [of _ raw "unat (ip4_IHL ip) * 4" "ip4_Protocol ip"]
    by (simp add: parseIPv4Packet_def ipv4_l4_def Let_def write_none ipv4_frag_def)
qed

lemma parseIPv6_refines:
  assumes "gp LayerTypeIPv6 raw = Some p" "layer_IPv6 p = Layer ip" "40 \<le> length raw"
    and chain: "walkIPv6HeaderChain raw (ip6_NextHeader ip) = Some chain"
  shows "parseIPv6Packet gp raw =
    Parsed (l4_write (blank_info (extractMAC p) (ip6_SrcIP ip) (ip6_DstIP ip) (length (packet_Data p))
       (ChainFragment chain) (ExtHeaders chain)) (chain_l4 chain raw))"
proof -
  have "\<not> L4Incomplete (ChainFragment chain)" and off: "L4Offset chain = - 1 \<or> 0 \<le> L4Offset chain"
    using walk_fragment_state [of raw "ip6_NextHeader ip"] walk_bounds [of raw "ip6_NextHeader ip"] chain by auto
  then show ?thesis
    using assms populate_no_header populate_refines [of _ raw "nat (L4Offset chain)" "L4Proto chain"] 
    by (auto simp: parseIPv6Packet_def chain_l4_def)
qed

lemma gopacket_contract_v4:
  assumes "gopacket_contract gp" "20 \<le> length raw"
  obtains p where "gp LayerTypeIPv4 raw = Some p" "layer_IPv4 p = Layer (ipv4_wire raw)" "packet_Data p = raw"
  using assms by (auto simp: gopacket_contract_def)

lemma gopacket_contract_v6:
  assumes "gopacket_contract gp" "40 \<le> length raw"
  obtains p where "gp LayerTypeIPv6 raw = Some p" "layer_IPv6 p = Layer (ipv6_wire raw)" "packet_Data p = raw"
  using assms by (auto simp: gopacket_contract_def)

lemma ParsePacket_v4 [simp]:
  "0 < length raw \<Longrightarrow> drop_bit 4 (raw ! 0) = 4 \<Longrightarrow> ParsePacket gp raw = parseIPv4Packet gp raw"
  by (cases raw) (simp_all add: ParsePacket_def)

lemma ParsePacket_v6 [simp]:
  "0 < length raw \<Longrightarrow> drop_bit 4 (raw ! 0) = 6 \<Longrightarrow> ParsePacket gp raw = parseIPv6Packet gp raw"
  by (cases raw) (simp_all add: ParsePacket_def)

text \<open>The parse of an IPv4 packet under the contract, in full.\<close>

lemma ParsePacket_v4_wire:
  assumes "gopacket_contract gp" "20 \<le> length raw" "drop_bit 4 (raw ! 0) = 4"
  obtains macs where "ParsePacket gp raw =
    Parsed (l4_write (blank_info macs (take 4 (drop 12 raw)) (take 4 (drop 16 raw)) (length raw) (ipv4_frag (ipv4_wire raw)) [])
      (ipv4_l4 (ipv4_wire raw) raw))"
proof -
  from assms(1,2) obtain p where p: "gp LayerTypeIPv4 raw = Some p" "layer_IPv4 p = Layer (ipv4_wire raw)" "packet_Data p = raw"
    by (rule gopacket_contract_v4)
  have "0 < length raw" using assms(2) by linarith
  with parseIPv4_refines [of gp, OF p(1,2) assms(2)] assms(3) p(3) show ?thesis
    by (intro that [of "extractMAC p"]) (simp add: ipv4_wire_def)
qed

lemma ParsePacket_v6_wire:
  assumes "gopacket_contract gp" "40 \<le> length raw" "drop_bit 4 (raw ! 0) = 6"
    and "walkIPv6HeaderChain raw (raw ! 6) = Some chain"
  obtains macs where "ParsePacket gp raw =
    Parsed (l4_write (blank_info macs (take 16 (drop 8 raw)) (take 16 (drop 24 raw)) (length raw)
      (ChainFragment chain) (ExtHeaders chain)) (chain_l4 chain raw))"
proof -
  from assms(1,2) obtain p where p: "gp LayerTypeIPv6 raw = Some p" "layer_IPv6 p = Layer (ipv6_wire raw)" "packet_Data p = raw"
    by (rule gopacket_contract_v6)
  have "0 < length raw" using assms(2) by linarith
  moreover have "walkIPv6HeaderChain raw (ip6_NextHeader (ipv6_wire raw)) = Some chain"
    using assms(4) by (simp add: ipv6_wire_def)
  ultimately show ?thesis
    using parseIPv6_refines [of gp, OF p(1,2) assms(2)] assms(3) p(3)
    by (intro that [of "extractMAC p"]) (simp add: ipv6_wire_def)
qed

text \<open>An IPv6 packet built from a header chain and a payload.\<close>

lemma ParsePacket_chain:
  assumes "gopacket_contract gp" "length fixed = 40" "drop_bit 4 (fixed ! 0) = 6"
    and "fixed ! 6 = chain_first hs proto" "list_all ext_ok hs" "extHeaderTypes proto = None"
  obtains macs where "ParsePacket gp (fixed @ chain_bytes hs proto @ payload) =
    Parsed (l4_write (blank_info macs (take 16 (drop 8 fixed)) (take 16 (drop 24 fixed))
      (40 + length (chain_bytes hs proto) + length payload) (chain_frag no_fragment hs) (map ext_name hs))
      (if payload = [] then l4_none proto False else l4_spec proto payload))"
proof -
  let ?raw = "fixed @ chain_bytes hs proto @ payload"
  define n where "n = 40 + length (chain_bytes hs proto)"
  let ?chain = "\<lparr>L4Proto = proto, L4Offset = (if payload = [] then - 1 else int n),
          ExtHeaders = map ext_name hs, ChainFragment = chain_frag no_fragment hs\<rparr>"
  have walk: "walkIPv6HeaderChain ?raw (?raw ! 6) = Some ?chain"
    using walk_chain [OF assms(5,6), of fixed payload "[]" no_fragment] assms(2,4)
    by (simp add: walkIPv6HeaderChain_def nth_append header_lens n_def)
  have raw: "40 \<le> length ?raw" "drop_bit 4 (?raw ! 0) = 6"
    using assms(2,3) by (simp_all add: nth_append)
  obtain macs where macs: "ParsePacket gp ?raw =
      Parsed (l4_write (blank_info macs (take 16 (drop 8 ?raw)) (take 16 (drop 24 ?raw)) (length ?raw)
        (chain_frag no_fragment hs) (map ext_name hs)) (chain_l4 ?chain ?raw))"
    using ParsePacket_v6_wire [OF assms(1) raw walk] by auto
  have "drop n ?raw = payload"
    using assms(2) by (simp add: n_def)
  then have "chain_l4 ?chain ?raw = (if payload = [] then l4_none proto False else l4_spec proto payload)"
    by (simp add: chain_l4_def del: drop_append)
  moreover have "take 16 (drop 8 ?raw) = take 16 (drop 8 fixed)" "take 16 (drop 24 ?raw) = take 16 (drop 24 fixed)"
    "length ?raw = 40 + length (chain_bytes hs proto) + length payload"
    using assms(2) by simp_all
  ultimately show ?thesis by (intro that [of macs]) (simp only: macs)
qed

text \<open>
  C9. Extension headers cannot hide the transport header: whatever chain of Hop-by-Hop,
  Routing, Destination Options and first-fragment headers precedes a non-empty payload, the
  parser reports the protocol, ports, flags and ICMP fields that the payload itself holds,
  the names of the headers in order, the addresses and the size of the whole packet.
\<close>

theorem extension_headers_transparent:
  assumes "gopacket_contract gp" "length fixed = 40" "drop_bit 4 (fixed ! 0) = 6"
    and "fixed ! 6 = chain_first hs proto" "list_all ext_ok hs" "extHeaderTypes proto = None"
    and "payload \<noteq> []"
  shows "\<exists>info. ParsePacket gp (fixed @ chain_bytes hs proto @ payload) = Parsed info \<and>
           l4_view info = l4_spec proto payload \<and>
           IPv6ExtHeaders info = map ext_name hs \<and>
           SrcIP info = IP_String (take 16 (drop 8 fixed)) \<and>
           DstIP info = IP_String (take 16 (drop 24 fixed)) \<and>
           PacketSize info = int (40 + length (chain_bytes hs proto) + length payload)"
  by (rule ParsePacket_chain [OF assms(1-6), of payload]) (use assms(7) in \<open>simp add: blank_info_def\<close>)

text \<open>
  C19. The two address families judge a segment alike: the same protocol and payload in an IPv4
  packet (any options, fragment offset zero, More Fragments set or not) and behind any IPv6 header
  chain give the same transport view, with one exception: a packet that ends with its IP headers
  (an empty payload) is marked incomplete over IPv4 when its protocol is TCP, UDP or ICMP, and
  never over IPv6.
\<close>

theorem address_families_agree:
  assumes "gopacket_contract gp"
    and "length fixed = 40" "drop_bit 4 (fixed ! 0) = 6"
    and "fixed ! 6 = chain_first hs proto" "list_all ext_ok hs" "extHeaderTypes proto = None"
    and "length head4 = unat (head4 ! 0 AND 0xF) * 4" "20 \<le> length head4" "drop_bit 4 (head4 ! 0) = 4"
    and "head4 ! 9 = proto" "be16 (head4 ! 6) (head4 ! 7) AND 0x1FFF = 0"
  shows "\<exists>info4 info6. ParsePacket gp (head4 @ payload) = Parsed info4 \<and>
           ParsePacket gp (fixed @ chain_bytes hs proto @ payload) = Parsed info6 \<and>
           l4_view info4 = (l4_view info6)\<lparr>h_incomplete :=
             h_incomplete (l4_view info6) \<or> payload = [] \<and> proto \<in> {6, 17, 1, 58}\<rparr> \<and>
           (payload = [] \<longrightarrow> \<not> h_incomplete (l4_view info6))"
proof -
  let ?raw = "head4 @ payload"
  have nth: "?raw ! i = head4 ! i" if "i < 20" for i
    using that assms(8) by (simp add: nth_append)
  obtain m6 where m6: "ParsePacket gp (fixed @ chain_bytes hs proto @ payload) =
    Parsed (l4_write (blank_info m6 (take 16 (drop 8 fixed)) (take 16 (drop 24 fixed))
      (40 + length (chain_bytes hs proto) + length payload) (chain_frag no_fragment hs) (map ext_name hs))
      (if payload = [] then l4_none proto False else l4_spec proto payload))"
    by (rule ParsePacket_chain [OF assms(1-6), of payload])
  have raw: "20 \<le> length ?raw" "drop_bit 4 (?raw ! 0) = 4"
    using assms(8,9) nth [of 0] by simp_all
  have "\<not> head4 ! 0 AND 0xF < 5"
    using assms(7,8) by (simp add: word_less_nat_alt)
  then have "ipv4_l4 (ipv4_wire ?raw) ?raw = l4_spec proto payload"
    using assms(7,10,11) nth [of 0] nth [of 6] nth [of 7] nth [of 9] 
    by (simp add: ipv4_l4_def ipv4_wire_def flip: assms(7))
  moreover obtain m4 where m4: "ParsePacket gp ?raw =
    Parsed (l4_write (blank_info m4 (take 4 (drop 12 ?raw)) (take 4 (drop 16 ?raw)) (length ?raw) (ipv4_frag (ipv4_wire ?raw)) [])
      (ipv4_l4 (ipv4_wire ?raw) ?raw))"
    by (rule ParsePacket_v4_wire [OF assms(1) raw])
  ultimately show ?thesis
    by - (intro exI conjI, rule m4, rule m6, simp_all add: l4_none_def)
qed

lemma l4_spec_cases:
  obtains (tcp) "proto = 6" "h_type (l4_spec proto p) = None" "h_code (l4_spec proto p) = None"
      "\<not> h_incomplete (l4_spec proto p)"
  | (udp) "proto = 17" "h_flags (l4_spec proto p) = no_flags" "h_type (l4_spec proto p) = None" "h_code (l4_spec proto p) = None"
      "\<not> h_incomplete (l4_spec proto p)"
  | (icmp) b0 b1 where "proto = 1 \<or> proto = 58" "h_flags (l4_spec proto p) = no_flags"
      "h_src (l4_spec proto p) = 0" "h_dst (l4_spec proto p) = 0"
      "h_type (l4_spec proto p) = Some b0" "h_code (l4_spec proto p) = Some b1"
      "\<not> h_incomplete (l4_spec proto p)"
  | (none) inc where "l4_spec proto p = l4_none proto inc"
  by (cases "(proto, p)" rule: l4_spec.cases) (fastforce simp: l4_none_def split: if_splits)+

lemma l4_spec_name [simp]: "h_name (l4_spec proto p) = protocolName proto"
  by (cases "(proto, p)" rule: l4_spec.cases) (auto simp: l4_none_def)

text \<open>The shape of every transport view the parser can report.\<close>

definition l4_honest :: "l4_header \<Rightarrow> bool" where
  "l4_honest h \<longleftrightarrow>
     (h_src h \<noteq> 0 \<or> h_dst h \<noteq> 0 \<longrightarrow> h_name h = ''TCP'' \<or> h_name h = ''UDP'') \<and>
     (h_flags h \<noteq> no_flags \<longrightarrow> h_name h = ''TCP'') \<and>
     (h_type h \<noteq> None \<longrightarrow> h_name h = ''ICMP'' \<or> h_name h = ''ICMPv6'') \<and>
     (h_type h = None \<longleftrightarrow> h_code h = None) \<and>
     (h_incomplete h \<longrightarrow> h_src h = 0 \<and> h_dst h = 0 \<and> h_flags h = no_flags \<and> h_type h = None)"

lemma l4_none_honest [simp]: "l4_honest (l4_none proto inc)"
  by (simp add: l4_honest_def l4_none_def)

lemma l4_spec_honest [simp]: "l4_honest (l4_spec proto p)"
  by (cases rule: l4_spec_cases [where proto = proto and p = p]) (auto simp: l4_honest_def protocolName_def l4_none_def)

lemma parsed_shape:
  assumes "ParsePacket gp raw = Parsed info"
  obtains b h where "info = l4_write b h" "l4_honest h"
    "0 < Offset (Fragment b) \<Longrightarrow> (\<exists>proto. h = l4_none proto False)"
proof -
  consider (v4) "parseIPv4Packet gp raw = Parsed info" | (v6) "parseIPv6Packet gp raw = Parsed info"
    using assms by (auto simp: ParsePacket_def Let_def split: if_splits option.splits)
  then show ?thesis
  proof cases
    case v4
    then obtain p ip where p: "gp LayerTypeIPv4 raw = Some p" "layer_IPv4 p = Layer ip" "20 \<le> length raw"
      by (auto simp: parseIPv4Packet_def split: if_splits option.splits layer.splits)
    have "0 < ip4_FragOffset ip" if "0 < uint (ip4_FragOffset ip)"
      using that by (simp add: word_less_def)
    with v4 parseIPv4_refines [of gp, OF p] show ?thesis
      by (intro that [of "blank_info (extractMAC p) (ip4_SrcIP ip) (ip4_DstIP ip) (length (packet_Data p)) (ipv4_frag ip) []" "ipv4_l4 ip raw"])
        (auto simp: ipv4_l4_def blank_info_def ipv4_frag_def word_less_def)
  next
    case v6
    then obtain p ip chain where p: "gp LayerTypeIPv6 raw = Some p" "layer_IPv6 p = Layer ip" "40 \<le> length raw"
      and chain: "walkIPv6HeaderChain raw (ip6_NextHeader ip) = Some chain"
      by (auto simp: parseIPv6Packet_def split: if_splits option.splits layer.splits)
    have "0 < Offset (ChainFragment chain) \<Longrightarrow> L4Offset chain = - 1"
      using walk_fragment_state [of raw "ip6_NextHeader ip"] chain by auto
    with v6 parseIPv6_refines [of gp, OF p chain] show ?thesis
      by (intro that [of "blank_info (extractMAC p) (ip6_SrcIP ip) (ip6_DstIP ip) (length (packet_Data p)) (ChainFragment chain) (ExtHeaders chain)" "chain_l4 chain raw"])
        (auto simp: chain_l4_def blank_info_def)
  qed
qed

text \<open>
  C26. The parser invents no evidence, whatever gopacket returns: ports are reported for TCP and
  UDP only, flags for TCP only, type and code for ICMP only and together; a continuation
  fragment is never marked incomplete; an incomplete header or a continuation fragment
  reports no port, no flag and no ICMP type.
\<close>

theorem parser_reports_no_invented_fields:
  assumes "ParsePacket gp raw = Parsed info"
  shows "(SrcPort info \<noteq> 0 \<or> DstPort info \<noteq> 0 \<longrightarrow> Protocol info = ''TCP'' \<or> Protocol info = ''UDP'') \<and>
    (Flags info \<noteq> no_flags \<longrightarrow> Protocol info = ''TCP'') \<and>
    (ICMPType info \<noteq> None \<longrightarrow> Protocol info = ''ICMP'' \<or> Protocol info = ''ICMPv6'') \<and>
    (ICMPType info = None \<longleftrightarrow> ICMPCode info = None) \<and>
    (0 < Offset (Fragment info) \<longrightarrow> \<not> L4Incomplete (Fragment info)) \<and>
    (L4Incomplete (Fragment info) \<or> 0 < Offset (Fragment info) \<longrightarrow>
       SrcPort info = 0 \<and> DstPort info = 0 \<and> Flags info = no_flags \<and> ICMPType info = None)"
proof -
  obtain b h where i: "info = l4_write b h" and h: "l4_honest h"
    and frag: "0 < Offset (Fragment b) \<Longrightarrow> \<exists>proto. h = l4_none proto False"
    using parsed_shape [OF assms] by metis
  have "h_src h = 0 \<and> h_dst h = 0 \<and> h_flags h = no_flags \<and> h_type h = None \<and> \<not> h_incomplete h"
    if "0 < Offset (Fragment b)"
    using frag [OF that] by (auto simp: l4_none_def)
  with h show ?thesis
    unfolding i l4_honest_def by (auto simp: l4_write_def)
qed

lemma populate_total: "populateL4FromBytes info raw off proto \<noteq> None"
  by (simp add: populateL4FromBytes_def Let_def header_lens)

lemma parseIPv4_total: "parseIPv4Packet gp raw \<noteq> Panicked"
  by (simp add: parseIPv4Packet_def Let_def populate_total split: option.split layer.split)

lemma parseIPv6_total: "parseIPv6Packet gp raw \<noteq> Panicked"
proof -
  have "walkIPv6HeaderChain raw first = None \<longleftrightarrow> False" for first
    using walk_total [of raw first] by auto
  then show ?thesis
    by (simp add: parseIPv6Packet_def populate_total split: option.split layer.split del: not_None_eq)
qed

lemma ParsePacket_total: "ParsePacket gp raw \<noteq> Panicked"
  by (simp add: ParsePacket_def Let_def parseIPv4_total parseIPv6_total)

text \<open>
  C20. \<open>ParsePacket\<close> never panics: on every byte string and for every behaviour of gopacket, each
  slice and index expression of the parser is in range.
\<close>

theorem ParsePacket_never_panics: "ParsePacket gp raw \<noteq> Panicked"
  by (rule ParsePacket_total)

text \<open>
  C27. The parser rejects exactly the empty packet, the packets whose version nibble is neither 4
  nor 6, and the packets shorter than the fixed header of their version, each with its own
  error; every other packet is parsed.
\<close>

theorem ParsePacket_error_iff:
  assumes "gopacket_contract gp"
  shows "ParsePacket gp raw = ParseError e \<longleftrightarrow>
    (raw = [] \<and> e = PacketTooShort 0 \<or>
     raw \<noteq> [] \<and> drop_bit 4 (hd raw) = 4 \<and> length raw < 20 \<and> e = IPv4TooShort (length raw) \<or>
     raw \<noteq> [] \<and> drop_bit 4 (hd raw) = 6 \<and> length raw < 40 \<and> e = IPv6TooShort (length raw) \<or>
     raw \<noteq> [] \<and> drop_bit 4 (hd raw) \<notin> {4, 6} \<and> e = UnsupportedVersion (unat (drop_bit 4 (hd raw))))"
proof -
  have v4: "parseIPv4Packet gp raw \<noteq> ParseError e" if "20 \<le> length raw"
    using gopacket_contract_v4 [OF assms that] parseIPv4_refines [of gp, OF _ _ that] by (metis parse_result.distinct(1))
  have v6: "parseIPv6Packet gp raw \<noteq> ParseError e" if "40 \<le> length raw"
    using gopacket_contract_v6 [OF assms that] parseIPv6_refines [of gp, OF _ _ that] walk_total by (metis parse_result.distinct(1))
  have "ParsePacket gp raw = (if raw = [] then ParseError (PacketTooShort 0)
     else if drop_bit 4 (hd raw) = 4 then parseIPv4Packet gp raw
     else if drop_bit 4 (hd raw) = 6 then parseIPv6Packet gp raw
     else ParseError (UnsupportedVersion (unat (drop_bit 4 (hd raw)))))"
    by (cases raw) (simp_all add: ParsePacket_def Let_def)
  moreover have "parseIPv4Packet gp raw = ParseError (IPv4TooShort (length raw))" if "length raw < 20"
    using that by (simp add: parseIPv4Packet_def)
  moreover have "parseIPv6Packet gp raw = ParseError (IPv6TooShort (length raw))" if "length raw < 40"
    using that by (simp add: parseIPv6Packet_def)
  ultimately show ?thesis using v4 v6 by (cases "length raw < 20"; cases "length raw < 40") auto
qed

text \<open>
  With no payload at all the two families differ: an IPv4 packet or first fragment that ends
  with its IP header is marked incomplete, an IPv6 one that ends with its header chain is
  not, although neither carries the transport header it must carry.
\<close>

theorem empty_first_fragment_differs:
  assumes "gopacket_contract gp"
    and "length fixed = 40" "drop_bit 4 (fixed ! 0) = 6"
    and "fixed ! 6 = chain_first hs proto" "list_all ext_ok hs" "proto \<in> {6, 17, 1, 58}"
    and "length head4 = unat (head4 ! 0 AND 0xF) * 4" "20 \<le> length head4" "drop_bit 4 (head4 ! 0) = 4"
    and "head4 ! 9 = proto" "be16 (head4 ! 6) (head4 ! 7) AND 0x1FFF = 0"
  shows "\<exists>info4 info6. ParsePacket gp head4 = Parsed info4 \<and> L4Incomplete (Fragment info4) \<and>
           ParsePacket gp (fixed @ chain_bytes hs proto) = Parsed info6 \<and> \<not> L4Incomplete (Fragment info6)"
proof -
  have proto: "extHeaderTypes proto = None" using assms(6) by (auto simp: extHeaderTypes_def)
  obtain m6 where m6: "ParsePacket gp (fixed @ chain_bytes hs proto @ []) =
    Parsed (l4_write (blank_info m6 (take 16 (drop 8 fixed)) (take 16 (drop 24 fixed))
      (40 + length (chain_bytes hs proto) + length ([] :: byte list)) (chain_frag no_fragment hs) (map ext_name hs))
      (if [] = ([] :: byte list) then l4_none proto False else l4_spec proto []))"
    by (rule ParsePacket_chain [OF assms(1-5) proto])
  obtain m4 where m4: "ParsePacket gp head4 =
    Parsed (l4_write (blank_info m4 (take 4 (drop 12 head4)) (take 4 (drop 16 head4)) (length head4) (ipv4_frag (ipv4_wire head4)) [])
      (ipv4_l4 (ipv4_wire head4) head4))"
    by (rule ParsePacket_v4_wire [OF assms(1,8,9)])
  have "\<not> head4 ! 0 AND 0xF < 5"
    using assms(7,8) by (simp add: word_less_nat_alt)
  then have "h_incomplete (ipv4_l4 (ipv4_wire head4) head4)"
    using assms(6,7,10,11) by (simp add: ipv4_l4_def ipv4_wire_def l4_none_def flip: assms(7))
  then show ?thesis
    using m4 m6 by (simp add: l4_write_def l4_none_def)
qed

text \<open>The protocol name identifies the protocol number.\<close>

lemma protocolName_inj: "protocolName a = protocolName b \<longleftrightarrow> a = b"
  by (auto simp: protocolName_def split: if_splits dest!: dec_inj intro: unsigned_word_eqI)

section \<open>Sample packets\<close>

text \<open>A TCP SYN to port 22 behind a Hop-by-Hop and a first-fragment header, and the same segment in an IPv4 packet.\<close>

definition sample_fixed6 :: "byte list" where
  "sample_fixed6 = [0x60, 0, 0, 0, 0, 36, 0, 64] @ replicate 15 0 @ [1] @ replicate 15 0 @ [2]"

definition sample_chain :: "ext_header list" where
  "sample_chain = [OptionsHeader 0 0 [1, 4, 0, 0, 0, 0], FirstFragment 0 1 [0, 0, 0, 7]]"

definition sample_tcp :: "byte list" where
  "sample_tcp = [0x9C, 0x40, 0, 22, 0, 0, 0, 1, 0, 0, 0, 0, 0x50, 2, 255, 255, 0, 0, 0, 0]"

definition sample_head4 :: "byte list" where
  "sample_head4 = [0x45, 0, 0, 40, 0, 1, 0, 0, 64, 6, 0, 0, 10, 0, 0, 1, 10, 0, 0, 2]"

lemma sample6:
  "length sample_fixed6 = 40" "drop_bit 4 (sample_fixed6 ! 0) = 6" "sample_fixed6 ! 6 = chain_first sample_chain 6"
  "list_all ext_ok sample_chain" "extHeaderTypes 6 = None" "sample_tcp \<noteq> []"
  by (simp_all add: sample_fixed6_def sample_chain_def sample_tcp_def extHeaderTypes_def)

lemma sample4:
  "length sample_head4 = unat (sample_head4 ! 0 AND 0xF) * 4" "20 \<le> length sample_head4" "drop_bit 4 (sample_head4 ! 0) = 4"
  "sample_head4 ! 9 = 6" "be16 (sample_head4 ! 6) (sample_head4 ! 7) AND 0x1FFF = 0"
  by (simp_all add: sample_head4_def be16_def)

theorem extension_headers_transparent_witness:
  "\<exists>info. ParsePacket gp_wire (sample_fixed6 @ chain_bytes sample_chain 6 @ sample_tcp) = Parsed info \<and>
     Protocol info = ''TCP'' \<and> DstPort info = 22 \<and> SYN (Flags info) \<and>
     IPv6ExtHeaders info = [''HopByHop'', ''Fragment'']"
proof -
  have "l4_spec 6 sample_tcp = \<lparr>h_name = ''TCP'', h_src = 40000, h_dst = 22,
      h_flags = \<lparr>SYN = True, ACK = False, RST = False, FIN = False\<rparr>, h_type = None, h_code = None, h_incomplete = False\<rparr>"
    by (simp add: sample_tcp_def l4_none_def protocolName_def be16_def tcp_flags_def)
  moreover have "map ext_name sample_chain = [''HopByHop'', ''Fragment'']"
    by (simp add: sample_chain_def ext_name_def extHeaderTypes_def)
  ultimately show ?thesis
    using extension_headers_transparent [OF gp_wire_contract sample6] by (auto simp: l4_view_def)
qed

theorem address_families_agree_witness:
  "\<exists>info4 info6. ParsePacket gp_wire (sample_head4 @ sample_tcp) = Parsed info4 \<and>
     ParsePacket gp_wire (sample_fixed6 @ chain_bytes sample_chain 6 @ sample_tcp) = Parsed info6 \<and>
     l4_view info4 = l4_view info6"
  proof -
  obtain info4 info6 where "ParsePacket gp_wire (sample_head4 @ sample_tcp) = Parsed info4"
      "ParsePacket gp_wire (sample_fixed6 @ chain_bytes sample_chain 6 @ sample_tcp) = Parsed info6"
      "l4_view info4 = (l4_view info6)\<lparr>h_incomplete := h_incomplete (l4_view info6)\<rparr>"
    using address_families_agree [OF gp_wire_contract sample6(1-5) sample4, of sample_tcp] sample6(6) by auto
  then show ?thesis by auto
qed

theorem parser_reports_no_invented_fields_witness:
  "\<exists>info. ParsePacket gp_wire sample_head4 = Parsed info \<and> L4Incomplete (Fragment info) \<and> SrcPort info = 0 \<and> DstPort info = 0"
proof -
  obtain m4 where m4: "ParsePacket gp_wire sample_head4 =
    Parsed (l4_write (blank_info m4 (take 4 (drop 12 sample_head4)) (take 4 (drop 16 sample_head4)) (length sample_head4)
      (ipv4_frag (ipv4_wire sample_head4)) []) (ipv4_l4 (ipv4_wire sample_head4) sample_head4))" (is "_ = Parsed ?info")
    by (rule ParsePacket_v4_wire [OF gp_wire_contract sample4(2,3)])
  have "ipv4_l4 (ipv4_wire sample_head4) sample_head4 = l4_none 6 True"
    by (simp add: ipv4_l4_def ipv4_wire_def sample_head4_def be16_def)
  then have "L4Incomplete (Fragment ?info)"
    by (simp add: l4_write_def l4_none_def)
  with parser_reports_no_invented_fields [OF m4] m4 show ?thesis by blast
qed

theorem ParsePacket_error_iff_witness:
  "ParsePacket gp_wire [0x45, 0] = ParseError (IPv4TooShort 2)"
  using ParsePacket_error_iff [OF gp_wire_contract, of "[0x45, 0]" "IPv4TooShort 2"] by simp

theorem empty_first_fragment_differs_witness:
  "\<exists>info4 info6. ParsePacket gp_wire sample_head4 = Parsed info4 \<and> L4Incomplete (Fragment info4) \<and>
     ParsePacket gp_wire (sample_fixed6 @ chain_bytes sample_chain 6) = Parsed info6 \<and> \<not> L4Incomplete (Fragment info6)"
  by (rule empty_first_fragment_differs [OF gp_wire_contract sample6(1-4) _ sample4]) simp

end
