(* ===== verification/GoFloat.thy ===== *)
theory GoFloat
  imports Prelude Complex_Main "HOL-Library.Log_Nat"
begin

text \<open>
  Go's \<open>float64\<close> as the rational it denotes. Every arithmetic operation of the source is
  the exact rational operation followed by \<open>fl\<close>, the IEEE 754 rounding to nearest with
  ties to even at 53 bits, subnormal numbers included. Infinities and NaN are not values
  of the model: each operation that uses \<open>fl\<close> has a bound lemma that keeps it far below
  the overflow threshold.
\<close>

type_synonym float64 = rat

definition round_half_even :: "rat \<Rightarrow> int" where
  "round_half_even y =
     (let n = \<lfloor>y\<rfloor>; r = y - of_int n
      in if r < 1 / 2 \<or> r = 1 / 2 \<and> even n then n else n + 1)"

definition ilog2 :: "rat \<Rightarrow> int" where
  "ilog2 x = (case quotient_of x of (n, d) \<Rightarrow>
     (let e = bitlen n - bitlen d in if 2 powi e \<le> x then e else e - 1))"

definition ulp_exp :: "rat \<Rightarrow> int" where
  "ulp_exp x = max (ilog2 \<bar>x\<bar> - 52) (- 1074)"

definition fl :: "rat \<Rightarrow> float64" where
  "fl x = (if x = 0 then 0
           else of_int (round_half_even (x / 2 powi ulp_exp x)) * 2 powi ulp_exp x)"

section \<open>Rounding to an integer\<close>

lemma round_half_even_int [simp]: "round_half_even (of_int n) = n"
  by (simp add: round_half_even_def)

lemma round_half_even_error: "\<bar>of_int (round_half_even y) - y\<bar> \<le> 1 / 2"
proof -
  have "of_int \<lfloor>y\<rfloor> \<le> y" "y < of_int \<lfloor>y\<rfloor> + 1" by linarith+
  then show ?thesis by (auto simp: round_half_even_def Let_def abs_le_iff field_simps)
qed

lemma round_half_even_mono:
  assumes "x \<le> y"
  shows "round_half_even x \<le> round_half_even y"
proof (cases "\<lfloor>x\<rfloor> = \<lfloor>y\<rfloor>")
  case True
  with assms show ?thesis by (auto simp: round_half_even_def Let_def)
next
  case False
  with floor_mono [OF assms] have "\<lfloor>x\<rfloor> + 1 \<le> \<lfloor>y\<rfloor>" by linarith
  then show ?thesis by (auto simp: round_half_even_def Let_def)
qed

section \<open>The binary exponent\<close>

lemma powi_2_pos [simp]: "0 < (2 :: rat) powi e"
  by simp

lemma powi_2_mono: "a \<le> b \<Longrightarrow> (2 :: rat) powi a \<le> 2 powi b"
  by (rule power_int_increasing) auto

lemma powi_2_less_iff: "(2 :: rat) powi a < 2 powi b \<longleftrightarrow> a < b"
  using powi_2_mono [of b a] power_int_strict_increasing [of a b "2 :: rat"] by force

lemma ilog2_bounds:
  assumes "0 < x"
  shows "2 powi ilog2 x \<le> x" "x < 2 powi (ilog2 x + 1)"
proof -
  obtain n d where q: "quotient_of x = (n, d)" by (cases "quotient_of x")
  then have x: "x = of_int n / of_int d" and d: "0 < d"
    using quotient_of_div quotient_of_denom_pos by blast+
  with assms have n: "0 < n" by (simp add: zero_less_divide_iff)
  have *: "(2 :: rat) powi (bitlen k - 1) \<le> of_int k" "of_int k < (2 :: rat) powi bitlen k" if k: "0 < k" for k :: int
  proof -
    have "1 \<le> bitlen k" using k bitlen_nonneg [of k] bitlen_eq_zero_iff [of k] by linarith
    then have "(2 :: rat) powi (bitlen k - 1) = of_int (2 ^ nat (bitlen k - 1))"
      "(2 :: rat) powi bitlen k = of_int (2 ^ nat (bitlen k))"
      by (simp_all add: power_int_def)
    with bitlen_bounds [OF k]
    show "(2 :: rat) powi (bitlen k - 1) \<le> of_int k" "of_int k < (2 :: rat) powi bitlen k"
      by (simp_all only: of_int_le_iff of_int_less_iff)
  qed
  define e where "e = bitlen n - bitlen d"
  have "x < 2 powi bitlen n / 2 powi (bitlen d - 1)"
    unfolding x using * [OF n] * [OF d] n d by (intro frac_less) auto
  also have "\<dots> = 2 powi (e + 1)"
    by (simp add: e_def algebra_simps flip: power_int_diff)
  finally have hi: "x < 2 powi (e + 1)" .
  have "2 powi (bitlen n - 1) / 2 powi bitlen d \<le> x"
    unfolding x using * [OF n] * [OF d] n d by (intro frac_le) auto
  moreover have "(2 :: rat) powi (bitlen n - 1) / 2 powi bitlen d = 2 powi (e - 1)"
    by (simp add: e_def algebra_simps flip: power_int_diff)
  ultimately have lo: "2 powi (e - 1) \<le> x" by simp
  show "2 powi ilog2 x \<le> x" "x < 2 powi (ilog2 x + 1)"
    using hi lo by (auto simp: ilog2_def q Let_def e_def [symmetric])
qed

lemma ilog2_unique:
  assumes "2 powi e \<le> x" "x < 2 powi (e + 1)"
  shows "ilog2 x = e"
proof -
  have "0 < x" using assms(1) powi_2_pos [of e] by linarith
  note b = ilog2_bounds [OF this]
  have "(2 :: rat) powi ilog2 x < 2 powi (e + 1)" "(2 :: rat) powi e < 2 powi (ilog2 x + 1)"
    using b assms by linarith+
  then have "ilog2 x < e + 1" "e < ilog2 x + 1"
    by (simp_all add: powi_2_less_iff)
  then show ?thesis by simp
qed

lemma ilog2_mono:
  assumes "0 < x" "x \<le> y"
  shows "ilog2 x \<le> ilog2 y"
proof -
  have "0 < y" using assms by linarith
  then have "2 powi ilog2 x < (2 :: rat) powi (ilog2 y + 1)"
    using ilog2_bounds [OF assms(1)] ilog2_bounds [of y] assms(2) by linarith
  then have "ilog2 x < ilog2 y + 1" by (simp add: powi_2_less_iff)
  then show ?thesis by simp
qed


lemma le_ilog2:
  assumes "2 powi k \<le> x"
  shows "0 < x" "k \<le> ilog2 x"
proof -
  show "0 < x" using assms powi_2_pos [of k] by linarith
  then have "(2 :: rat) powi k < 2 powi (ilog2 x + 1)"
    using assms ilog2_bounds [of x] by linarith
  then show "k \<le> ilog2 x" by (simp add: powi_2_less_iff)
qed

section \<open>Rounding to float64\<close>

lemma fl_0 [simp]: "fl 0 = 0"
  by (simp add: fl_def)

lemma fl_error: "\<bar>fl x - x\<bar> \<le> 2 powi ulp_exp x / 2"
proof (cases "x = 0")
  case False
  let ?q = "2 powi ulp_exp x :: rat"
  have "fl x - x = (of_int (round_half_even (x / ?q)) - x / ?q) * ?q"
    using False by (simp add: fl_def left_diff_distrib)
  then have "\<bar>fl x - x\<bar> = \<bar>of_int (round_half_even (x / ?q)) - x / ?q\<bar> * ?q"
    by (simp add: abs_mult)
  also have "\<dots> \<le> 1 / 2 * ?q"
    by (intro mult_right_mono round_half_even_error) simp
  finally show ?thesis by simp
qed simp

text \<open>In the normal range the error is at most half a unit in the 53rd place.\<close>

lemma fl_rel_error:
  assumes "2 powi k \<le> x" "- 1022 \<le> k"
  shows "\<bar>fl x - x\<bar> \<le> x * 2 powi (- 53)"
proof -
  note x = le_ilog2 [OF assms(1)]
  then have "ulp_exp x = ilog2 x - 52" using assms(2) by (simp add: ulp_exp_def)
  moreover have "(2 :: rat) powi (n - 52) / 2 = 2 powi n * 2 powi (- 53)" for n
    by (simp add: power_int_diff power_int_minus power_int_numeral)
  ultimately have "2 powi ulp_exp x / 2 = 2 powi ilog2 x * (2 :: rat) powi (- 53)"
    by simp
  also have "\<dots> \<le> x * 2 powi (- 53)"
    by (intro mult_right_mono ilog2_bounds x) simp
  finally show ?thesis using fl_error [of x] by linarith
qed

lemma powi_2_grid: "e \<le> k \<Longrightarrow> (2 :: rat) powi k = of_int (2 ^ nat (k - e)) * 2 powi e"
proof -
  assume "e \<le> k"
  then have "of_int (2 ^ nat (k - e)) = (2 :: rat) powi (k - e)" by (simp add: power_int_def)
  then show ?thesis by (simp flip: power_int_add)
qed

lemma fl_exact:
  assumes "\<bar>m\<bar> < 2 ^ 53" "- 1074 \<le> e"
  shows "fl (of_int m * 2 powi e) = of_int m * 2 powi e"
proof (cases "m = 0")
  case False
  let ?x = "of_int m * 2 powi e :: rat"
  have x: "?x \<noteq> 0" using False by simp
  have "\<bar>?x\<bar> < 2 powi (53 + e)"
  proof -
    have "\<bar>of_int m :: rat\<bar> < 2 powi 53"
      using assms(1) by (simp add: power_int_def)
    then show ?thesis by (simp add: abs_mult power_int_add)
  qed
  moreover have "2 powi ilog2 \<bar>?x\<bar> \<le> \<bar>?x\<bar>" using x by (intro ilog2_bounds) simp
  ultimately have "(2 :: rat) powi ilog2 \<bar>?x\<bar> < 2 powi (53 + e)" by linarith
  then have "ilog2 \<bar>?x\<bar> < 53 + e" by (simp only: powi_2_less_iff)
  then have "ulp_exp ?x \<le> e" using assms(2) by (simp add: ulp_exp_def)
  from powi_2_grid [OF this] have "?x = of_int (m * 2 ^ nat (e - ulp_exp ?x)) * 2 powi ulp_exp ?x"
    by simp
  then have "?x / 2 powi ulp_exp ?x = of_int (m * 2 ^ nat (e - ulp_exp ?x))"
    by (metis nonzero_eq_divide_eq powi_2_pos less_irrefl)
  then have "fl ?x = of_int (m * 2 ^ nat (e - ulp_exp ?x)) * 2 powi ulp_exp ?x"
    using x by (simp only: fl_def round_half_even_int if_False)
  then show ?thesis using \<open>?x = _\<close> by argo
qed simp

lemma fl_of_int: "\<bar>m\<bar> < 2 ^ 53 \<Longrightarrow> fl (of_int m) = of_int m"
  using fl_exact [of m 0] by simp

lemma fl_pow2: "- 1074 \<le> k \<Longrightarrow> fl (2 powi k) = 2 powi k"
  using fl_exact [of 1 k] by simp

lemma fl_le_grid:
  assumes "x \<noteq> 0" "x \<le> of_int m * 2 powi ulp_exp x"
  shows "fl x \<le> of_int m * 2 powi ulp_exp x"
proof -
  have "x / 2 powi ulp_exp x \<le> of_int m" using assms(2) by (simp add: pos_divide_le_eq)
  from round_half_even_mono [OF this] assms(1) show ?thesis by (simp add: fl_def)
qed

lemma fl_ge_grid:
  assumes "x \<noteq> 0" "of_int m * 2 powi ulp_exp x \<le> x"
  shows "of_int m * 2 powi ulp_exp x \<le> fl x"
proof -
  have "of_int m \<le> x / 2 powi ulp_exp x" using assms(2) by (simp add: pos_le_divide_eq)
  from round_half_even_mono [OF this] assms(1) show ?thesis by (simp add: fl_def)
qed

lemma fl_nonneg: "0 \<le> x \<Longrightarrow> 0 \<le> fl x"
  using fl_ge_grid [of x 0] by (cases "x = 0") auto

lemma fl_mono:
  assumes "0 \<le> x" "x \<le> y"
  shows "fl x \<le> fl y"
proof (cases "x = 0")
  case True
  with assms show ?thesis by (simp add: fl_nonneg)
next
  case False
  with assms have x: "0 < x" and y: "0 < y" by linarith+
  from ilog2_mono [OF x assms(2)] have le: "ulp_exp x \<le> ulp_exp y"
    using x y by (simp add: ulp_exp_def)
  show ?thesis
  proof (cases "ulp_exp x = ulp_exp y")
    case True
    have "x / 2 powi ulp_exp y \<le> y / 2 powi ulp_exp y" using assms(2) by (simp add: divide_right_mono)
    from round_half_even_mono [OF this] True x y show ?thesis by (simp add: fl_def)
  next
    case False
    define k where "k = ilog2 y"
    from le False x y have k: "ulp_exp y = k - 52" and less: "ilog2 x < k" "ulp_exp x \<le> k"
      by (auto simp: ulp_exp_def k_def)
    have "x \<le> 2 powi k"
      using ilog2_bounds [OF x] powi_2_mono [of "ilog2 x + 1" k] less by linarith
    then have "fl x \<le> 2 powi k"
      using fl_le_grid [of x "2 ^ nat (k - ulp_exp x)"] x less(2) by (simp add: powi_2_grid [of "ulp_exp x" k])
    also have "\<dots> \<le> fl y"
      using fl_ge_grid [of y "2 ^ nat (k - ulp_exp y)"] y k ilog2_bounds [OF y]
      by (simp add: powi_2_grid [of "ulp_exp y" k] k_def [symmetric])
    finally show ?thesis .
  qed
qed
end
