(* ===== verification/Opa.thy ===== *)
theory Opa
  imports PacketParser GoFloat
begin

text \<open>
  internal/opa: the input document, the embedded evaluator with its hot reload, and the
  extraction of a decision from a query result. The OPA library itself (compiler, query
  preparation, evaluation) is a parameter, the record \<open>rego\<close>.
\<close>

section \<open>The input document\<close>

record opa_PacketInfo =
  in_SrcIP :: string
  in_DstIP :: string
  in_Protocol :: string
  in_SrcPort :: uint16
  in_DstPort :: uint16
  in_TCPFlags :: TCPFlags
  in_ICMPType :: "byte option"
  in_ICMPCode :: "byte option"
  in_Fragment :: FragmentInfo
  in_PacketSize :: int

text \<open>A nil slice of recent ports is \<^term>\<open>None\<close>.\<close>

record ConnectionInfo =
  in_Established :: bool
  in_TCPState :: string
  in_PacketsInFlow :: int
  in_AgeMs :: int
  in_RecentPorts :: "uint16 list option"

record RateInfo =
  in_SrcIPpps :: float64
  in_SrcIPbps :: float64
  in_SrcPortPPS :: float64
  in_SrcPortBPS :: float64
  in_NewConnsPerSec :: float64

record TimeInfo =
  in_UtcHour :: nat
  in_UtcDay :: nat

record GeoInfo =
  in_SrcCountry :: string
  in_DstCountry :: string

record Input =
  in_Packet :: opa_PacketInfo
  in_Connection :: ConnectionInfo
  in_Rate :: RateInfo
  in_Time :: TimeInfo
  in_Geo :: GeoInfo

text \<open>\<open>Time.Hour\<close> and \<open>Time.Weekday\<close> in UTC; the Unix epoch was a Thursday.\<close>

definition utc_hour :: "time \<Rightarrow> nat" where
  "utc_hour now = time_unix now mod 86400 div 3600"

definition utc_weekday :: "time \<Rightarrow> nat" where
  "utc_weekday now = (time_unix now div 86400 + 4) mod 7"

definition BuildInput ::
  "time \<Rightarrow> PacketInfo \<Rightarrow> float64 \<Rightarrow> float64 \<Rightarrow> bool \<Rightarrow> string \<Rightarrow> float64 \<Rightarrow> float64 \<Rightarrow> float64 \<Rightarrow> uint16 list \<Rightarrow> Input" where
  "BuildInput now pkt p b established tcpState portPPS portBPS newConnRate recentPorts =
     \<lparr>in_Packet =
        \<lparr>in_SrcIP = SrcIP pkt, in_DstIP = DstIP pkt, in_Protocol = Protocol pkt, in_SrcPort = SrcPort pkt,
         in_DstPort = DstPort pkt, in_TCPFlags = Flags pkt, in_ICMPType = ICMPType pkt, in_ICMPCode = ICMPCode pkt,
         in_Fragment = Fragment pkt, in_PacketSize = PacketSize pkt\<rparr>,
      in_Connection =
        \<lparr>in_Established = established, in_TCPState = tcpState, in_PacketsInFlow = 1, in_AgeMs = 0,
         in_RecentPorts = (if length recentPorts > 0 then Some recentPorts else None)\<rparr>,
      in_Rate =
        \<lparr>in_SrcIPpps = p, in_SrcIPbps = b, in_SrcPortPPS = portPPS, in_SrcPortBPS = portBPS,
         in_NewConnsPerSec = newConnRate\<rparr>,
      in_Time = \<lparr>in_UtcHour = utc_hour now, in_UtcDay = utc_weekday now\<rparr>,
      in_Geo = \<lparr>in_SrcCountry = [], in_DstCountry = []\<rparr>\<rparr>"

section \<open>The OPA library\<close>

text \<open>
  A value of a query result. A \<open>json.Number\<close> is what its \<open>Float64\<close> method gives,
  \<^term>\<open>None\<close> for a number out of range; a value of any other Go type is \<open>VOther\<close>.
\<close>

datatype opa_value =
    VNull
  | VBool bool
  | VString string
  | VNumber "float64 option"
  | VObject "(string \<times> opa_value) list"
  | VOther

record Result =
  Allowed :: bool
  Reason :: string

text \<open>
  \<open>Modules\<close> lists the package paths of the compiled modules, \<^term>\<open>None\<close> for a nil module
  or package, in the order the map is visited. \<open>Eval\<close> gives, per result, the values of its
  expressions.
\<close>

record ('c, 'p) rego =
  CompileModules :: "string \<Rightarrow> string + 'c"
  Modules :: "'c \<Rightarrow> string option list"
  PrepareForEval :: "'c \<Rightarrow> string + 'p"
  Eval :: "'p \<Rightarrow> duration \<Rightarrow> Input \<Rightarrow> string + opa_value list list"

section \<open>The evaluator\<close>

definition decisionQuery :: string where
  "decisionQuery = ''data.l3_firewall''"

datatype load_err =
    EmptyPolicy
  | CompileFailed string
  | WrongPackage "string list"
  | PrepareFailed string

record EmbedConfig =
  Policy :: string
  Timeout :: duration

text \<open>\<open>reload_pending\<close> is the state of the one-slot notification channel.\<close>

record ('c, 'p) Evaluator =
  prepared :: "'p option"
  compiler :: 'c
  evalTimeout :: duration
  policy :: string
  reload_pending :: bool

fun declared_loop :: "string option list \<Rightarrow> string list \<Rightarrow> string list" where
  "declared_loop [] seen = seen"
| "declared_loop (None # ms) seen = declared_loop ms seen"
| "declared_loop (Some p # ms) seen = declared_loop ms (if p \<in> set seen then seen else seen @ [p])"

definition declaredPackages :: "string option list \<Rightarrow> string list" where
  "declaredPackages ms = declared_loop ms []"

definition verifyPolicyPackage :: "string option list \<Rightarrow> load_err option" where
  "verifyPolicyPackage ms =
     (if list_ex (\<lambda>m. m = Some decisionQuery) ms then None else Some (WrongPackage (declaredPackages ms)))"

definition rebuild :: "('c, 'p) rego \<Rightarrow> ('c, 'p) Evaluator \<Rightarrow> load_err option \<times> ('c, 'p) Evaluator" where
  "rebuild R e =
     (case PrepareForEval R (compiler e) of
        Inl err \<Rightarrow> (Some (PrepareFailed err), e)
      | Inr p \<Rightarrow> (None, e\<lparr>prepared := Some p\<rparr>))"

definition NewEmbedded :: "('c, 'p) rego \<Rightarrow> EmbedConfig \<Rightarrow> load_err + ('c, 'p) Evaluator" where
  "NewEmbedded R c =
     (if Policy c = [] then Inl EmptyPolicy
      else case CompileModules R (Policy c) of
        Inl err \<Rightarrow> Inl (CompileFailed err)
      | Inr cm \<Rightarrow>
          (case verifyPolicyPackage (Modules R cm) of
             Some err \<Rightarrow> Inl err
           | None \<Rightarrow>
               (case rebuild R \<lparr>prepared = None, compiler = cm, evalTimeout = Timeout c, policy = Policy c, reload_pending = False\<rparr> of
                  (Some err, e) \<Rightarrow> Inl err
                | (None, e) \<Rightarrow> Inr e)))"

definition Load :: "('c, 'p) rego \<Rightarrow> string \<Rightarrow> ('c, 'p) Evaluator \<Rightarrow> load_err option \<times> ('c, 'p) Evaluator" where
  "Load R pol e =
     (if pol = [] then (Some EmptyPolicy, e)
      else case CompileModules R pol of
        Inl err \<Rightarrow> (Some (CompileFailed err), e)
      | Inr cm \<Rightarrow>
          (case verifyPolicyPackage (Modules R cm) of
             Some err \<Rightarrow> (Some err, e)
           | None \<Rightarrow>
               (case rebuild R (e\<lparr>compiler := cm, policy := pol\<rparr>) of
                  (Some err, e') \<Rightarrow> (Some err, e')
                | (None, e') \<Rightarrow> (None, e'\<lparr>reload_pending := True\<rparr>))))"

datatype eval_err = NotInitialized | EvalFailed string

text \<open>One expression of a result: the \<open>switch\<close> on the type of \<open>allow\<close>, then \<open>reason\<close>.\<close>

definition allow_value :: "opa_value \<Rightarrow> bool option" where
  "allow_value v =
     (case v of
        VBool a \<Rightarrow> Some a
      | VString s \<Rightarrow> Some (s = ''true'' \<or> s = ''1'')
      | VNumber n \<Rightarrow> map_option (\<lambda>x. x \<noteq> 0) n
      | VNull \<Rightarrow> Some False
      | VObject _ \<Rightarrow> None
      | VOther \<Rightarrow> None)"

definition extract_expr :: "opa_value \<Rightarrow> Result \<Rightarrow> Result" where
  "extract_expr v r =
     (case v of
        VObject val \<Rightarrow>
          (let r1 = (case map_of val ''allow'' of
                       None \<Rightarrow> r
                     | Some a \<Rightarrow> (case allow_value a of None \<Rightarrow> r | Some b \<Rightarrow> r\<lparr>Allowed := b\<rparr>))
           in case map_of val ''reason'' of
                Some (VString s) \<Rightarrow> r1\<lparr>Reason := s\<rparr>
              | _ \<Rightarrow> r1)
      | _ \<Rightarrow> r)"

definition eval_timeout :: "('c, 'p) Evaluator \<Rightarrow> duration" where
  "eval_timeout e = (if evalTimeout e \<le> 0 then 500 * 1000000 else evalTimeout e)"

definition Evaluate :: "('c, 'p) rego \<Rightarrow> ('c, 'p) Evaluator \<Rightarrow> Input \<Rightarrow> eval_err + Result" where
  "Evaluate R e input =
     (let timeout = eval_timeout e
      in case prepared e of
           None \<Rightarrow> Inl NotInitialized
         | Some q \<Rightarrow>
             (case Eval R q timeout input of
                Inl err \<Rightarrow> Inl (EvalFailed err)
              | Inr results \<Rightarrow>
                  Inr (fold (\<lambda>exprs r. fold extract_expr exprs r) results \<lparr>Allowed = True, Reason = []\<rparr>)))"


section \<open>Decisions\<close>

text \<open>What one expression decides, and the decisions of a whole query result in order.\<close>

definition decision :: "opa_value \<Rightarrow> bool option" where
  "decision v = (case v of VObject val \<Rightarrow> Option.bind (map_of val ''allow'') allow_value | _ \<Rightarrow> None)"

definition decisions :: "opa_value list list \<Rightarrow> bool list" where
  "decisions results = List.map_filter decision (concat results)"

lemma extract_Allowed: "Allowed (extract_expr v r) = (case decision v of None \<Rightarrow> Allowed r | Some b \<Rightarrow> b)"
  by (cases v) (auto simp: extract_expr_def decision_def Let_def split: opa_value.split option.split)

lemma fold_extract_expr_Allowed: "Allowed (fold extract_expr vs r) = last (Allowed r # List.map_filter decision vs)"
proof (induction vs arbitrary: r)
  case (Cons v vs)
  then show ?case by (cases "decision v") (simp_all add: extract_Allowed List.map_filter_simps)
qed (simp add: List.map_filter_simps)

lemma fold_results: "fold (fold extract_expr) results r = fold extract_expr (concat results) r"
  by (induction results arbitrary: r) simp_all

lemma Evaluate_Allowed:
  assumes "prepared e = Some q" "Eval R q (eval_timeout e) input = Inr results"
  shows "\<exists>r. Evaluate R e input = Inr r \<and> Allowed r = last (True # decisions results)"
  using assms fold_extract_expr_Allowed [of "concat results" "\<lparr>Allowed = True, Reason = []\<rparr>"]
  by (simp add: Evaluate_def fold_results decisions_def)

section \<open>Loading\<close>

text \<open>What a policy compiles and prepares to, when the evaluator accepts it.\<close>

definition accepted :: "('c, 'p) rego \<Rightarrow> string \<Rightarrow> 'p option" where
  "accepted R pol =
     (if pol = [] then None
      else case CompileModules R pol of
        Inl _ \<Rightarrow> None
      | Inr cm \<Rightarrow>
          (if Some decisionQuery \<in> set (Modules R cm)
           then (case PrepareForEval R cm of Inl _ \<Rightarrow> None | Inr p \<Rightarrow> Some p) else None))"

lemma verifyPolicyPackage_iff: "verifyPolicyPackage ms = None \<longleftrightarrow> Some decisionQuery \<in> set ms"
  by (auto simp: verifyPolicyPackage_def list_ex_iff)

lemma Load_accepted:
  assumes "accepted R pol = Some q"
  shows "fst (Load R pol e) = None \<and> prepared (snd (Load R pol e)) = Some q \<and> policy (snd (Load R pol e)) = pol"
  using assms
  by (auto simp: accepted_def Load_def rebuild_def verifyPolicyPackage_iff [symmetric] split: sum.splits if_splits)

lemma Load_rejected:
  assumes "accepted R pol = None"
  shows "fst (Load R pol e) \<noteq> None \<and> prepared (snd (Load R pol e)) = prepared e"
  using assms
  by (auto simp: accepted_def Load_def rebuild_def verifyPolicyPackage_iff [symmetric] split: sum.splits if_splits option.splits)

lemma NewEmbedded_accepted:
  "NewEmbedded R c = Inr e \<longleftrightarrow>
    (\<exists>q cm. accepted R (Policy c) = Some q \<and> CompileModules R (Policy c) = Inr cm \<and>
      e = \<lparr>prepared = Some q, compiler = cm, evalTimeout = Timeout c, policy = Policy c, reload_pending = False\<rparr>)"
  by (auto simp: accepted_def NewEmbedded_def rebuild_def verifyPolicyPackage_iff [symmetric] split: sum.splits if_splits option.splits)

text \<open>
  The contract the policy sources (the file watcher, the etcd syncer) rely on: a load that
  reports no error governs from then on, a load that reports one leaves what governs.
\<close>

locale policy_loader =
  fixes load :: "string \<Rightarrow> 'e \<Rightarrow> 'err option \<times> 'e"
    and governs :: "'e \<Rightarrow> 'q option"
    and accepts :: "string \<Rightarrow> 'q option"
  assumes load_good: "accepts pol = Some q \<Longrightarrow> fst (load pol e) = None \<and> governs (snd (load pol e)) = Some q"
    and load_bad: "accepts pol = None \<Longrightarrow> fst (load pol e) \<noteq> None \<and> governs (snd (load pol e)) = governs e"
begin

lemma load_ok_iff: "fst (load pol e) = None \<longleftrightarrow> accepts pol \<noteq> None"
  using load_good load_bad by (cases "accepts pol") auto

lemma load_governs: "governs (snd (load pol e)) = (if accepts pol = None then governs e else accepts pol)"
  using load_good load_bad by (cases "accepts pol") auto

lemma loads_govern:
  "governs (fold (\<lambda>p e. snd (load p e)) ps e) = fold (\<lambda>p g. if accepts p = None then g else accepts p) ps (governs e)"
  by (induction ps arbitrary: e) (simp_all add: load_governs)

lemma loads_keep_governing: "governs e \<noteq> None \<Longrightarrow> governs (fold (\<lambda>p e. snd (load p e)) ps e) \<noteq> None"
  by (induction ps arbitrary: e) (simp_all add: load_governs)

end

interpretation embedded: policy_loader "Load R" prepared "accepted R" for R
  by unfold_locales (auto simp: Load_accepted Load_rejected)


section \<open>Concurrent loads\<close>

text \<open>
  The file watcher and the etcd syncer call \<open>Load\<close> from different goroutines. A load is
  a sequence of atomic steps: take \<open>loadMu\<close>, compile and check, swap compiler and policy
  under \<open>mu\<close>, read the compiler back in \<open>rebuild\<close>, prepare, swap the prepared query
  under \<open>mu\<close>, notify and release. \<open>order\<close> records the order in which
  \<open>loadMu\<close> was taken.
\<close>

datatype ('c, 'p) pc =
    Start
  | Holding
  | Checked 'c
  | Swapped
  | ReadBack 'c
  | Ready 'p
  | Installed
  | Finished "load_err option"

record ('c, 'p) loads =
  ev :: "('c, 'p) Evaluator"
  loadMu :: "nat option"
  pcs :: "nat \<Rightarrow> ('c, 'p) pc"
  order :: "nat list"

definition finish :: "nat \<Rightarrow> load_err option \<Rightarrow> ('c, 'p) loads \<Rightarrow> ('c, 'p) loads" where
  "finish i err s = s\<lparr>pcs := (pcs s)(i := Finished err), loadMu := None\<rparr>"

inductive load_step :: "('c, 'p) rego \<Rightarrow> (nat \<Rightarrow> string) \<Rightarrow> ('c, 'p) loads \<Rightarrow> ('c, 'p) loads \<Rightarrow> bool" for R ps where
  empty: "pcs s i = Start \<Longrightarrow> ps i = [] \<Longrightarrow>
    load_step R ps s (s\<lparr>pcs := (pcs s)(i := Finished (Some EmptyPolicy))\<rparr>)"
| acquire: "pcs s i = Start \<Longrightarrow> ps i \<noteq> [] \<Longrightarrow> loadMu s = None \<Longrightarrow>
    load_step R ps s (s\<lparr>pcs := (pcs s)(i := Holding), loadMu := Some i, order := order s @ [i]\<rparr>)"
| compile_fails: "pcs s i = Holding \<Longrightarrow> CompileModules R (ps i) = Inl err \<Longrightarrow>
    load_step R ps s (finish i (Some (CompileFailed err)) s)"
| wrong_package: "pcs s i = Holding \<Longrightarrow> CompileModules R (ps i) = Inr cm \<Longrightarrow>
    verifyPolicyPackage (Modules R cm) = Some err \<Longrightarrow> load_step R ps s (finish i (Some err) s)"
| compiles: "pcs s i = Holding \<Longrightarrow> CompileModules R (ps i) = Inr cm \<Longrightarrow>
    verifyPolicyPackage (Modules R cm) = None \<Longrightarrow> load_step R ps s (s\<lparr>pcs := (pcs s)(i := Checked cm)\<rparr>)"
| swap: "pcs s i = Checked cm \<Longrightarrow>
    load_step R ps s (s\<lparr>pcs := (pcs s)(i := Swapped), ev := (ev s)\<lparr>compiler := cm, policy := ps i\<rparr>\<rparr>)"
| read: "pcs s i = Swapped \<Longrightarrow> load_step R ps s (s\<lparr>pcs := (pcs s)(i := ReadBack (compiler (ev s)))\<rparr>)"
| prepare_fails: "pcs s i = ReadBack cm \<Longrightarrow> PrepareForEval R cm = Inl err \<Longrightarrow>
    load_step R ps s (finish i (Some (PrepareFailed err)) s)"
| prepares: "pcs s i = ReadBack cm \<Longrightarrow> PrepareForEval R cm = Inr p \<Longrightarrow>
    load_step R ps s (s\<lparr>pcs := (pcs s)(i := Ready p)\<rparr>)"
| install: "pcs s i = Ready p \<Longrightarrow>
    load_step R ps s (s\<lparr>pcs := (pcs s)(i := Installed), ev := (ev s)\<lparr>prepared := Some p\<rparr>\<rparr>)"
| notify: "pcs s i = Installed \<Longrightarrow>
    load_step R ps s (finish i None (s\<lparr>ev := (ev s)\<lparr>reload_pending := True\<rparr>\<rparr>))"

definition loads_init :: "('c, 'p) Evaluator \<Rightarrow> ('c, 'p) loads" where
  "loads_init e = \<lparr>ev = e, loadMu = None, pcs = (\<lambda>_. Start), order = []\<rparr>"

definition run_loads :: "('c, 'p) rego \<Rightarrow> (nat \<Rightarrow> string) \<Rightarrow> nat list \<Rightarrow> ('c, 'p) Evaluator \<Rightarrow> ('c, 'p) Evaluator" where
  "run_loads R ps is e = fold (\<lambda>i e. snd (Load R (ps i) e)) is e"

text \<open>Where the holder of \<open>loadMu\<close> is, relative to the evaluator \<open>e\<close> it started from.\<close>

definition holder_at :: "('c, 'p) rego \<Rightarrow> string \<Rightarrow> ('c, 'p) Evaluator \<Rightarrow> ('c, 'p) pc \<Rightarrow> ('c, 'p) Evaluator \<Rightarrow> bool" where
  "holder_at R pol e loc e' \<longleftrightarrow> pol \<noteq> [] \<and>
     (case loc of
        Holding \<Rightarrow> e' = e
      | Checked cm \<Rightarrow> CompileModules R pol = Inr cm \<and> verifyPolicyPackage (Modules R cm) = None \<and> e' = e
      | Swapped \<Rightarrow> \<exists>cm. CompileModules R pol = Inr cm \<and> verifyPolicyPackage (Modules R cm) = None \<and>
          e' = e\<lparr>compiler := cm, policy := pol\<rparr>
      | ReadBack cm \<Rightarrow> CompileModules R pol = Inr cm \<and> verifyPolicyPackage (Modules R cm) = None \<and>
          e' = e\<lparr>compiler := cm, policy := pol\<rparr>
      | Ready p \<Rightarrow> \<exists>cm. CompileModules R pol = Inr cm \<and> verifyPolicyPackage (Modules R cm) = None \<and>
          PrepareForEval R cm = Inr p \<and> e' = e\<lparr>compiler := cm, policy := pol\<rparr>
      | Installed \<Rightarrow> \<exists>cm p. CompileModules R pol = Inr cm \<and> verifyPolicyPackage (Modules R cm) = None \<and>
          PrepareForEval R cm = Inr p \<and> e' = e\<lparr>compiler := cm, policy := pol, prepared := Some p\<rparr>
      | _ \<Rightarrow> False)"

definition idle :: "('c, 'p) pc \<Rightarrow> bool" where
  "idle loc \<longleftrightarrow> loc = Start \<or> (\<exists>err. loc = Finished err)"

definition finished_ok :: "('c, 'p) rego \<Rightarrow> (nat \<Rightarrow> string) \<Rightarrow> ('c, 'p) Evaluator \<Rightarrow> ('c, 'p) loads \<Rightarrow> bool" where
  "finished_ok R ps e s \<longleftrightarrow>
     (\<forall>i err. pcs s i = Finished err \<longrightarrow> ps i \<noteq> [] \<longrightarrow>
       (\<exists>before after. order s = before @ i # after \<and> fst (Load R (ps i) (run_loads R ps before e)) = err))"

definition loads_inv :: "('c, 'p) rego \<Rightarrow> (nat \<Rightarrow> string) \<Rightarrow> ('c, 'p) Evaluator \<Rightarrow> ('c, 'p) loads \<Rightarrow> bool" where
  "loads_inv R ps e s \<longleftrightarrow>
     (case loadMu s of
        None \<Rightarrow> (\<forall>j. idle (pcs s j)) \<and> ev s = run_loads R ps (order s) e
      | Some i \<Rightarrow>
          (\<forall>j. j \<noteq> i \<longrightarrow> idle (pcs s j)) \<and>
          (\<exists>before. order s = before @ [i] \<and> holder_at R (ps i) (run_loads R ps before e) (pcs s i) (ev s))) \<and>
     finished_ok R ps e s"


lemma run_loads_snoc [simp]: "run_loads R ps (is @ [i]) e = snd (Load R (ps i) (run_loads R ps is e))"
  by (simp add: run_loads_def)

lemma idle_simps [simp]:
  "idle Start" "idle (Finished err)" "\<not> idle Holding" "\<not> idle (Checked cm)" "\<not> idle Swapped"
  "\<not> idle (ReadBack cm)" "\<not> idle (Ready p)" "\<not> idle Installed"
  by (simp_all add: idle_def)

lemma holder_simps [simp]:
  "holder_at R pol e Holding e' \<longleftrightarrow> pol \<noteq> [] \<and> e' = e"
  by (simp add: holder_at_def)

lemma loads_inv_holder:
  assumes "loads_inv R ps e s" "\<not> idle (pcs s i)"
  obtains before where "loadMu s = Some i" "\<forall>j. j \<noteq> i \<longrightarrow> idle (pcs s j)" "order s = before @ [i]"
    "holder_at R (ps i) (run_loads R ps before e) (pcs s i) (ev s)" "finished_ok R ps e s"
proof (cases "loadMu s")
  case None
  with assms show ?thesis by (simp add: loads_inv_def)
next
  case (Some k)
  with assms have "k = i" by (auto simp: loads_inv_def)
  with assms(1) Some that show ?thesis by (auto simp: loads_inv_def)
qed

lemma move_inv:
  assumes "loads_inv R ps e s" "\<not> idle (pcs s i)" "\<not> idle loc"
    and "\<And>f. holder_at R (ps i) f (pcs s i) (ev s) \<Longrightarrow> holder_at R (ps i) f loc e'"
  shows "loads_inv R ps e (s\<lparr>pcs := (pcs s)(i := loc), ev := e'\<rparr>)"
proof -
  obtain before where h: "loadMu s = Some i" "\<forall>j. j \<noteq> i \<longrightarrow> idle (pcs s j)" "order s = before @ [i]"
    "holder_at R (ps i) (run_loads R ps before e) (pcs s i) (ev s)" "finished_ok R ps e s"
    using loads_inv_holder [OF assms(1,2)] .
  have "finished_ok R ps e (s\<lparr>pcs := (pcs s)(i := loc), ev := e'\<rparr>)"
    using h(5) assms(3) by (auto simp: finished_ok_def)
  with h assms(4) [OF h(4)] show ?thesis by (simp add: loads_inv_def)
qed

lemma finish_inv:
  assumes "loads_inv R ps e s" "\<not> idle (pcs s i)"
    and "\<And>f. holder_at R (ps i) f (pcs s i) (ev s) \<Longrightarrow> Load R (ps i) f = (err, e')"
  shows "loads_inv R ps e (finish i err (s\<lparr>ev := e'\<rparr>))"
proof -
  obtain before where h: "loadMu s = Some i" "\<forall>j. j \<noteq> i \<longrightarrow> idle (pcs s j)" "order s = before @ [i]"
    "holder_at R (ps i) (run_loads R ps before e) (pcs s i) (ev s)" "finished_ok R ps e s"
    using loads_inv_holder [OF assms(1,2)] .
  have L: "Load R (ps i) (run_loads R ps before e) = (err, e')" using assms(3) [OF h(4)] .
  have "\<exists>b a. order s = b @ j # a \<and> fst (Load R (ps j) (run_loads R ps b e)) = r"
    if "((pcs s)(i := Finished err)) j = Finished r" "ps j \<noteq> []" for j r
    using that h(3,5) L by (cases "j = i") (auto simp: finished_ok_def)
  then have "finished_ok R ps e (finish i err (s\<lparr>ev := e'\<rparr>))" by (simp add: finished_ok_def finish_def)
  with h L show ?thesis by (simp add: loads_inv_def finish_def)
qed

lemma load_step_inv:
  assumes "load_step R ps s s'" "loads_inv R ps e s"
  shows "loads_inv R ps e s'"
  using assms
proof (induction rule: load_step.induct)
  case (empty s i)
  have "finished_ok R ps e (s\<lparr>pcs := (pcs s)(i := Finished (Some EmptyPolicy))\<rparr>)"
    using empty by (auto simp: loads_inv_def finished_ok_def)
  with empty show ?case by (auto simp: loads_inv_def holder_at_def split: option.splits)
next
  case (acquire s i)
  have "finished_ok R ps e (s\<lparr>pcs := (pcs s)(i := Holding), loadMu := Some i, order := order s @ [i]\<rparr>)"
    using acquire by (fastforce simp: loads_inv_def finished_ok_def)
  with acquire show ?case by (simp add: loads_inv_def)
next
  case (compile_fails s i err)
  then show ?case using finish_inv [of R ps e s i "Some (CompileFailed err)" "ev s"] by (simp add: Load_def)
next
  case (wrong_package s i cm err)
  then show ?case using finish_inv [of R ps e s i "Some err" "ev s"] by (simp add: Load_def)
next
  case (compiles s i cm)
  then show ?case using move_inv [of R ps e s i "Checked cm" "ev s"] by (simp add: holder_at_def)
next
  case (swap s i cm)
  then show ?case using move_inv [of R ps e s i Swapped "(ev s)\<lparr>compiler := cm, policy := ps i\<rparr>"]
    by (auto simp: holder_at_def)
next
  case (read s i)
  have "holder_at R (ps i) f (pcs s i) (ev s) \<Longrightarrow> holder_at R (ps i) f (ReadBack (compiler (ev s))) (ev s)" for f
    using read by (auto simp: holder_at_def)
  with read show ?case using move_inv [of R ps e s i "ReadBack (compiler (ev s))" "ev s"] by simp
next
  case (prepare_fails s i cm err)
  then show ?case using finish_inv [of R ps e s i "Some (PrepareFailed err)" "ev s"]
    by (auto simp: holder_at_def Load_def rebuild_def)
next
  case (prepares s i cm p)
  then show ?case using move_inv [of R ps e s i "Ready p" "ev s"] by (auto simp: holder_at_def)
next
  case (install s i p)
  have "holder_at R (ps i) f (pcs s i) (ev s) \<Longrightarrow> holder_at R (ps i) f Installed ((ev s)\<lparr>prepared := Some p\<rparr>)" for f
    using install by (auto simp: holder_at_def)
  with install show ?case using move_inv [of R ps e s i Installed "(ev s)\<lparr>prepared := Some p\<rparr>"] by simp
next
  case (notify s i)
  have "holder_at R (ps i) f (pcs s i) (ev s) \<Longrightarrow> Load R (ps i) f = (None, (ev s)\<lparr>reload_pending := True\<rparr>)" for f
    using notify by (auto simp: holder_at_def Load_def rebuild_def)
  with notify show ?case using finish_inv [of R ps e s i None "(ev s)\<lparr>reload_pending := True\<rparr>"] by simp
qed

lemma loads_inv_reachable: "(load_step R ps)\<^sup>*\<^sup>* (loads_init e) s \<Longrightarrow> loads_inv R ps e s"
proof (induction rule: rtranclp_induct)
  case base
  show ?case by (simp add: loads_inv_def loads_init_def run_loads_def finished_ok_def)
next
  case (step s s')
  then show ?case using load_step_inv by blast
qed


lemma holder_prepared:
  assumes "holder_at R pol f loc e'"
  shows "prepared e' = prepared f \<or> prepared e' = prepared (snd (Load R pol f))"
  using assms by (cases loc) (auto simp: holder_at_def Load_def rebuild_def)

section \<open>Properties\<close>

text \<open>
  C7. Concurrent loads are serial: in every interleaving of any number of \<open>Load\<close> calls,
  whenever no call is in progress the evaluator is the one the calls give when run one after
  the other in the order they took \<open>loadMu\<close>; every call reports what it reports in that
  serial run; and a packet evaluated in between sees the query that governs before or after
  the call in progress, never a mixture.\<close>

theorem concurrent_loads_serialize:
  assumes "(load_step R ps)\<^sup>*\<^sup>* (loads_init e) s"
  shows "(loadMu s = None \<longrightarrow> ev s = run_loads R ps (order s) e) \<and>
    (\<forall>i err. pcs s i = Finished err \<and> ps i \<noteq> [] \<longrightarrow>
      (\<exists>before after. order s = before @ i # after \<and> fst (Load R (ps i) (run_loads R ps before e)) = err)) \<and>
    (prepared (ev s) = prepared (run_loads R ps (order s) e) \<or>
     prepared (ev s) = prepared (run_loads R ps (butlast (order s)) e))"
proof -
  have inv: "loads_inv R ps e s" using loads_inv_reachable [OF assms] .
  have "prepared (ev s) = prepared (run_loads R ps (order s) e) \<or>
     prepared (ev s) = prepared (run_loads R ps (butlast (order s)) e)"
  proof (cases "loadMu s")
    case None
    with inv show ?thesis by (simp add: loads_inv_def)
  next
    case (Some i)
    with inv obtain before where "order s = before @ [i]" "holder_at R (ps i) (run_loads R ps before e) (pcs s i) (ev s)"
      by (auto simp: loads_inv_def)
    then show ?thesis using holder_prepared by fastforce
  qed
  with inv show ?thesis by (auto simp: loads_inv_def finished_ok_def)
qed

text \<open>A library that compiles a policy to its text, with one module at the decision package.\<close>

definition sample_rego :: "(string, string) rego" where
  "sample_rego = \<lparr>CompileModules = (\<lambda>s. if s = ''bad'' then Inl ''syntax'' else Inr s),
     Modules = (\<lambda>s. [Some (if s = ''evil'' then ''data.evil'' else decisionQuery)]),
     PrepareForEval = Inr, Eval = (\<lambda>q d i. Inr [[VObject [(''allow'', VBool (q = ''yes''))]]])\<rparr>"

definition sample_evaluator :: "(string, string) Evaluator" where
  "sample_evaluator = \<lparr>prepared = Some ''yes'', compiler = ''yes'', evalTimeout = 0, policy = ''yes'', reload_pending = False\<rparr>"

definition sample_loads :: "nat \<Rightarrow> string" where
  "sample_loads i = (if i = 0 then ''no'' else ''bad'')"

theorem concurrent_loads_serialize_witness:
  "\<exists>s. (load_step sample_rego sample_loads)\<^sup>*\<^sup>* (loads_init sample_evaluator) s \<and>
     loadMu s = None \<and> order s = [0] \<and> prepared (ev s) = Some ''no''"
proof -
  define s1 where "s1 = (loads_init sample_evaluator)\<lparr>pcs := (\<lambda>_. Start)(0 := Holding), loadMu := Some 0, order := [0]\<rparr>"
  define s2 where "s2 = s1\<lparr>pcs := (\<lambda>_. Start)(0 := Checked ''no'')\<rparr>"
  define s3 where "s3 = s2\<lparr>pcs := (\<lambda>_. Start)(0 := Swapped), ev := sample_evaluator\<lparr>compiler := ''no'', policy := ''no''\<rparr>\<rparr>"
  define s4 where "s4 = s3\<lparr>pcs := (\<lambda>_. Start)(0 := ReadBack ''no'')\<rparr>"
  define s5 where "s5 = s4\<lparr>pcs := (\<lambda>_. Start)(0 := Ready ''no'')\<rparr>"
  define s6 where "s6 = s5\<lparr>pcs := (\<lambda>_. Start)(0 := Installed), ev := (ev s5)\<lparr>prepared := Some ''no''\<rparr>\<rparr>"
  define s7 where "s7 = finish 0 None (s6\<lparr>ev := (ev s6)\<lparr>reload_pending := True\<rparr>\<rparr>)"
  note d = s1_def s2_def s3_def s4_def s5_def s6_def loads_init_def sample_rego_def sample_loads_def
    sample_evaluator_def verifyPolicyPackage_def decisionQuery_def fun_upd_def
  let ?st = "load_step sample_rego sample_loads"
  have "?st (loads_init sample_evaluator) s1"
    using load_step.acquire [of "loads_init sample_evaluator" 0 sample_loads sample_rego] by (simp add: d)
  moreover have "?st s1 s2" using load_step.compiles [of s1 0 sample_rego sample_loads "''no''"] by (simp add: d if_distrib cong: if_cong)
  moreover have "?st s2 s3" using load_step.swap [of s2 0 "''no''" sample_rego sample_loads] by (simp add: d if_distrib cong: if_cong)
  moreover have "?st s3 s4" using load_step.read [of s3 0 sample_rego sample_loads] by (simp add: d if_distrib cong: if_cong)
  moreover have "?st s4 s5" using load_step.prepares [of s4 0 "''no''" sample_rego "''no''" sample_loads] by (simp add: d if_distrib cong: if_cong)
  moreover have "?st s5 s6" using load_step.install [of s5 0 "''no''" sample_rego sample_loads] by (simp add: d if_distrib cong: if_cong)
  moreover have "?st s6 s7" using load_step.notify [of s6 0 sample_rego sample_loads] by (simp add: s7_def s6_def)
  ultimately have r: "?st\<^sup>*\<^sup>* (loads_init sample_evaluator) s7" by (meson rtranclp.rtrancl_refl converse_rtranclp_into_rtranclp)
  have s7: "loadMu s7 = None" "order s7 = [0]" by (simp_all add: s7_def finish_def d)
  with concurrent_loads_serialize [OF r] have "ev s7 = run_loads sample_rego sample_loads [0] sample_evaluator" by simp
  then have "prepared (ev s7) = Some ''no''"
    by (simp add: run_loads_def Load_def rebuild_def sample_rego_def sample_loads_def verifyPolicyPackage_def sample_evaluator_def)
  with r s7 show ?thesis by blast
qed

text \<open>
  Hot reload keeps the last good policy: after any sequence of loads the governing query is
  that of the last policy that is not empty, compiles, declares exactly the decision package
  and prepares; every other policy is reported as an error and changes nothing that governs.\<close>

theorem Load_keeps_last_good:
  "prepared (fold (\<lambda>p e. snd (Load R p e)) ps e) =
     fold (\<lambda>p g. if accepted R p = None then g else accepted R p) ps (prepared e) \<and>
   (fst (Load R p e) = None \<longleftrightarrow> accepted R p \<noteq> None)"
  by (intro conjI embedded.loads_govern embedded.load_ok_iff)

text \<open>
  The values of \<open>allow\<close> that let a packet pass and those that refuse it, as a policy author writes
  them; objects, arrays and numbers that do not fit a float are neither.\<close>

definition permits :: "opa_value \<Rightarrow> bool" where
  "permits v \<longleftrightarrow> v = VBool True \<or> v = VString ''true'' \<or> v = VString ''1'' \<or> (\<exists>x. x \<noteq> 0 \<and> v = VNumber (Some x))"

definition forbids :: "opa_value \<Rightarrow> bool" where
  "forbids v \<longleftrightarrow> v = VBool False \<or> v = VNull \<or> v = VNumber (Some 0) \<or> (\<exists>s. s \<noteq> ''true'' \<and> s \<noteq> ''1'' \<and> v = VString s)"

text \<open>An expression of a query result carries \<open>v\<close> as its \<open>allow\<close>.\<close>

definition allow_is :: "opa_value \<Rightarrow> opa_value \<Rightarrow> bool" where
  "allow_is expr v \<longleftrightarrow> (\<exists>val. expr = VObject val \<and> map_of val ''allow'' = Some v)"

lemma allow_value_permits: "allow_value v = Some True \<longleftrightarrow> permits v"
  by (cases v) (auto simp: allow_value_def permits_def)

lemma allow_value_forbids: "allow_value v = Some False \<longleftrightarrow> forbids v"
  by (cases v) (auto simp: allow_value_def forbids_def)

lemma decision_Some: "decision expr = Some d \<longleftrightarrow> (\<exists>v. allow_is expr v \<and> allow_value v = Some d)"
  by (cases expr) (auto simp: decision_def allow_is_def Option.bind_eq_Some_conv)

lemmas decision_spec = decision_Some [of _ True, unfolded allow_value_permits] decision_Some [of _ False, unfolded allow_value_forbids]

lemma last_decision_False:
  "\<not> last (True # List.map_filter decision es) \<longleftrightarrow>
   (\<exists>before e after. es = before @ e # after \<and> decision e = Some False \<and> (\<forall>e' \<in> set after. decision e' \<noteq> Some True))"
proof (induction es rule: rev_induct)
  case (snoc e es)
  have m: "List.map_filter decision (es @ [e]) = List.map_filter decision es @ (case decision e of None \<Rightarrow> [] | Some b \<Rightarrow> [b])"
    by (simp add: List.map_filter_def split: option.split)
  show ?case
  proof (cases "decision e")
    case None
    then show ?thesis using snoc.IH m by (fastforce simp: append_eq_append_conv2 append_eq_Cons_conv Cons_eq_append_conv)
  next
    case (Some b)
    then show ?thesis using m by (cases b) (fastforce simp: append_eq_append_conv2 append_eq_Cons_conv Cons_eq_append_conv)+
  qed
qed (simp add: List.map_filter_simps)

text \<open>
  C32. A query result refuses the packet exactly when one of its expressions has an \<open>allow\<close> that is
  false, null, the number zero or a string other than true and 1, and no later expression has an
  \<open>allow\<close> that is true, one of the strings true and 1, or a number other than zero. So the last
  usable value decides, and with no usable value (no result, no \<open>allow\<close>, an object, an array, a number
  out of range) the packet is allowed.\<close>

theorem Evaluate_decides:
  assumes "prepared e = Some q" and "Eval R q (eval_timeout e) input = Inr results"
  shows "\<exists>r. Evaluate R e input = Inr r \<and>
    (\<not> Allowed r \<longleftrightarrow>
      (\<exists>before expr after. concat results = before @ expr # after \<and> (\<exists>v. allow_is expr v \<and> forbids v) \<and>
         (\<forall>expr' \<in> set after. \<forall>v. allow_is expr' v \<longrightarrow> \<not> permits v)))"
  using Evaluate_Allowed [OF assms] last_decision_False [of "concat results"]
  unfolding decisions_def decision_spec by blast

theorem Evaluate_decides_witness:
  "\<forall>input. \<exists>r. Evaluate sample_rego (sample_evaluator\<lparr>prepared := Some ''no''\<rparr>) input = Inr r \<and> \<not> Allowed r"
proof
  fix input
  have "allow_is (VObject [(''allow'', VBool False)]) (VBool False)" "forbids (VBool False)"
    by (simp_all add: allow_is_def forbids_def)
  then have "\<exists>before expr after. concat [[VObject [(''allow'', VBool False)]]] = before @ expr # after \<and>
      (\<exists>v. allow_is expr v \<and> forbids v) \<and> (\<forall>expr' \<in> set after. \<forall>v. allow_is expr' v \<longrightarrow> \<not> permits v)"
    by (intro exI [of _ "[]"] exI [of _ "VObject [(''allow'', VBool False)]"]) auto
  then show "\<exists>r. Evaluate sample_rego (sample_evaluator\<lparr>prepared := Some ''no''\<rparr>) input = Inr r \<and> \<not> Allowed r"
    using Evaluate_decides [of "sample_evaluator\<lparr>prepared := Some ''no''\<rparr>" "''no''" sample_rego input "[[VObject [(''allow'', VBool False)]]]"]
    by (auto simp: sample_rego_def)
qed

end
