(* ===== verification/PolicyWatch.thy ===== *)
theory PolicyWatch
  imports Files Opa
begin

text \<open>
  The policy file of cmd/server/main.go: the hardened read and the hot-reload loop, a client
  of the evaluator's \<open>Load\<close>. A poll makes two independent looks at the file
  system (the stat and the read), so it takes two views.
\<close>

section \<open>Reading\<close>

definition maxPolicyFileSize :: nat where
  "maxPolicyFileSize = 10 * 1024 * 1024"

datatype read_err =
    BadPath path_err
  | CannotOpen
  | CannotStat
  | NotRegular
  | TooLarge nat
  | ReadFailed
  | Grew

definition readPolicyFile :: "files \<Rightarrow> string \<Rightarrow> read_err + string \<times> time" where
  "readPolicyFile fs path =
     (case RejectSymlinkComponents (os_lstat fs) (Dir path) of
        Some err \<Rightarrow> Inl (BadPath err)
      | None \<Rightarrow>
     (case os_open fs path of
        OpenNotExist \<Rightarrow> Inl CannotOpen
      | OpenError \<Rightarrow> Inl CannotOpen
      | Opened f \<Rightarrow>
     (case fd_stat f of
        None \<Rightarrow> Inl CannotStat
      | Some fi \<Rightarrow>
          if \<not> st_regular fi then Inl NotRegular
          else if st_size fi > maxPolicyFileSize then Inl (TooLarge (st_size fi))
          else (case ReadAll (LimitReader (maxPolicyFileSize + 1) (fd_content f)) of
                  None \<Rightarrow> Inl ReadFailed
                | Some data \<Rightarrow>
                    if length data > maxPolicyFileSize then Inl Grew else Inr (data, st_mtime fi)))))"

section \<open>Polling\<close>

text \<open>The record \<open>lastMod\<close> is \<open>None\<close> for Go's zero time. The first component is the time to sleep.\<close>

definition pollPolicyFile ::
    "(string \<Rightarrow> 'e \<Rightarrow> 'err option \<times> 'e) \<Rightarrow> string \<Rightarrow> files \<Rightarrow> files \<Rightarrow> time option \<Rightarrow> 'e \<Rightarrow> duration \<times> time option \<times> 'e" where
  "pollPolicyFile load path at_stat at_read lastMod e =
     (case os_stat at_stat path of
        None \<Rightarrow> (seconds 30, lastMod, e)
      | Some modTime \<Rightarrow>
          if lastMod = None \<or> the lastMod < modTime then
            (case readPolicyFile at_read path of
               Inl err \<Rightarrow> (seconds 30, lastMod, e)
             | Inr (data, verifiedMod) \<Rightarrow>
                 (case load data e of
                    (Some err, e') \<Rightarrow> (seconds 30, lastMod, e')
                  | (None, e') \<Rightarrow> (seconds 5, Some verifiedMod, e')))
          else (seconds 5, lastMod, e))"

text \<open>\<open>watchPolicyFile\<close> for the polls whose views are given: the record and evaluator it leaves, and its sleeps.\<close>

fun watchPolicyFile ::
    "(string \<Rightarrow> 'e \<Rightarrow> 'err option \<times> 'e) \<Rightarrow> string \<Rightarrow> (files \<times> files) list \<Rightarrow> time option \<Rightarrow> 'e \<Rightarrow> duration list \<times> time option \<times> 'e" where
  "watchPolicyFile load path [] lastMod e = ([], lastMod, e)"
| "watchPolicyFile load path ((at_stat, at_read) # views) lastMod e =
     (case pollPolicyFile load path at_stat at_read lastMod e of
        (d, lastMod', e') \<Rightarrow>
          (case watchPolicyFile load path views lastMod' e' of (ds, m, e'') \<Rightarrow> (d # ds, m, e'')))"

section \<open>Lemmas\<close>

text \<open>A read gives the whole content of a regular file of bounded size, or an error.\<close>

lemma readPolicyFile_Inr:
  assumes "readPolicyFile fs path = Inr (data, m)"
  obtains f fi where "RejectSymlinkComponents (os_lstat fs) (Dir path) = None" "os_open fs path = Opened f"
    "fd_stat f = Some fi" "st_regular fi" "st_size fi \<le> maxPolicyFileSize" "st_mtime fi = m"
    "rd_bytes (fd_content f) = data" "rd_end (fd_content f) = EOF" "length data \<le> maxPolicyFileSize"
proof -
  obtain f where f: "RejectSymlinkComponents (os_lstat fs) (Dir path) = None" "os_open fs path = Opened f"
    using assms by (auto simp: readPolicyFile_def split: option.splits open_result.splits)
  obtain fi where fi: "fd_stat f = Some fi" "st_regular fi" "st_size fi \<le> maxPolicyFileSize" "st_mtime fi = m"
      "ReadAll (LimitReader (maxPolicyFileSize + 1) (fd_content f)) = Some data" "length data \<le> maxPolicyFileSize"
    using assms f by (auto simp: readPolicyFile_def split: option.splits if_splits)
  have "rd_bytes (fd_content f) = data \<and> rd_end (fd_content f) = EOF"
    using ReadAll_LimitReader_short [of maxPolicyFileSize "fd_content f" data] fi(5,6) by simp
  with f fi show thesis using that by blast
qed

lemma readPolicyFile_symlink:
  assumes "nofollow fs" "readPolicyFile fs path = Inr r"
  shows "symlink_free fs path"
proof (cases r)
  case (Pair data m)
  show ?thesis
  proof (rule readPolicyFile_Inr [OF assms(2) [unfolded Pair]])
    fix f assume "RejectSymlinkComponents (os_lstat fs) (Dir path) = None" "os_open fs path = Opened f"
    then show "symlink_free fs path" by (rule opened_symlink_free [OF assms(1)])
  qed
qed

text \<open>A view offers nothing to load: the poll does not get past the comparator, the read or the load.\<close>

definition offers :: "string \<Rightarrow> files \<times> files \<Rightarrow> time option \<Rightarrow> (string \<times> time) option" where
  "offers path v lastMod =
     (case os_stat (fst v) path of
        None \<Rightarrow> None
      | Some modTime \<Rightarrow>
          if lastMod = None \<or> the lastMod < modTime
          then (case readPolicyFile (snd v) path of Inl _ \<Rightarrow> None | Inr r \<Rightarrow> Some r) else None)"

lemma pollPolicyFile_offers:
  "pollPolicyFile load path at_stat at_read lastMod e =
     (case offers path (at_stat, at_read) lastMod of
        None \<Rightarrow> (if \<exists>t. os_stat at_stat path = Some t \<and> lastMod \<noteq> None \<and> t \<le> the lastMod then seconds 5 else seconds 30, lastMod, e)
      | Some (data, verifiedMod) \<Rightarrow>
          (case load data e of (Some err, e') \<Rightarrow> (seconds 30, lastMod, e') | (None, e') \<Rightarrow> (seconds 5, Some verifiedMod, e')))"
  by (auto simp: pollPolicyFile_def offers_def split: option.split sum.split)

lemma poll_sleeps: "fst (pollPolicyFile load path v v' lastMod e) \<in> {seconds 5, seconds 30}"
  by (auto simp: pollPolicyFile_offers split: option.split prod.split)

lemma polls_sleep: "watchPolicyFile load path views lastMod e = (ds, m, e') \<Longrightarrow> set ds \<subseteq> {seconds 5, seconds 30}"
proof (induction views arbitrary: lastMod e ds)
  case (Cons v views)
  then show ?case
    using poll_sleeps [of load path "fst v" "snd v" lastMod e] by (cases v) (fastforce split: prod.splits)
qed simp

context policy_loader
begin

lemma poll_effect:
  assumes "pollPolicyFile load path v v' lastMod e = (d, lastMod', e')"
  shows "(case offers path (v, v') lastMod of
      None \<Rightarrow> lastMod' = lastMod \<and> e' = e
    | Some (data, m) \<Rightarrow>
        if accepts data = None then lastMod' = lastMod \<and> governs e' = governs e \<and> d = seconds 30
        else lastMod' = Some m \<and> governs e' = accepts data \<and> d = seconds 5)"
proof (cases "offers path (v, v') lastMod")
  case (Some r)
  obtain data m where r: "r = (data, m)" by (cases r)
  obtain x e1 where l: "load data e = (x, e1)" by (cases "load data e")
  show ?thesis
    using assms Some r l load_ok_iff [of data e] load_governs [of data e]
    by (auto simp: pollPolicyFile_offers split: option.splits)
qed (use assms in \<open>simp add: pollPolicyFile_offers split: if_splits\<close>)

text \<open>Polls that offer nothing acceptable leave the record and the policy in force.\<close>

lemma polls_rejected:
  assumes "\<forall>v \<in> set views. case offers path v lastMod of None \<Rightarrow> True | Some (data, m) \<Rightarrow> accepts data = None"
    and "watchPolicyFile load path views lastMod e = (ds, lastMod', e')"
  shows "lastMod' = lastMod \<and> governs e' = governs e"
  using assms
proof (induction views arbitrary: e ds e')
  case (Cons v views)
  obtain a b where v: "v = (a, b)" by (cases v)
  obtain d m1 e1 where p: "pollPolicyFile load path a b lastMod e = (d, m1, e1)" by (cases "pollPolicyFile load path a b lastMod e")
  have eff: "m1 = lastMod \<and> governs e1 = governs e"
    using poll_effect [OF p] Cons.prems(1) v by (auto split: option.splits)
  obtain ds1 where "watchPolicyFile load path views lastMod e1 = (ds1, lastMod', e')"
    using Cons.prems(2) p v eff by (auto split: prod.splits)
  from Cons.IH [OF _ this] Cons.prems(1) eff show ?case by simp
qed simp

text \<open>
  Whatever the polls saw, the record is the seed or the fstat time of content that was read and
  accepted, and the policy in force is the earlier one or such content.
\<close>

lemma polls_record:
  assumes "watchPolicyFile load path views lastMod e = (ds, lastMod', e')"
  shows "(lastMod' = lastMod \<and> governs e' = governs e) \<or>
    (\<exists>v \<in> set views. \<exists>data m. readPolicyFile (snd v) path = Inr (data, m) \<and> accepts data \<noteq> None \<and>
       lastMod' = Some m \<and> governs e' = accepts data)"
  using assms
proof (induction views arbitrary: lastMod e ds)
  case (Cons v views)
  obtain a b where v: "v = (a, b)" by (cases v)
  obtain d m1 e1 where p: "pollPolicyFile load path a b lastMod e = (d, m1, e1)" by (cases "pollPolicyFile load path a b lastMod e")
  obtain ds1 where w: "watchPolicyFile load path views m1 e1 = (ds1, lastMod', e')"
    using Cons.prems p v by (auto split: prod.splits)
  have "(m1 = lastMod \<and> governs e1 = governs e) \<or>
      (\<exists>data m. readPolicyFile b path = Inr (data, m) \<and> accepts data \<noteq> None \<and> m1 = Some m \<and> governs e1 = accepts data)"
    using poll_effect [OF p] by (auto simp: offers_def split: option.splits if_splits sum.splits)
  with Cons.IH [OF w] v show ?case by auto
qed simp

end

section \<open>Properties\<close>

text \<open>Sample views: a real policy file, and a link planted in its place with a target from the future.\<close>

definition real_view :: "time \<Rightarrow> string \<Rightarrow> files" where
  "real_view t data =
     \<lparr>os_lstat = (\<lambda>p. NotSymlink), os_stat = (\<lambda>p. Some t),
      os_open = (\<lambda>p. Opened \<lparr>fd_stat = Some \<lparr>st_regular = True, st_size = length data, st_mtime = t\<rparr>,
        fd_content = \<lparr>rd_bytes = data, rd_end = EOF, rd_early = False\<rparr>\<rparr>)\<rparr>"

definition planted_view :: "string \<Rightarrow> time \<Rightarrow> files" where
  "planted_view path t =
     \<lparr>os_lstat = (\<lambda>p. if p = path then Symlink else NotSymlink), os_stat = (\<lambda>p. Some t),
      os_open = (\<lambda>p. OpenError)\<rparr>"

lemma nofollow_samples [simp]: "nofollow (real_view t data)" "nofollow (planted_view path t)"
  by (simp_all add: nofollow_def real_view_def planted_view_def)

lemma real_view_read:
  "length data \<le> maxPolicyFileSize \<Longrightarrow> RejectSymlinkComponents (\<lambda>p. NotSymlink) (Dir path) = None \<Longrightarrow>
   readPolicyFile (real_view t data) path = Inr (data, t)"
  by (simp add: readPolicyFile_def real_view_def ReadAll_def LimitReader_def)

lemma sample_path: "RejectSymlinkComponents (\<lambda>p. NotSymlink) (Dir ''/p/l3.rego'') = None"
  by (simp add: RejectSymlinkComponents_def Dir_def Clean_def IsAbs_def Join2_def)

text \<open>
  C4. Planting symbolic links cannot disable hot reload: polls during which a component of the
  policy path is a symbolic link, whatever modification times the link's target shows, leave
  the record and the policy in force unchanged; and the first poll that finds a real, loadable
  file with a time after the record puts that file's policy in force and records the file's own time.\<close>
theorem reload_survives_planted_links:
  assumes "\<forall>v \<in> set views. nofollow (snd v) \<and> \<not> symlink_free (snd v) path"
    and "watchPolicyFile (Load R) path views lastMod e = (ds, lastMod', e')"
    and "os_stat at_stat path = Some t" "lastMod = None \<or> the lastMod < t"
    and "readPolicyFile at_read path = Inr (data, m)" "accepted R data = Some q"
  shows "lastMod' = lastMod \<and> prepared e' = prepared e \<and>
    (case pollPolicyFile (Load R) path at_stat at_read lastMod' e' of
       (d, lastMod'', e'') \<Rightarrow> d = seconds 5 \<and> lastMod'' = Some m \<and> prepared e'' = Some q)"
proof -
  have "offers path v lastMod = None" if "v \<in> set views" for v
    using assms(1) that readPolicyFile_symlink [of "snd v" path]
    by (auto simp: offers_def split: option.split sum.split)
  then have keep: "lastMod' = lastMod \<and> prepared e' = prepared e"
    using embedded.polls_rejected [OF _ assms(2)] by simp
  have off: "offers path (at_stat, at_read) lastMod' = Some (data, m)"
    using assms keep by (auto simp: offers_def)
  obtain d m2 e2 where p: "pollPolicyFile (Load R) path at_stat at_read lastMod' e' = (d, m2, e2)"
    by (cases "pollPolicyFile (Load R) path at_stat at_read lastMod' e'")
  show ?thesis using keep embedded.poll_effect [OF p] off assms(6) p by simp
qed

theorem reload_survives_planted_links_witness:
  "\<exists>ds e'. watchPolicyFile (Load sample_rego) ''/p/l3.rego''
       [(planted_view ''/p/l3.rego'' 900, planted_view ''/p/l3.rego'' 900)] (Some 10) sample_evaluator = (ds, Some 10, e') \<and>
     prepared (snd (snd (pollPolicyFile (Load sample_rego) ''/p/l3.rego'' (real_view 20 ''no'') (real_view 20 ''no'') (Some 10) e'))) = Some ''no''"
proof -
  let ?p = "''/p/l3.rego''"
  let ?vs = "[(planted_view ?p 900, planted_view ?p 900)]"
  obtain ds m e' where w: "watchPolicyFile (Load sample_rego) ?p ?vs (Some 10) sample_evaluator = (ds, m, e')"
    by (cases "watchPolicyFile (Load sample_rego) ?p ?vs (Some 10) sample_evaluator")
  have "\<forall>v \<in> set ?vs. nofollow (snd v) \<and> \<not> symlink_free (snd v) ?p"
    using nofollow_samples(2) by (simp add: symlink_free_def) (simp add: planted_view_def)
  moreover have "os_stat (real_view 20 ''no'') ?p = Some 20" by (simp add: real_view_def)
  moreover have "readPolicyFile (real_view 20 ''no'') ?p = Inr (''no'', 20)"
    using sample_path by (intro real_view_read) (simp_all add: maxPolicyFileSize_def)
  moreover have "accepted sample_rego ''no'' = Some ''no''"
    by (simp add: accepted_def sample_rego_def decisionQuery_def)
  ultimately have "m = Some 10 \<and> prepared e' = prepared sample_evaluator \<and>
      (case pollPolicyFile (Load sample_rego) ?p (real_view 20 ''no'') (real_view 20 ''no'') m e' of
         (d, m2, e2) \<Rightarrow> d = seconds 5 \<and> m2 = Some 20 \<and> prepared e2 = Some ''no'')"
    by (intro reload_survives_planted_links [OF _ w]) auto
  with w show ?thesis by (auto split: prod.splits)
qed

text \<open>
  Whatever the polls of the watcher saw, either the record and the policy in force are those
  it started with, or they come together from one read: a regular file of bounded size reached
  without any symbolic link, whose whole content was accepted by the evaluator and whose own
  fstat time is the record. Every sleep is five or thirty seconds.\<close>
theorem watcher_loads_verified_files:
  assumes "\<forall>v \<in> set views. nofollow (snd v)"
    and "watchPolicyFile (Load R) path views lastMod e = (ds, lastMod', e')"
  shows "((lastMod' = lastMod \<and> prepared e' = prepared e) \<or>
    (\<exists>v \<in> set views. \<exists>f fi. symlink_free (snd v) path \<and> os_open (snd v) path = Opened f \<and> fd_stat f = Some fi \<and>
       st_regular fi \<and> length (rd_bytes (fd_content f)) \<le> maxPolicyFileSize \<and>
       lastMod' = Some (st_mtime fi) \<and> accepted R (rd_bytes (fd_content f)) \<noteq> None \<and>
       prepared e' = accepted R (rd_bytes (fd_content f)))) \<and>
    set ds \<subseteq> {seconds 5, seconds 30}"
proof -
  have "set ds \<subseteq> {seconds 5, seconds 30}" using assms(2) by (rule polls_sleep)
  moreover have ?thesis if "v \<in> set views" and r: "readPolicyFile (snd v) path = Inr (data, m)"
      and "accepted R data \<noteq> None" "lastMod' = Some m" "prepared e' = accepted R data" for v data m
  proof (rule readPolicyFile_Inr [OF r])
    fix f fi
    assume "os_open (snd v) path = Opened f" "fd_stat f = Some fi" "st_regular fi" "st_mtime fi = m"
      "rd_bytes (fd_content f) = data" "length data \<le> maxPolicyFileSize"
    with that assms(1) calculation show ?thesis using readPolicyFile_symlink [OF _ r] by blast
  qed
  ultimately show ?thesis using embedded.polls_record [OF assms(2)] by metis
qed

theorem watcher_loads_verified_files_witness:
  "\<exists>ds e'. watchPolicyFile (Load sample_rego) ''/p/l3.rego'' [(real_view 20 ''no'', real_view 20 ''no'')] (Some 10) sample_evaluator = (ds, Some 20, e') \<and>
     prepared e' = Some ''no'' \<and> set ds \<subseteq> {seconds 5, seconds 30}"
proof -
  let ?p = "''/p/l3.rego''"
  let ?vs = "[(real_view 20 ''no'', real_view 20 ''no'')]"
  have rd: "readPolicyFile (real_view 20 ''no'') ?p = Inr (''no'', 20)"
    using sample_path by (intro real_view_read) (simp_all add: maxPolicyFileSize_def)
  have st: "os_stat (real_view 20 ''no'') ?p = Some 20" by (simp add: real_view_def)
  obtain ds m e' where w: "watchPolicyFile (Load sample_rego) ?p ?vs (Some 10) sample_evaluator = (ds, m, e')"
    by (cases "watchPolicyFile (Load sample_rego) ?p ?vs (Some 10) sample_evaluator")
  have "m = Some 20" "prepared e' = Some ''no''"
    using w by (simp_all add: pollPolicyFile_def rd st Load_def rebuild_def sample_rego_def verifyPolicyPackage_def decisionQuery_def sample_evaluator_def)
      auto
  moreover have "set ds \<subseteq> {seconds 5, seconds 30}"
    using watcher_loads_verified_files [OF _ w] by simp
  ultimately show ?thesis using w by blast
qed

text \<open>
  The comparator looks at the stat, not at the time of the file that is then read: when the two
  views differ (a link with a newer target at the stat, the untouched file at the read), the
  unchanged file is loaded again over whatever policy was in force.
\<close>

lemma swapped_stat_reasserts_unchanged_file:
  assumes "os_stat at_stat path = Some t" "seed < t"
    and "readPolicyFile at_read path = Inr (data, seed)" "accepted R data = Some q"
  shows "case pollPolicyFile (Load R) path at_stat at_read (Some seed) e of
    (d, lastMod', e') \<Rightarrow> lastMod' = Some seed \<and> prepared e' = Some q"
proof -
  obtain d m e' where p: "pollPolicyFile (Load R) path at_stat at_read (Some seed) e = (d, m, e')"
    by (cases "pollPolicyFile (Load R) path at_stat at_read (Some seed) e")
  then show ?thesis using embedded.poll_effect [OF p] assms by (simp add: offers_def)
qed

end
