(* ===== verification/Syncer.thy ===== *)
theory Syncer
  imports Opa
begin

text \<open>
  internal/syncer/syncer.go: the etcd policy syncer, a client of the evaluator's \<open>Load\<close>
  through its \<open>onUpdate\<close> callback. What etcd answers (Get results, watch responses, the end
  of a watch) and the clock readings are the inputs of the model; the callback acts on a target
  state that is threaded through.
\<close>

section \<open>Constants and callback\<close>

definition maxPolicySize :: nat where
  "maxPolicySize = 10 * 1024 * 1024"

definition maxWatchEventsPerResponse :: nat where
  "maxWatchEventsPerResponse = 10000"

definition minReloadInterval :: duration where
  "minReloadInterval = 100 * 1000000"

definition watchReconnectDelay :: duration where
  "watchReconnectDelay = 100 * 1000000"

datatype 'err cb_result = CbOk | CbErr 'err | CbPanic string

datatype 'err update_err = NilCallback | UpdateErr 'err | UpdatePanic string

type_synonym ('e, 'err) callback = "string \<Rightarrow> 'e \<Rightarrow> 'err cb_result \<times> 'e"

definition safeOnUpdate :: "('e, 'err) callback option \<Rightarrow> string \<Rightarrow> 'e \<Rightarrow> 'err update_err option \<times> 'e" where
  "safeOnUpdate fn pol e =
     (case fn of
        None \<Rightarrow> (Some NilCallback, e)
      | Some f \<Rightarrow>
          (case f pol e of
             (CbOk, e') \<Rightarrow> (None, e')
           | (CbErr err, e') \<Rightarrow> (Some (UpdateErr err), e')
           | (CbPanic msg, e') \<Rightarrow> (Some (UpdatePanic msg), e')))"

section \<open>State\<close>

text \<open>
  The struct together with the local variables of \<open>watch\<close>, which outlive its reconnect loop.
  \<open>lastReload\<close> is \<open>None\<close> for the zero time. \<open>handed\<close> records the calls of the
  callback in order, with the clock reading that allowed a flush; \<open>client_closes\<close> counts
  the calls of the client's \<open>Close\<close>. Nothing reads either of them.
\<close>

datatype handover = Flushed time string | Resynced string

fun handed_policy :: "handover \<Rightarrow> string" where
  "handed_policy (Flushed t p) = p"
| "handed_policy (Resynced p) = p"

record 'e Syncer =
  has_client :: bool
  sync_key :: string
  sync_timeout :: duration
  stopCh_closed :: bool
  close_done :: bool
  started :: bool
  lastPolicy :: string
  lastReload :: "time option"
  pendingPolicy :: string
  pendingSet :: bool
  target :: 'e
  handed :: "handover list"
  client_closes :: nat

record Config =
  Endpoints :: "string list"
  Key :: string
  Timeout :: duration

datatype connect_err = ConnectFailed

text \<open>\<open>connects\<close>: whether \<open>clientv3.New\<close> gives a client for these endpoints and dial timeout.\<close>

definition New :: "(string list \<Rightarrow> duration \<Rightarrow> bool) \<Rightarrow> Config \<Rightarrow> 'e \<Rightarrow> connect_err + 'e Syncer option" where
  "New connects c e =
     (if Endpoints c = [] then Inr None
      else (let t = if Timeout c \<le> 0 then seconds 5 else Timeout c;
                k = if Key c = [] then ''/l3-firewall/policy'' else Key c
            in if \<not> connects (Endpoints c) t then Inl ConnectFailed
               else Inr (Some \<lparr>has_client = True, sync_key = k, sync_timeout = t, stopCh_closed = False,
                      close_done = False, started = False, lastPolicy = [], lastReload = None,
                      pendingPolicy = [], pendingSet = False, target = e, handed = [], client_closes = 0\<rparr>)))"

section \<open>Loading\<close>

definition applyPolicy :: "string \<Rightarrow> 'e Syncer \<Rightarrow> bool \<times> 'e Syncer" where
  "applyPolicy pol s = (if pol = lastPolicy s then (False, s) else (True, s\<lparr>lastPolicy := pol\<rparr>))"

text \<open>A Get within the timeout: an error, no response, or a list of possibly missing key-values.\<close>

datatype get_result = GetErr | GetNil | GetKvs "string option list"

definition loadCurrent :: "('e, 'err) callback option \<Rightarrow> get_result \<Rightarrow> 'e Syncer \<Rightarrow> string \<times> 'e Syncer" where
  "loadCurrent fn g s =
     (if \<not> has_client s then ([], s)
      else (case g of
        GetErr \<Rightarrow> ([], s)
      | GetNil \<Rightarrow> ([], s)
      | GetKvs [] \<Rightarrow> ([], s)
      | GetKvs (None # kvs) \<Rightarrow> ([], s)
      | GetKvs (Some val # kvs) \<Rightarrow>
          if length val > maxPolicySize then ([], s)
          else (case applyPolicy val s of
                  (False, s1) \<Rightarrow> (val, s1)
                | (True, s1) \<Rightarrow>
                    (val, s1\<lparr>target := snd (safeOnUpdate fn val (target s1)), handed := handed s1 @ [Resynced val]\<rparr>))))"

text \<open>The synchronous part of \<open>Start\<close>; the watch loop then runs from the state it leaves.\<close>

definition Start :: "('e, 'err) callback option \<Rightarrow> get_result \<Rightarrow> 'e Syncer option \<Rightarrow> 'e Syncer option" where
  "Start fn g so =
     (case so of
        None \<Rightarrow> None
      | Some s \<Rightarrow> if started s then Some s else Some ((snd (loadCurrent fn g s))\<lparr>started := True\<rparr>))"

definition Close :: "bool \<Rightarrow> 'e Syncer option \<Rightarrow> bool \<times> 'e Syncer option" where
  "Close client_err so =
     (case so of
        None \<Rightarrow> (False, None)
      | Some s \<Rightarrow>
          if close_done s then (False, Some s)
          else if has_client s then
            (client_err, Some (s\<lparr>close_done := True, stopCh_closed := True, client_closes := Suc (client_closes s)\<rparr>))
          else (False, Some (s\<lparr>close_done := True, stopCh_closed := True\<rparr>)))"

section \<open>Watching\<close>

definition since_reload :: "time \<Rightarrow> 'e Syncer \<Rightarrow> duration" where
  "since_reload now s = (case lastReload s of None \<Rightarrow> max_duration | Some l \<Rightarrow> time_sub now l)"

text \<open>\<open>flushPending\<close> reads the clock for its guard (\<open>now\<close>) and again after the callback (\<open>later\<close>).\<close>

definition flushPending :: "('e, 'err) callback option \<Rightarrow> time \<Rightarrow> time \<Rightarrow> 'e Syncer \<Rightarrow> 'e Syncer" where
  "flushPending fn now later s =
     (if \<not> pendingSet s then s
      else if since_reload now s < minReloadInterval then s
      else s\<lparr>pendingSet := False, target := snd (safeOnUpdate fn (pendingPolicy s) (target s)),
             handed := handed s @ [Flushed now (pendingPolicy s)], lastReload := Some later\<rparr>)"

text \<open>The delay of the timer armed while a policy is pending.\<close>

definition timer_delay :: "time \<Rightarrow> 'e Syncer \<Rightarrow> duration" where
  "timer_delay now s =
     (let d = minReloadInterval - since_reload now s in if d < 1000000 then 1000000 else d)"

datatype event_type = PUT | DELETE

record event =
  ev_type :: event_type
  Kv :: "string option"

definition process_event :: "event option \<Rightarrow> 'e Syncer \<Rightarrow> 'e Syncer" where
  "process_event eo s =
     (case eo of
        None \<Rightarrow> s
      | Some e \<Rightarrow>
          (case Kv e of
             None \<Rightarrow> s
           | Some val \<Rightarrow>
               if ev_type e = DELETE then s
               else if length val > maxPolicySize then s
               else (case applyPolicy val s of
                       (False, s1) \<Rightarrow> s1
                     | (True, s1) \<Rightarrow> s1\<lparr>pendingPolicy := val, pendingSet := True\<rparr>)))"

definition collapse :: "event option list \<Rightarrow> event option list" where
  "collapse events =
     (if length events > maxWatchEventsPerResponse then drop (length events - 1) events else events)"

record WatchResponse =
  wr_err :: bool
  Canceled :: bool
  Events :: "event option list"

text \<open>What a select of the watch loop receives, with the clock readings its flushes make.\<close>

datatype watch_input =
    StopRequested
  | ChannelClosed
  | Response WatchResponse time time time time
  | TimerFired time time

text \<open>What the reconnect path meets when the stream terminated.\<close>

record reconnect =
  ctx_err :: bool
  got :: get_result
  wait_ended :: bool

definition handle_response ::
    "('e, 'err) callback option \<Rightarrow> event option list \<Rightarrow> time \<Rightarrow> time \<Rightarrow> time \<Rightarrow> time \<Rightarrow> 'e Syncer \<Rightarrow> 'e Syncer" where
  "handle_response fn events t1 t1' t2 t2' s =
     flushPending fn t2 t2' (fold process_event (collapse events) (flushPending fn t1 t1' s))"

definition resync :: "('e, 'err) callback option \<Rightarrow> get_result \<Rightarrow> 'e Syncer \<Rightarrow> 'e Syncer" where
  "resync fn g s =
     (case loadCurrent fn g s of
        (current, s1) \<Rightarrow>
          if current \<noteq> [] \<and> pendingSet s1 \<and> pendingPolicy s1 \<noteq> current then s1\<lparr>pendingSet := False\<rparr> else s1)"

text \<open>The reconnect path; the boolean tells whether the loop goes on.\<close>

definition reconnect_step :: "('e, 'err) callback option \<Rightarrow> reconnect \<Rightarrow> 'e Syncer \<Rightarrow> bool \<times> 'e Syncer" where
  "reconnect_step fn r s =
     (if ctx_err r then (False, s) else (\<not> wait_ended r, resync fn (got r) s))"

definition watch_step :: "('e, 'err) callback option \<Rightarrow> watch_input \<times> reconnect \<Rightarrow> 'e Syncer \<Rightarrow> bool \<times> 'e Syncer" where
  "watch_step fn i s =
     (case fst i of
        StopRequested \<Rightarrow> (False, s)
      | ChannelClosed \<Rightarrow> reconnect_step fn (snd i) s
      | Response w t1 t1' t2 t2' \<Rightarrow>
          if wr_err w \<or> Canceled w then reconnect_step fn (snd i) s
          else (True, handle_response fn (Events w) t1 t1' t2 t2' s)
      | TimerFired t t' \<Rightarrow> (True, flushPending fn t t' s))"

fun watch_loop :: "('e, 'err) callback option \<Rightarrow> (watch_input \<times> reconnect) list \<Rightarrow> 'e Syncer \<Rightarrow> bool \<times> 'e Syncer" where
  "watch_loop fn [] s = (True, s)"
| "watch_loop fn (i # is) s =
     (case watch_step fn i s of (goes_on, s1) \<Rightarrow> if goes_on then watch_loop fn is s1 else (False, s1))"

definition watch :: "('e, 'err) callback option \<Rightarrow> (watch_input \<times> reconnect) list \<Rightarrow> 'e Syncer \<Rightarrow> bool \<times> 'e Syncer" where
  "watch fn is s = (if \<not> has_client s then (False, s) else watch_loop fn is s)"

section \<open>What the syncer has seen\<close>

text \<open>The policy contents an event, a Get and an input of the loop deliver, in order.\<close>

definition event_content :: "event option \<Rightarrow> string option" where
  "event_content eo =
     (case eo of
        Some e \<Rightarrow> (case Kv e of Some val \<Rightarrow> if ev_type e = PUT \<and> length val \<le> maxPolicySize then Some val else None | None \<Rightarrow> None)
      | None \<Rightarrow> None)"

definition get_contents :: "get_result \<Rightarrow> string list" where
  "get_contents g = (case g of GetKvs (Some val # kvs) \<Rightarrow> if length val \<le> maxPolicySize then [val] else [] | _ \<Rightarrow> [])"

definition contents :: "watch_input \<times> reconnect \<Rightarrow> string list" where
  "contents i =
     (let re = (if ctx_err (snd i) then [] else get_contents (got (snd i)))
      in case fst i of
           StopRequested \<Rightarrow> []
         | ChannelClosed \<Rightarrow> re
         | Response w t1 t1' t2 t2' \<Rightarrow>
             if wr_err w \<or> Canceled w then re else List.map_filter event_content (collapse (Events w))
         | TimerFired t t' \<Rightarrow> [])"

lemma not_PUT [simp]: "t \<noteq> PUT \<longleftrightarrow> t = DELETE" "t \<noteq> DELETE \<longleftrightarrow> t = PUT"
  by (cases t; simp)+

lemma process_event_content:
  "process_event eo s =
     (case event_content eo of
        None \<Rightarrow> s
      | Some val \<Rightarrow> if val = lastPolicy s then s else s\<lparr>lastPolicy := val, pendingPolicy := val, pendingSet := True\<rparr>)"
  by (auto simp: process_event_def event_content_def applyPolicy_def split: option.split)

lemma loadCurrent_contents:
  assumes "has_client s"
  shows "loadCurrent fn g s =
     (case get_contents g of
        [] \<Rightarrow> ([], s)
      | val # _ \<Rightarrow>
          (val, if val = lastPolicy s then s
                else s\<lparr>lastPolicy := val, target := snd (safeOnUpdate fn val (target s)), handed := handed s @ [Resynced val]\<rparr>))"
  using assms by (auto simp: loadCurrent_def get_contents_def applyPolicy_def split: get_result.split list.split option.split)

lemma get_contents_length: "get_contents g = [] \<or> (\<exists>val. get_contents g = [val])"
  by (auto simp: get_contents_def split: get_result.split list.split option.split)

lemma flush_frame [simp]:
  "lastPolicy (flushPending fn t t' s) = lastPolicy s" "has_client (flushPending fn t t' s) = has_client s"
  by (simp_all add: flushPending_def)

lemma process_event_client [simp]: "has_client (process_event eo s) = has_client s"
  by (simp add: process_event_content split: option.split)

lemma process_events_client [simp]: "has_client (fold process_event es s) = has_client s"
  by (induction es arbitrary: s) simp_all

lemma process_events_last: "lastPolicy (fold process_event es s) = last (lastPolicy s # List.map_filter event_content es)"
  by (induction es arbitrary: s) (simp_all add: List.map_filter_simps process_event_content split: option.split)

lemma resync_last:
  "has_client s \<Longrightarrow> has_client (resync fn g s) \<and> lastPolicy (resync fn g s) = last (lastPolicy s # get_contents g)"
  using get_contents_length [of g] by (auto simp: resync_def loadCurrent_contents)

lemma watch_step_last:
  assumes "watch_step fn i s = (b, s')" "has_client s"
  shows "has_client s' \<and> lastPolicy s' = last (lastPolicy s # contents i)"
  using assms resync_last [of s fn "got (snd i)"]
  by (auto simp: watch_step_def contents_def reconnect_step_def handle_response_def process_events_last Let_def
      split: watch_input.splits if_splits)

lemma last_append_Cons: "last (last (x # xs) # ys) = last (x # xs @ ys)"
  by (induction ys rule: rev_induct) simp_all

lemma watch_loop_last:
  assumes "watch_loop fn is s = (True, s')" "has_client s"
  shows "has_client s' \<and> lastPolicy s' = last (lastPolicy s # concat (map contents is))"
  using assms
proof (induction "is" arbitrary: s)
  case (Cons i "is")
  obtain s1 where s1: "watch_step fn i s = (True, s1)" "watch_loop fn is s1 = (True, s')"
    using Cons.prems(1) by (auto split: prod.splits if_splits)
  note st = watch_step_last [OF s1(1) Cons.prems(2)]
  with Cons.IH [OF s1(2)] show ?case
    using last_append_Cons [of "lastPolicy s" "contents i" "concat (map contents is)"] by simp
qed simp

section \<open>Convergence\<close>

definition load_cb :: "(string \<Rightarrow> 'e \<Rightarrow> 'err option \<times> 'e) \<Rightarrow> ('e, 'err) callback" where
  "load_cb load pol e = (case load pol e of (None, e') \<Rightarrow> (CbOk, e') | (Some err, e') \<Rightarrow> (CbErr err, e'))"

lemma safeOnUpdate_load [simp]: "snd (safeOnUpdate (Some (load_cb load)) pol e) = snd (load pol e)"
  by (auto simp: safeOnUpdate_def load_cb_def split: prod.split option.split)

text \<open>
  The last content seen is pending or was the last one handed over, and a handed-over policy the
  evaluator accepts governs. (An empty content read by a resync leaves an older policy pending.)
\<close>

definition synced :: "(string \<Rightarrow> 'q option) \<Rightarrow> ('e \<Rightarrow> 'q option) \<Rightarrow> 'e Syncer \<Rightarrow> bool" where
  "synced accepts governs s \<longleftrightarrow>
     (lastPolicy s \<noteq> [] \<longrightarrow>
        (if pendingSet s then pendingPolicy s = lastPolicy s
         else handed s \<noteq> [] \<and> handed_policy (last (handed s)) = lastPolicy s)) \<and>
     (\<forall>q. handed s \<noteq> [] \<and> accepts (handed_policy (last (handed s))) = Some q \<longrightarrow> governs (target s) = Some q)"

lemma synced_process: "synced A G s \<Longrightarrow> synced A G (process_event eo s)"
  by (auto simp: synced_def process_event_content split: option.split)

lemma synced_processes: "synced A G s \<Longrightarrow> synced A G (fold process_event es s)"
  by (induction es arbitrary: s) (simp_all add: synced_process)

context policy_loader
begin

lemma synced_flush: "synced accepts governs s \<Longrightarrow> synced accepts governs (flushPending (Some (load_cb load)) t t' s)"
  by (auto simp: synced_def flushPending_def load_governs)

lemma synced_resync:
  "has_client s \<Longrightarrow> synced accepts governs s \<Longrightarrow> synced accepts governs (resync (Some (load_cb load)) g s)"
proof (cases "get_contents g")
  case (Cons val vs)
  assume "has_client s" and sy: "synced accepts governs s"
  with Cons show ?thesis
    by (cases "val = lastPolicy s") (auto simp: resync_def loadCurrent_contents synced_def load_governs)
qed (simp add: resync_def loadCurrent_contents)

lemma synced_step:
  assumes "watch_step (Some (load_cb load)) i s = (b, s')" "has_client s" "synced accepts governs s"
  shows "synced accepts governs s'"
  using assms synced_resync [of s "got (snd i)"]
  by (auto simp: watch_step_def reconnect_step_def handle_response_def synced_flush synced_processes
      split: watch_input.splits if_splits)

lemma synced_loop:
  assumes "watch_loop (Some (load_cb load)) is s = (b, s')" "has_client s" "synced accepts governs s"
  shows "synced accepts governs s'"
  using assms
proof (induction "is" arbitrary: s)
  case (Cons i "is")
  obtain c s1 where s1: "watch_step (Some (load_cb load)) i s = (c, s1)" by (cases "watch_step (Some (load_cb load)) i s")
  show ?case
    using Cons.IH [of s1] Cons.prems s1 synced_step [OF s1] watch_step_last [OF s1] by (auto split: if_splits)
qed simp

text \<open>A flush that the interval allows puts the last content seen in force, if it is a policy.\<close>

lemma flush_governs:
  assumes "synced accepts governs s" "lastPolicy s \<noteq> []" "accepts (lastPolicy s) = Some q"
    and "\<not> pendingSet s \<or> minReloadInterval \<le> since_reload t s"
  shows "governs (target (flushPending (Some (load_cb load)) t t' s)) = Some q"
  using assms by (auto simp: synced_def flushPending_def load_governs)

end

lemma timer_allows_flush:
  assumes "\<forall>l. lastReload s = Some l \<longrightarrow> l \<le> now" "int now + timer_delay now s \<le> int t"
  shows "minReloadInterval \<le> since_reload t s"
  using assms
  by (auto simp: since_reload_def timer_delay_def time_sub_def minReloadInterval_def max_duration_def min_duration_def Let_def
      split: option.splits if_splits)

section \<open>Rate\<close>

fun flush_time :: "handover \<Rightarrow> time option" where
  "flush_time (Flushed t p) = Some t"
| "flush_time (Resynced p) = None"

definition flush_times :: "'e Syncer \<Rightarrow> time list" where
  "flush_times s = List.map_filter flush_time (handed s)"

definition spaced :: "'e Syncer \<Rightarrow> bool" where
  "spaced s \<longleftrightarrow> sorted_wrt (\<lambda>a b. int a + minReloadInterval \<le> int b) (flush_times s) \<and>
     (flush_times s \<noteq> [] \<longrightarrow> (\<exists>l. lastReload s = Some l \<and> (\<forall>t \<in> set (flush_times s). t \<le> l)))"

definition clocks_ok :: "watch_input \<Rightarrow> bool" where
  "clocks_ok i = (case i of Response w t1 t1' t2 t2' \<Rightarrow> t1 \<le> t1' \<and> t2 \<le> t2' | TimerFired t t' \<Rightarrow> t \<le> t' | _ \<Rightarrow> True)"

definition sized :: "'e Syncer \<Rightarrow> bool" where
  "sized s \<longleftrightarrow> length (pendingPolicy s) \<le> maxPolicySize \<and> (\<forall>h \<in> set (handed s). length (handed_policy h) \<le> maxPolicySize)"

abbreviation limited :: "'e Syncer \<Rightarrow> bool" where
  "limited s \<equiv> spaced s \<and> sized s"

lemma flush_times_append [simp]:
  "List.map_filter flush_time (hs @ [Flushed t p]) = List.map_filter flush_time hs @ [t]"
  "List.map_filter flush_time (hs @ [Resynced p]) = List.map_filter flush_time hs"
  by (simp_all add: List.map_filter_def)

lemma elapsed: "minReloadInterval \<le> time_sub t l \<Longrightarrow> int l + minReloadInterval \<le> int t"
  by (simp add: time_sub_def minReloadInterval_def max_duration_def min_duration_def)

lemma spaced_flush:
  assumes "spaced s" "t \<le> t'"
  shows "spaced (flushPending fn t t' s)"
proof (cases "pendingSet s \<and> minReloadInterval \<le> since_reload t s")
  case True
  then have ft: "flush_times (flushPending fn t t' s) = flush_times s @ [t]" "lastReload (flushPending fn t t' s) = Some t'"
    by (simp_all add: flushPending_def flush_times_def)
  have gap: "int a + minReloadInterval \<le> int t" if a: "a \<in> set (flush_times s)" for a
  proof -
    have "flush_times s \<noteq> []" using a by auto
    then obtain l where l: "lastReload s = Some l" "a \<le> l" using assms(1) a by (auto simp: spaced_def)
    with True elapsed [of t l] show ?thesis by (simp add: since_reload_def)
  qed
  have "a \<le> t'" if "a \<in> set (flush_times s)" for a
    using gap [OF that] assms(2) by (simp add: minReloadInterval_def)
  with gap assms show ?thesis by (simp add: spaced_def ft sorted_wrt_append)
qed (use assms in \<open>auto simp: flushPending_def\<close>)

lemma sized_flush: "sized s \<Longrightarrow> sized (flushPending fn t t' s)"
  by (auto simp: flushPending_def sized_def)

lemma event_content_size: "event_content eo = Some val \<Longrightarrow> length val \<le> maxPolicySize"
  by (auto simp: event_content_def split: option.splits if_splits)

lemma get_contents_size: "val \<in> set (get_contents g) \<Longrightarrow> length val \<le> maxPolicySize"
  by (auto simp: get_contents_def split: get_result.splits list.splits option.splits if_splits)

lemma limited_process: "limited s \<Longrightarrow> limited (process_event eo s)"
  using event_content_size [of eo]
  by (auto simp: process_event_content spaced_def sized_def flush_times_def split: option.split)

lemma limited_processes: "limited s \<Longrightarrow> limited (fold process_event es s)"
  by (induction es arbitrary: s) (use limited_process in auto)

lemma limited_load:
  assumes "has_client s" "limited s"
  shows "limited (snd (loadCurrent fn g s))"
proof (cases "get_contents g")
  case (Cons val vs)
  with get_contents_size [of val g] assms show ?thesis
    by (cases "val = lastPolicy s") (auto simp: loadCurrent_contents spaced_def sized_def flush_times_def)
qed (use assms in \<open>simp add: loadCurrent_contents\<close>)

lemma limited_resync: "has_client s \<Longrightarrow> limited s \<Longrightarrow> limited (resync fn g s)"
  using limited_load [of s fn g]
  by (cases "loadCurrent fn g s") (auto simp: resync_def spaced_def sized_def flush_times_def)

lemma limited_step:
  assumes "watch_step fn i s = (b, s')" "has_client s" "limited s" "clocks_ok (fst i)"
  shows "limited s'"
proof (cases "fst i")
  case (Response w t1 t1' t2 t2')
  have a: "limited (flushPending fn t1 t1' s)" using assms Response by (simp add: spaced_flush sized_flush clocks_ok_def)
  have b: "limited (fold process_event (collapse (Events w)) (flushPending fn t1 t1' s))" by (rule limited_processes [OF a])
  have "limited (handle_response fn (Events w) t1 t1' t2 t2' s)"
    using b assms(4) Response by (simp add: handle_response_def spaced_flush sized_flush clocks_ok_def)
  with assms Response limited_resync [of s fn "got (snd i)"] show ?thesis
    by (auto simp: watch_step_def reconnect_step_def split: if_splits)
next
  case (TimerFired t t')
  with assms show ?thesis by (auto simp: watch_step_def spaced_flush sized_flush clocks_ok_def)
qed (use assms limited_resync [of s fn "got (snd i)"] in \<open>auto simp: watch_step_def reconnect_step_def split: if_splits\<close>)

lemma limited_loop:
  assumes "watch_loop fn is s = (b, s')" "has_client s" "limited s" "\<forall>i \<in> set is. clocks_ok (fst i)"
  shows "limited s'"
  using assms
proof (induction "is" arbitrary: s)
  case (Cons i "is")
  obtain c s1 where s1: "watch_step fn i s = (c, s1)" by (cases "watch_step fn i s")
  have "limited s1" using limited_step [OF s1] Cons.prems by simp
  with Cons.IH [of s1] Cons.prems s1 watch_step_last [OF s1] show ?case by (auto split: if_splits)
qed simp

section \<open>Handing over\<close>

text \<open>What happened to the target is exactly the loads of the policies that were handed over.\<close>

definition hands_over :: "(string \<Rightarrow> 'e \<Rightarrow> 'err option \<times> 'e) \<Rightarrow> 'e Syncer \<Rightarrow> 'e Syncer \<Rightarrow> bool" where
  "hands_over load s s' \<longleftrightarrow>
     (\<exists>hs. handed s' = handed s @ hs \<and> target s' = fold (\<lambda>p e. snd (load p e)) (map handed_policy hs) (target s))"

lemma hands_over_trans: "hands_over load s s' \<Longrightarrow> hands_over load s' s'' \<Longrightarrow> hands_over load s s''"
  by (force simp: hands_over_def)

lemma hands_over_none: "handed s' = handed s \<Longrightarrow> target s' = target s \<Longrightarrow> hands_over load s s'"
  by (simp add: hands_over_def)

lemma hands_over_one:
  "handed s' = handed s @ [h] \<Longrightarrow> target s' = snd (load (handed_policy h) (target s)) \<Longrightarrow> hands_over load s s'"
  by (simp add: hands_over_def)

lemma hands_over_flush: "hands_over load s (flushPending (Some (load_cb load)) t t' s)"
  by (cases "pendingSet s \<and> \<not> since_reload t s < minReloadInterval")
    (auto simp: flushPending_def intro: hands_over_none hands_over_one)

lemma hands_over_events: "hands_over load s (fold process_event es s)"
proof -
  have "handed (fold process_event es s) = handed s \<and> target (fold process_event es s) = target s"
    by (induction es arbitrary: s) (auto simp: process_event_content split: option.split)
  then show ?thesis by (simp add: hands_over_none)
qed

lemma hands_over_load:
  assumes "has_client s"
  shows "hands_over load s (snd (loadCurrent (Some (load_cb load)) g s))"
  using assms by (auto simp: loadCurrent_contents intro: hands_over_none hands_over_one split: list.split)

lemma hands_over_resync: "has_client s \<Longrightarrow> hands_over load s (resync (Some (load_cb load)) g s)"
  using hands_over_load [of s load g]
  by (cases "loadCurrent (Some (load_cb load)) g s") (simp add: resync_def hands_over_def)

lemma hands_over_step:
  assumes "watch_step (Some (load_cb load)) i s = (b, s')" "has_client s"
  shows "hands_over load s s'"
proof -
  have r: "hands_over load s (handle_response (Some (load_cb load)) es t1 t1' t2 t2' s)" for es t1 t1' t2 t2'
    unfolding handle_response_def
    by (rule hands_over_trans [OF hands_over_flush hands_over_trans [OF hands_over_events hands_over_flush]])
  show ?thesis
    using assms r hands_over_flush [of load s] hands_over_resync [of s load] hands_over_none [of s s load]
    by (auto simp: watch_step_def reconnect_step_def split: watch_input.splits if_splits)
qed

section \<open>Properties\<close>

lemma New_Start:
  assumes "New connects c e = Inr (Some s0)" "Start fn g (Some s0) = Some s1"
  shows "s1 = (snd (loadCurrent fn g s0))\<lparr>started := True\<rparr>" "has_client s0" "lastPolicy s0 = []" "\<not> pendingSet s0"
    "handed s0 = []" "lastReload s0 = None" "pendingPolicy s0 = []"
  using assms by (auto simp: New_def Start_def Let_def split: if_splits)

lemma started_client:
  assumes "New connects c e = Inr (Some s0)" "Start fn g (Some s0) = Some s1"
  shows "has_client s1 \<and> lastPolicy s1 = last ([] # get_contents g)"
  using New_Start [OF assms] get_contents_length [of g] by (auto simp: loadCurrent_contents)

lemma started_limited:
  assumes "New connects c e = Inr (Some s0)" "Start fn g (Some s0) = Some s1"
  shows "limited s1"
proof -
  note n = New_Start [OF assms]
  have "limited s0" using n by (simp add: spaced_def sized_def flush_times_def List.map_filter_def)
  with limited_load [OF n(2) this, of fn g] n(1) show ?thesis by (simp add: spaced_def sized_def flush_times_def)
qed

context policy_loader
begin

lemma started_synced:
  assumes "New connects c e = Inr (Some s0)" "Start (Some (load_cb load)) g (Some s0) = Some s1"
  shows "synced accepts governs s1"
proof -
  note n = New_Start [OF assms]
  show ?thesis
  proof (cases "get_contents g")
    case (Cons val vs)
    with n show ?thesis by (cases "val = []") (simp_all add: loadCurrent_contents synced_def load_governs)
  qed (use n in \<open>simp add: loadCurrent_contents synced_def\<close>)
qed

lemma converges:
  assumes "New connects c e = Inr (Some s0)" "Start (Some (load_cb load)) g (Some s0) = Some s1"
    and "watch (Some (load_cb load)) is s1 = (True, s)"
    and "v = last ([] # get_contents g @ concat (map contents is))" "v \<noteq> []" "accepts v = Some q"
  shows "synced accepts governs s \<and> lastPolicy s = v"
proof -
  note st = started_client [OF assms(1,2)]
  have w: "watch_loop (Some (load_cb load)) is s1 = (True, s)" using assms(3) st by (simp add: watch_def)
  show ?thesis
    using watch_loop_last [OF w] st synced_loop [OF w _ started_synced [OF assms(1,2)]] assms(4)
      last_append_Cons [of "[]" "get_contents g" "concat (map contents is)"] by simp
qed

end

text \<open>
  C5. The syncer converges to etcd's latest policy. Let \<open>v\<close> be the last policy content that
  reached it (from the initial Get, a watch event or a resync after the stream broke) and let
  the evaluator accept \<open>v\<close>. While the loop runs, either \<open>v\<close> already governs or it is
  the one pending policy; and when the timer that the loop arms then fires, \<open>v\<close> governs.\<close>
theorem syncer_converges:
  assumes "New connects c e = Inr (Some s0)" "Start (Some (load_cb (Load R))) g (Some s0) = Some s1"
    and "watch (Some (load_cb (Load R))) is s1 = (True, s)"
    and "v = last ([] # get_contents g @ concat (map contents is))" "v \<noteq> []" "accepted R v = Some q"
  shows "(if pendingSet s then pendingPolicy s = v else prepared (target s) = Some q) \<and>
    (\<forall>now t t'. (\<forall>l. lastReload s = Some l \<longrightarrow> l \<le> now) \<and> int now + timer_delay now s \<le> int t \<longrightarrow>
       prepared (target (flushPending (Some (load_cb (Load R))) t t' s)) = Some q)"
proof -
  have sy: "synced (accepted R) prepared s" and l: "lastPolicy s = v"
    using embedded.converges [OF assms] by simp_all
  have "if pendingSet s then pendingPolicy s = v else prepared (target s) = Some q"
    using sy l assms(5,6) by (auto simp: synced_def)
  moreover have "prepared (target (flushPending (Some (load_cb (Load R))) t t' s)) = Some q"
    if "(\<forall>l. lastReload s = Some l \<longrightarrow> l \<le> now) \<and> int now + timer_delay now s \<le> int t" for now t t'
    using embedded.flush_governs [OF sy] l assms(5,6) timer_allows_flush [of s now t] that by simp
  ultimately show ?thesis by blast
qed

text \<open>The loads of a start or a resync, and the inputs that terminate the stream and lead to a resync.\<close>

definition resyncs :: "'e Syncer \<Rightarrow> nat" where
  "resyncs s = length (filter (\<lambda>h. flush_time h = None) (handed s))"

definition reconnecting :: "watch_input \<times> reconnect \<Rightarrow> bool" where
  "reconnecting i =
     (case fst i of
        ChannelClosed \<Rightarrow> True
      | Response w t1 t1' t2 t2' \<Rightarrow> wr_err w \<or> Canceled w
      | _ \<Rightarrow> False)"

lemma map_filter_length: "length xs = length (List.map_filter f xs) + length (filter (\<lambda>x. f x = None) xs)"
  by (induction xs) (auto simp: List.map_filter_simps split: option.split)

lemma resyncs_flush [simp]: "resyncs (flushPending fn t t' s) = resyncs s"
  by (simp add: resyncs_def flushPending_def)

lemma resyncs_events [simp]: "resyncs (fold process_event es s) = resyncs s"
proof (induction es arbitrary: s)
  case (Cons e es)
  have "resyncs (process_event e s) = resyncs s"
    by (simp add: resyncs_def process_event_content split: option.split)
  with Cons show ?case by simp
qed simp

lemma resyncs_load: "resyncs (snd (loadCurrent fn g s)) \<le> Suc (resyncs s)"
  by (auto simp: resyncs_def loadCurrent_def applyPolicy_def split: get_result.split list.split option.split)

lemma resyncs_resync: "resyncs (resync fn g s) \<le> Suc (resyncs s)"
  using resyncs_load [of fn g s] by (auto simp: resync_def resyncs_def split: prod.split)

lemma resyncs_step: "watch_step fn i s = (b, s') \<Longrightarrow> resyncs s' \<le> resyncs s + (if reconnecting i then 1 else 0)"
  using resyncs_resync [of fn "got (snd i)" s]
  by (cases "fst i") (auto simp: watch_step_def reconnecting_def reconnect_step_def handle_response_def split: if_splits)

lemma resyncs_loop: "watch_loop fn is s = (b, s') \<Longrightarrow> resyncs s' \<le> resyncs s + length (filter reconnecting is)"
proof (induction "is" arbitrary: s)
  case (Cons i "is")
  obtain c s1 where s1: "watch_step fn i s = (c, s1)" by fastforce
  with Cons.IH [of s1] Cons.prems resyncs_step [OF s1] show ?case by (cases c) (auto split: if_splits)
qed simp

text \<open>
  C23. How often the syncer reloads, whatever etcd sends. The reloads made for watch events (at once
  or by the timer) are spaced: the clock readings that allowed them are pairwise at least 100ms
  apart, also when the watch was re-established between them. The loads made at the start and
  by the resync of a reconnect are outside this limit; there is at most one for the start and one for
  each termination of the stream. No policy above the size limit is handed to the evaluator either way.\<close>
theorem event_reloads_are_spaced:
  assumes "New connects c e = Inr (Some s0)" "Start fn g (Some s0) = Some s1" "watch fn is s1 = (b, s)"
    and "\<forall>i \<in> set is. clocks_ok (fst i)"
  shows "sorted_wrt (\<lambda>a b. int a + minReloadInterval \<le> int b) (flush_times s) \<and>
    length (handed s) \<le> length (flush_times s) + 1 + length (filter reconnecting is) \<and>
    (\<forall>h \<in> set (handed s). length (handed_policy h) \<le> maxPolicySize)"
proof -
  have w: "watch_loop fn is s1 = (b, s)" using assms(3) started_client [OF assms(1,2)] by (simp add: watch_def)
  have "limited s"
    using limited_loop [OF w] started_client [OF assms(1,2)] started_limited [OF assms(1,2)] assms(4) by simp
  moreover have "resyncs s0 = 0" using assms(1) by (auto simp: New_def resyncs_def Let_def split: if_splits)
  then have "resyncs s1 \<le> 1" using assms(2) resyncs_load [of fn g s0] by (auto simp: Start_def resyncs_def split: if_splits)
  then have "resyncs s \<le> 1 + length (filter reconnecting is)" using resyncs_loop [OF w] by simp
  moreover have "length (handed s) = length (flush_times s) + resyncs s"
    unfolding flush_times_def resyncs_def by (rule map_filter_length)
  ultimately show ?thesis by (simp add: spaced_def sized_def)
qed

text \<open>A sample run: an initial policy, one update that is applied at once and one within the interval.\<close>

definition sample_syncer :: "(string, string) Evaluator Syncer" where
  "sample_syncer = \<lparr>has_client = True, sync_key = ''/k'', sync_timeout = seconds 5, stopCh_closed = False,
     close_done = False, started = False, lastPolicy = [], lastReload = None,
     pendingPolicy = [], pendingSet = False, target = sample_evaluator, handed = [], client_closes = 0\<rparr>"

definition sample_put :: "string \<Rightarrow> time \<Rightarrow> watch_input \<times> reconnect" where
  "sample_put pol t =
     (Response \<lparr>wr_err = False, Canceled = False, Events = [Some \<lparr>ev_type = PUT, Kv = Some pol\<rparr>]\<rparr> t t t t,
      \<lparr>ctx_err = False, got = GetErr, wait_ended = False\<rparr>)"

lemma sample_New:
  "New (\<lambda>es t. True) \<lparr>Endpoints = [''e''], Key = ''/k'', Timeout = 0\<rparr> sample_evaluator = Inr (Some sample_syncer)"
  by (simp add: New_def sample_syncer_def)

lemmas sample_run = sample_put_def watch_def watch_step_def handle_response_def collapse_def
  maxWatchEventsPerResponse_def process_event_content event_content_def maxPolicySize_def flushPending_def
  since_reload_def minReloadInterval_def max_duration_def time_sub_def min_duration_def

lemma sample_started:
  "Start (Some (load_cb (Load sample_rego))) (GetKvs [Some ''yes'']) (Some sample_syncer) =
     Some (sample_syncer\<lparr>lastPolicy := ''yes'', target := snd (Load sample_rego ''yes'' sample_evaluator), handed := [Resynced ''yes''], started := True\<rparr>)"
  by (simp add: Start_def loadCurrent_contents sample_syncer_def get_contents_def maxPolicySize_def)

theorem syncer_converges_witness:
  "\<exists>s1 s. Start (Some (load_cb (Load sample_rego))) (GetKvs [Some ''yes'']) (Some sample_syncer) = Some s1 \<and>
     watch (Some (load_cb (Load sample_rego))) [sample_put ''no'' 1000, sample_put ''later'' 2000] s1 = (True, s) \<and>
     pendingSet s \<and> pendingPolicy s = ''later'' \<and>
     prepared (target (flushPending (Some (load_cb (Load sample_rego))) 200000000 200000001 s)) = Some ''later''"
proof -
  let ?cb = "Some (load_cb (Load sample_rego))"
  let ?is = "[sample_put ''no'' 1000, sample_put ''later'' 2000]"
  obtain s1 where s1: "Start ?cb (GetKvs [Some ''yes'']) (Some sample_syncer) = Some s1" using sample_started by blast
  obtain b s where w: "watch ?cb ?is s1 = (b, s)" by (cases "watch ?cb ?is s1")
  have "b" and p: "pendingSet s" "lastReload s = Some 1000"
    using w s1 sample_started by (auto simp: sample_run sample_syncer_def)
  then have w': "watch ?cb ?is s1 = (True, s)" using w by simp
  have v: "''later'' = last ([] # get_contents (GetKvs [Some ''yes'']) @ concat (map contents ?is))"
    by (simp add: sample_put_def contents_def collapse_def maxWatchEventsPerResponse_def List.map_filter_simps event_content_def maxPolicySize_def)
  have a: "accepted sample_rego ''later'' = Some ''later''"
    by (simp add: accepted_def sample_rego_def decisionQuery_def)
  note c = syncer_converges [OF sample_New s1 w' v _ a]
  have "prepared (target (flushPending ?cb 200000000 200000001 s)) = Some ''later''"
  proof (rule c [THEN conjunct2, rule_format, of 2000])
    show "(\<forall>l. lastReload s = Some l \<longrightarrow> l \<le> 2000) \<and> int 2000 + timer_delay 2000 s \<le> int 200000000"
      using p by (simp add: timer_delay_def since_reload_def time_sub_def minReloadInterval_def max_duration_def min_duration_def)
  qed simp
  with c p w' s1 show ?thesis by auto
qed

theorem event_reloads_are_spaced_witness:
  "\<exists>s1 b s. Start (Some (load_cb (Load sample_rego))) (GetKvs [Some ''yes'']) (Some sample_syncer) = Some s1 \<and>
     watch (Some (load_cb (Load sample_rego))) [sample_put ''no'' 1000, sample_put ''later'' 2000] s1 = (b, s) \<and>
     sorted_wrt (\<lambda>a b. int a + minReloadInterval \<le> int b) (flush_times s)"
proof -
  let ?cb = "Some (load_cb (Load sample_rego))"
  let ?is = "[sample_put ''no'' 1000, sample_put ''later'' 2000]"
  obtain s1 where s1: "Start ?cb (GetKvs [Some ''yes'']) (Some sample_syncer) = Some s1" using sample_started by blast
  obtain b s where w: "watch ?cb ?is s1 = (b, s)" by (cases "watch ?cb ?is s1")
  have "\<forall>i \<in> set ?is. clocks_ok (fst i)" by (simp add: sample_put_def clocks_ok_def)
  with event_reloads_are_spaced [OF sample_New s1 w] s1 w show ?thesis by blast
qed

section \<open>Limits of the collapsing\<close>

text \<open>
  An oversized response is reduced to its last event. When that is not a valid put (a delete,
  a missing value, an oversized value), every update of the response is lost, while the same
  events in a response of at most the limit would leave the last valid put pending.
\<close>

lemma collapsed_response_loses_updates:
  assumes "length events > maxWatchEventsPerResponse" "event_content (last events) = None"
  shows "fold process_event (collapse events) s = s"
proof -
  have "drop (length events - 1) events = [last events]"
    using assms(1) by (cases events rule: rev_cases) (auto simp: maxWatchEventsPerResponse_def)
  then show ?thesis using assms by (simp add: collapse_def process_event_content)
qed

text \<open>Reloads made by a resync are not counted: right after one, the next update is reloaded at once.\<close>

lemma resync_reload_is_not_counted:
  assumes "has_client s" "get_contents g = [val]" "val \<noteq> lastPolicy s"
  shows "handed (resync fn g s) = handed s @ [Resynced val] \<and> lastReload (resync fn g s) = lastReload s"
  using assms by (simp add: resync_def loadCurrent_contents)

lemma Close_once:
  assumes "Close err1 (Some s) = (r1, Some s1)" "Close err2 (Some s1) = (r2, Some s2)" "\<not> close_done s"
  shows "stopCh_closed s1 \<and> s2 = s1 \<and> \<not> r2 \<and> client_closes s2 \<le> Suc (client_closes s)"
  using assms by (auto simp: Close_def split: if_splits)

end
