(* ===== verification/Conntrack.thy ===== *)
theory Conntrack
  imports GoNet GoFloat
begin

text \<open>
  internal/conntrack/table.go: the flow table. The Go maps of \<open>Table\<close> are association
  lists; the two mutexes serialise the methods, so each method is one function from the
  table to the table. Every \<open>time.Now()\<close> is an argument, as is the order in which a
  \<open>for range\<close> visits a map. The \<open>int64\<close> counters are kept as unbounded integers: they
  count packets and stay far below the end of the range.
\<close>

section \<open>TCP states\<close>

datatype TCPState =
    TCPSynSent | TCPSynReceived | TCPEstablished | TCPFinWait1 | TCPFinWait2
  | TCPClosing | TCPTimeWait | TcpCloseWait | TCPClosed

fun TCPState_String :: "TCPState \<Rightarrow> string" where
  "TCPState_String TCPSynSent = ''SYN_SENT''"
| "TCPState_String TCPSynReceived = ''SYN_RECEIVED''"
| "TCPState_String TCPEstablished = ''ESTABLISHED''"
| "TCPState_String TCPFinWait1 = ''FIN_WAIT_1''"
| "TCPState_String TCPFinWait2 = ''FIN_WAIT_2''"
| "TCPState_String TCPClosing = ''CLOSING''"
| "TCPState_String TCPTimeWait = ''TIME_WAIT''"
| "TCPState_String TcpCloseWait = ''CLOSE_WAIT''"
| "TCPState_String TCPClosed = ''CLOSED''"

section \<open>Configuration, flows, tables\<close>

record Config =
  MaxEntries :: int
  MaxFlowsPerSrcIP :: int
  IdleTimeout :: duration
  UDPTimeout :: duration
  ICMPTimeout :: duration
  PortScanWindow :: int
  PortScanMaxPorts :: int

definition DefaultConfig :: Config where
  "DefaultConfig = \<lparr>MaxEntries = 65536, MaxFlowsPerSrcIP = 0, IdleTimeout = seconds 300, UDPTimeout = seconds 30,
     ICMPTimeout = seconds 5, PortScanWindow = 10, PortScanMaxPorts = 100\<rparr>"

record Stats =
  Hits :: int
  Created :: int
  Expired :: int
  Evicted :: int
  FlowLimitExceeded :: int

record Flow =
  f_SrcIP :: string
  f_DstIP :: string
  f_Protocol :: string
  f_SrcPort :: uint16
  f_DstPort :: uint16
  Established :: bool
  f_TCPState :: TCPState
  Packets :: int
  created :: time
  lastSeen :: time

definition AgeMs :: "Flow \<Rightarrow> time \<Rightarrow> int" where
  "AgeMs f now = Milliseconds (time_sub now (created f))"

definition LastSeenMs :: "Flow \<Rightarrow> time \<Rightarrow> int" where
  "LastSeenMs f now = Milliseconds (time_sub now (lastSeen f))"

definition SetEstablished :: "time \<Rightarrow> Flow \<Rightarrow> Flow" where
  "SetEstablished now f = f\<lparr>Established := True, lastSeen := now\<rparr>"

definition touch :: "time \<Rightarrow> Flow \<Rightarrow> Flow" where
  "touch now f = f\<lparr>Packets := Packets f + 1, lastSeen := now\<rparr>"

record flowKey =
  k_srcIP :: string
  k_dstIP :: string
  k_protocol :: string
  k_srcPort :: uint16
  k_dstPort :: uint16

definition flowKey_String :: "flowKey \<Rightarrow> string" where
  "flowKey_String k = k_srcIP k @ '':'' @ dec (unat (k_srcPort k)) @ ''-'' @ k_dstIP k @ '':'' @
     dec (unat (k_dstPort k)) @ ''/'' @ k_protocol k"

subsection \<open>The per-source rate ring\<close>

definition connRateWindowSecs :: nat where
  "connRateWindowSecs = 10"

record newConnRate =
  secs :: "nat list"
  counts :: "nat list"

definition new_newConnRate :: newConnRate where
  "new_newConnRate = \<lparr>secs = replicate connRateWindowSecs 0, counts = replicate connRateWindowSecs 0\<rparr>"

definition record_conn :: "time \<Rightarrow> newConnRate \<Rightarrow> newConnRate" where
  "record_conn now r =
     (let sec = time_unix now;
          i = sec mod connRateWindowSecs;
          r1 = (if secs r ! i \<noteq> sec
                then r\<lparr>secs := (secs r)[i := sec], counts := (counts r)[i := 0]\<rparr> else r)
      in r1\<lparr>counts := (counts r1)[i := counts r1 ! i + 1]\<rparr>)"

text \<open>The sum of the buckets the window still covers, and the rate computed from it.\<close>

definition rate_sum :: "time \<Rightarrow> newConnRate \<Rightarrow> nat" where
  "rate_sum now r =
     (let sec = time_unix now
      in foldl (\<lambda>sum i. if secs r ! i \<noteq> 0 \<and> int (secs r ! i) > int sec - int connRateWindowSecs
                        then sum + counts r ! i else sum) 0 [0..<connRateWindowSecs])"

definition rate :: "time \<Rightarrow> newConnRate \<Rightarrow> float64" where
  "rate now r = fl (fl (of_nat (rate_sum now r)) / of_nat connRateWindowSecs)"

record Table =
  flows :: "(flowKey, Flow) gomap"
  cfg :: Config
  stats :: Stats
  srcPorts :: "(string, uint16 list) gomap"
  newConns :: "(string, newConnRate) gomap"
  srcFlowCount :: "(string, int) gomap"

definition no_stats :: Stats where
  "no_stats = \<lparr>Hits = 0, Created = 0, Expired = 0, Evicted = 0, FlowLimitExceeded = 0\<rparr>"

definition effective_config :: "Config \<Rightarrow> Config" where
  "effective_config c = c\<lparr>
     MaxEntries := (if MaxEntries c \<le> 0 then 65536 else MaxEntries c),
     IdleTimeout := (if IdleTimeout c \<le> 0 then seconds 300 else IdleTimeout c),
     UDPTimeout := (if UDPTimeout c \<le> 0 then seconds 30 else UDPTimeout c),
     ICMPTimeout := (if ICMPTimeout c \<le> 0 then seconds 5 else ICMPTimeout c),
     PortScanMaxPorts := (if PortScanMaxPorts c \<le> 0 then 100 else PortScanMaxPorts c)\<rparr>"

definition NewTable :: "Config \<Rightarrow> Table" where
  "NewTable c = \<lparr>flows = [], cfg = effective_config c, stats = no_stats,
     srcPorts = [], newConns = [], srcFlowCount = []\<rparr>"

section \<open>Operations\<close>

definition Len :: "Table \<Rightarrow> nat" where
  "Len t = length (flows t)"

definition idleTimeoutFor :: "Table \<Rightarrow> string \<Rightarrow> duration" where
  "idleTimeoutFor t protocol =
     (if protocol = ''UDP'' then UDPTimeout (cfg t)
      else if protocol = ''ICMP'' then ICMPTimeout (cfg t)
      else IdleTimeout (cfg t))"

definition reachedFlowLimitLocked :: "Table \<Rightarrow> string \<Rightarrow> bool" where
  "reachedFlowLimitLocked t srcIP =
     (if MaxFlowsPerSrcIP (cfg t) \<le> 0 then False
      else MaxFlowsPerSrcIP (cfg t) \<le> gm_get 0 (srcFlowCount t) srcIP)"

definition incrFlowCountLocked :: "string \<Rightarrow> Table \<Rightarrow> Table" where
  "incrFlowCountLocked srcIP t =
     t\<lparr>srcFlowCount := AList.update srcIP (gm_get 0 (srcFlowCount t) srcIP + 1) (srcFlowCount t)\<rparr>"

definition decrFlowCountLocked :: "string \<Rightarrow> Table \<Rightarrow> Table" where
  "decrFlowCountLocked srcIP t =
     (let t1 = t\<lparr>srcFlowCount := AList.update srcIP (gm_get 0 (srcFlowCount t) srcIP - 1) (srcFlowCount t)\<rparr>
      in if gm_get 0 (srcFlowCount t1) srcIP \<le> 0
         then t1\<lparr>srcFlowCount := AList.delete srcIP (srcFlowCount t1),
                 srcPorts := AList.delete srcIP (srcPorts t1),
                 newConns := AList.delete srcIP (newConns t1)\<rparr>
         else t1)"

definition recordNewConn :: "time \<Rightarrow> string \<Rightarrow> Table \<Rightarrow> Table" where
  "recordNewConn now srcIP t =
     (let r = (case map_of (newConns t) srcIP of None \<Rightarrow> new_newConnRate | Some r \<Rightarrow> r)
      in t\<lparr>newConns := AList.update srcIP (record_conn now r) (newConns t)\<rparr>)"

definition NewConnectionRate :: "time \<Rightarrow> Table \<Rightarrow> string \<Rightarrow> float64" where
  "NewConnectionRate now t ip =
     (let srcIP = normalizeIP ip
      in case map_of (newConns t) srcIP of None \<Rightarrow> 0 | Some r \<Rightarrow> rate now r)"

text \<open>Removing one flow and the source's share of the companion maps.\<close>

definition remove_flow :: "flowKey \<Rightarrow> Table \<Rightarrow> Table" where
  "remove_flow key t = decrFlowCountLocked (k_srcIP key) (t\<lparr>flows := AList.delete key (flows t)\<rparr>)"

definition evictOneLocked :: "flowKey list \<Rightarrow> Table \<Rightarrow> Table" where
  "evictOneLocked ord t =
     (case sampled_oldest lastSeen ord (flows t) of
        None \<Rightarrow> t
      | Some oldestKey \<Rightarrow> remove_flow oldestKey t)"

text \<open>The clock readings of one call: the flow's creation, its last use, the rate ring.\<close>

record call_times =
  at_created :: time
  at_seen :: time
  at_rate :: time

definition new_flow :: "call_times \<Rightarrow> flowKey \<Rightarrow> Flow" where
  "new_flow ct key = \<lparr>f_SrcIP = k_srcIP key, f_DstIP = k_dstIP key, f_Protocol = k_protocol key,
     f_SrcPort = k_srcPort key, f_DstPort = k_dstPort key, Established = False, f_TCPState = TCPSynSent,
     Packets = 1, created = at_created ct, lastSeen = at_seen ct\<rparr>"

definition flow_key :: "string \<Rightarrow> string \<Rightarrow> string \<Rightarrow> uint16 \<Rightarrow> uint16 \<Rightarrow> flowKey" where
  "flow_key srcIP dstIP protocol srcPort dstPort =
     \<lparr>k_srcIP = normalizeIP srcIP, k_dstIP = normalizeIP dstIP, k_protocol = protocol,
      k_srcPort = srcPort, k_dstPort = dstPort\<rparr>"

text \<open>The insertion both lookup methods share: room first, then the flow and its counts.\<close>

definition make_room :: "flowKey list \<Rightarrow> Table \<Rightarrow> Table" where
  "make_room ord t =
     (if MaxEntries (cfg t) \<le> int (length (flows t))
      then (let t1 = evictOneLocked ord t in t1\<lparr>stats := (stats t1)\<lparr>Evicted := Evicted (stats t1) + 1\<rparr>\<rparr>)
      else t)"

definition insert_flow :: "call_times \<Rightarrow> flowKey \<Rightarrow> Table \<Rightarrow> Table" where
  "insert_flow ct key t =
     (let t1 = t\<lparr>flows := AList.update key (new_flow ct key) (flows t),
                 stats := (stats t)\<lparr>Created := Created (stats t) + 1\<rparr>\<rparr>
      in recordNewConn (at_rate ct) (k_srcIP key) (incrFlowCountLocked (k_srcIP key) t1))"

definition LookupOrCreate ::
  "call_times \<Rightarrow> flowKey list \<Rightarrow> string \<Rightarrow> string \<Rightarrow> string \<Rightarrow> uint16 \<Rightarrow> uint16 \<Rightarrow> Table \<Rightarrow> Flow option \<times> Table" where
  "LookupOrCreate ct ord srcIP dstIP protocol srcPort dstPort t =
     (let key = flow_key srcIP dstIP protocol srcPort dstPort
      in case map_of (flows t) key of
           Some f \<Rightarrow>
             (let f' = touch (at_seen ct) f
              in (Some f', t\<lparr>flows := AList.update key f' (flows t),
                            stats := (stats t)\<lparr>Hits := Hits (stats t) + 1\<rparr>\<rparr>))
         | None \<Rightarrow>
             if reachedFlowLimitLocked t (k_srcIP key)
             then (None, t\<lparr>stats := (stats t)\<lparr>FlowLimitExceeded := FlowLimitExceeded (stats t) + 1\<rparr>\<rparr>)
             else (Some (new_flow ct key), insert_flow ct key (make_room ord t)))"

text \<open>The switch of \<open>UpdateTCPState\<close>, in the order of its cases, on the flow's state and mark.\<close>

definition set_state :: "TCPState \<Rightarrow> Flow \<Rightarrow> Flow" where
  "set_state s f = f\<lparr>f_TCPState := s\<rparr>"

definition close_flow :: "Flow \<Rightarrow> Flow" where
  "close_flow f = f\<lparr>f_TCPState := TCPClosed, Established := False\<rparr>"

definition establish_flow :: "Flow \<Rightarrow> Flow" where
  "establish_flow f = f\<lparr>f_TCPState := TCPEstablished, Established := True\<rparr>"

definition tcp_switch :: "bool \<Rightarrow> bool \<Rightarrow> bool \<Rightarrow> bool \<Rightarrow> Flow \<Rightarrow> Flow" where
  "tcp_switch syn ack rst fin f =
     (if rst then close_flow f
      else if syn \<and> ack \<and> \<not> fin then
        (if f_TCPState f = TCPSynSent then establish_flow f else f)
      else if syn \<and> \<not> ack \<and> \<not> fin then
        (if f_TCPState f = TCPSynSent then set_state TCPSynReceived f else f)
      else if fin \<and> ack then
        (case f_TCPState f of
           TCPSynSent \<Rightarrow> set_state TCPFinWait1 f
         | TCPSynReceived \<Rightarrow> set_state TCPFinWait1 f
         | TCPEstablished \<Rightarrow> set_state TCPFinWait1 f
         | TCPFinWait1 \<Rightarrow> set_state TCPFinWait2 f
         | TCPFinWait2 \<Rightarrow> set_state TCPTimeWait f
         | TcpCloseWait \<Rightarrow> close_flow f
         | _ \<Rightarrow> f)
      else if fin \<and> \<not> ack then
        (case f_TCPState f of
           TCPEstablished \<Rightarrow> set_state TCPFinWait1 f
         | TCPFinWait1 \<Rightarrow> set_state TCPClosing f
         | _ \<Rightarrow> f)
      else if ack \<and> \<not> syn \<and> \<not> fin \<and> \<not> rst then
        (case f_TCPState f of
           TCPSynSent \<Rightarrow> establish_flow f
         | TCPFinWait1 \<Rightarrow> set_state TCPFinWait2 f
         | TCPClosing \<Rightarrow> set_state TCPTimeWait f
         | TCPTimeWait \<Rightarrow> close_flow f
         | _ \<Rightarrow> f)
      else f)"

text \<open>The assignment behind the switch, for a flow this call created.\<close>

definition server_side :: "bool \<Rightarrow> string \<Rightarrow> bool \<Rightarrow> bool \<Rightarrow> bool \<Rightarrow> Flow \<Rightarrow> Flow" where
  "server_side isNew protocol syn rst fin f =
     (if isNew \<and> protocol = ''TCP'' \<and> \<not> syn \<and> \<not> rst \<and> \<not> fin then set_state TCPSynReceived f else f)"

definition UpdateTCPState ::
  "call_times \<Rightarrow> flowKey list \<Rightarrow> string \<Rightarrow> string \<Rightarrow> string \<Rightarrow> uint16 \<Rightarrow> uint16 \<Rightarrow>
   bool \<Rightarrow> bool \<Rightarrow> bool \<Rightarrow> bool \<Rightarrow> Table \<Rightarrow> Flow option \<times> Table" where
  "UpdateTCPState ct ord srcIP dstIP protocol srcPort dstPort syn ack rst fin t =
     (let key = flow_key srcIP dstIP protocol srcPort dstPort
      in case map_of (flows t) key of
           Some f \<Rightarrow>
             (let f' = server_side False protocol syn rst fin (tcp_switch syn ack rst fin (touch (at_seen ct) f))
              in (Some f', t\<lparr>flows := AList.update key f' (flows t),
                            stats := (stats t)\<lparr>Hits := Hits (stats t) + 1\<rparr>\<rparr>))
         | None \<Rightarrow>
             if reachedFlowLimitLocked t (k_srcIP key)
             then (None, t\<lparr>stats := (stats t)\<lparr>FlowLimitExceeded := FlowLimitExceeded (stats t) + 1\<rparr>\<rparr>)
             else (let f' = server_side True protocol syn rst fin (tcp_switch syn ack rst fin (new_flow ct key));
                       t1 = insert_flow ct key (make_room ord t)
                   in (Some f', t1\<lparr>flows := AList.update key f' (flows t1)\<rparr>)))"

definition Delete :: "string \<Rightarrow> string \<Rightarrow> string \<Rightarrow> uint16 \<Rightarrow> uint16 \<Rightarrow> Table \<Rightarrow> Table" where
  "Delete srcIP dstIP protocol srcPort dstPort t =
     (let key = flow_key srcIP dstIP protocol srcPort dstPort
      in case map_of (flows t) key of
           None \<Rightarrow> t
         | Some f \<Rightarrow> remove_flow key t)"

definition is_idle :: "time \<Rightarrow> Table \<Rightarrow> Flow \<Rightarrow> bool" where
  "is_idle now t f \<longleftrightarrow> time_sub now (lastSeen f) > idleTimeoutFor t (f_Protocol f)"

definition expired_keys :: "time \<Rightarrow> flowKey list \<Rightarrow> Table \<Rightarrow> flowKey list" where
  "expired_keys now ord t =
     filter (\<lambda>key. case map_of (flows t) key of None \<Rightarrow> False | Some f \<Rightarrow> is_idle now t f) ord"

definition Expire :: "time \<Rightarrow> flowKey list \<Rightarrow> Table \<Rightarrow> nat \<times> Table" where
  "Expire now ord t =
     (let expired = expired_keys now ord t;
          t1 = foldl (\<lambda>s key. remove_flow key s) t expired
      in (length expired,
          t1\<lparr>stats := (stats t1)\<lparr>Expired := Expired (stats t1) + int (length expired)\<rparr>\<rparr>))"

definition RecordDestPort :: "string \<Rightarrow> uint16 \<Rightarrow> Table \<Rightarrow> Table" where
  "RecordDestPort ip dstPort t =
     (let srcIP = normalizeIP ip;
          ports = gm_get [] (srcPorts t) srcIP
      in if dstPort \<in> set ports then t
         else if PortScanMaxPorts (cfg t) \<le> int (length ports) then t
         else t\<lparr>srcPorts := AList.update srcIP (ports @ [dstPort]) (srcPorts t)\<rparr>)"

definition GetRecentDestPorts :: "Table \<Rightarrow> string \<Rightarrow> uint16 list" where
  "GetRecentDestPorts t ip = gm_get [] (srcPorts t) (normalizeIP ip)"

definition GetSrcFlowCount :: "Table \<Rightarrow> string \<Rightarrow> int" where
  "GetSrcFlowCount t srcIP = gm_get 0 (srcFlowCount t) srcIP"

section \<open>The invariant of the table\<close>

definition src_keys :: "(flowKey, Flow) gomap \<Rightarrow> string \<Rightarrow> flowKey set" where
  "src_keys m ip = {k \<in> gm_keys m. k_srcIP k = ip}"

definition flow_matches :: "flowKey \<Rightarrow> Flow \<Rightarrow> bool" where
  "flow_matches k f \<longleftrightarrow> f_SrcIP f = k_srcIP k \<and> f_DstIP f = k_dstIP k \<and> f_Protocol f = k_protocol k \<and>
     f_SrcPort f = k_srcPort k \<and> f_DstPort f = k_dstPort k \<and> 1 \<le> Packets f"

definition key_normal :: "flowKey \<Rightarrow> bool" where
  "key_normal k \<longleftrightarrow> normalizeIP (k_srcIP k) = k_srcIP k \<and> normalizeIP (k_dstIP k) = k_dstIP k"

definition ring_ok :: "newConnRate \<Rightarrow> bool" where
  "ring_ok r \<longleftrightarrow> length (secs r) = connRateWindowSecs \<and> length (counts r) = connRateWindowSecs"

definition config_ok :: "Config \<Rightarrow> bool" where
  "config_ok c \<longleftrightarrow> 1 \<le> MaxEntries c \<and> 0 < IdleTimeout c \<and> 0 < UDPTimeout c \<and> 0 < ICMPTimeout c \<and> 1 \<le> PortScanMaxPorts c"

text \<open>The companion maps agree with the flows: counts per source, and a ring exactly for the counted sources.\<close>

definition counts_ok :: "Table \<Rightarrow> bool" where
  "counts_ok t \<longleftrightarrow> gm_wf (srcFlowCount t) \<and> gm_wf (newConns t) \<and>
     (\<forall>ip. map_of (srcFlowCount t) ip =
        (let n = card (src_keys (flows t) ip) in if n = 0 then None else Some (int n))) \<and>
     gm_keys (newConns t) = gm_keys (srcFlowCount t) \<and>
     (\<forall>ip r. map_of (newConns t) ip = Some r \<longrightarrow> ring_ok r)"

definition flows_ok :: "Table \<Rightarrow> bool" where
  "flows_ok t \<longleftrightarrow> gm_wf (flows t) \<and> (\<forall>k f. map_of (flows t) k = Some f \<longrightarrow> flow_matches k f \<and> key_normal k)"

definition ports_ok :: "Table \<Rightarrow> bool" where
  "ports_ok t \<longleftrightarrow> gm_wf (srcPorts t) \<and>
     (\<forall>ip ports. map_of (srcPorts t) ip = Some ports \<longrightarrow>
        ports \<noteq> [] \<and> distinct ports \<and> int (length ports) \<le> PortScanMaxPorts (cfg t))"

definition limits_ok :: "Table \<Rightarrow> bool" where
  "limits_ok t \<longleftrightarrow> int (length (flows t)) \<le> MaxEntries (cfg t) \<and>
     (0 < MaxFlowsPerSrcIP (cfg t) \<longrightarrow> (\<forall>ip. int (card (src_keys (flows t) ip)) \<le> MaxFlowsPerSrcIP (cfg t)))"

definition stats_ok :: "Table \<Rightarrow> bool" where
  "stats_ok t \<longleftrightarrow> int (length (flows t)) + Expired (stats t) + Evicted (stats t) \<le> Created (stats t)"

definition table_inv :: "Table \<Rightarrow> bool" where
  "table_inv t \<longleftrightarrow> config_ok (cfg t) \<and> flows_ok t \<and> counts_ok t \<and> ports_ok t \<and> limits_ok t \<and> stats_ok t"

lemmas table_inv_defs = table_inv_def flows_ok_def counts_ok_def ports_ok_def limits_ok_def stats_ok_def

lemma src_keys_finite [simp]: "finite (src_keys m ip)"
  by (simp add: src_keys_def)

lemma src_keys_delete: "src_keys (AList.delete k m) ip = src_keys m ip - {k}"
  by (auto simp: src_keys_def gm_keys_delete)

lemma src_keys_update:
  "src_keys (AList.update k f m) ip = (if k_srcIP k = ip then insert k (src_keys m ip) else src_keys m ip)"
  by (auto simp: src_keys_def gm_keys_update)

lemma card_src_keys_delete:
  "k \<in> gm_keys m \<Longrightarrow> card (src_keys (AList.delete k m) ip) =
     (if k_srcIP k = ip then card (src_keys m ip) - 1 else card (src_keys m ip))"
  unfolding src_keys_delete card_Diff_singleton_if by (simp add: src_keys_def)

lemma card_src_keys_update:
  "k \<notin> gm_keys m \<Longrightarrow> card (src_keys (AList.update k f m) ip) =
     (if k_srcIP k = ip then Suc (card (src_keys m ip)) else card (src_keys m ip))"
  unfolding src_keys_update by (simp add: src_keys_def)

lemma src_keys_pos: "k \<in> gm_keys m \<Longrightarrow> 0 < card (src_keys m (k_srcIP k))"
  by (auto simp: src_keys_def card_gt_0_iff)

lemma counts_ok_get: "counts_ok t \<Longrightarrow> gm_get 0 (srcFlowCount t) ip = int (card (src_keys (flows t) ip))"
  by (auto simp: counts_ok_def gm_get_def Let_def)

lemma counts_ok_keys: "counts_ok t \<Longrightarrow> ip \<in> gm_keys (srcFlowCount t) \<longleftrightarrow> src_keys (flows t) ip \<noteq> {}"
  using gm_lookup_None_iff [of "srcFlowCount t" ip] by (simp add: counts_ok_def Let_def split: if_splits)

section \<open>Removing a flow\<close>

lemma remove_flow_other [simp]:
  "flows (remove_flow k t) = AList.delete k (flows t)" "cfg (remove_flow k t) = cfg t" "stats (remove_flow k t) = stats t"
  by (simp_all add: remove_flow_def decrFlowCountLocked_def Let_def)

lemma remove_flow_srcPorts:
  "gm_wf (srcPorts t) \<Longrightarrow> gm_wf (srcPorts (remove_flow k t))"
  "map_of (srcPorts (remove_flow k t)) ip = Some ports \<Longrightarrow> map_of (srcPorts t) ip = Some ports"
  by (auto simp: remove_flow_def decrFlowCountLocked_def Let_def gm_lookup_delete split: if_splits)

lemma remove_flow_counts:
  assumes "counts_ok t" "k \<in> gm_keys (flows t)"
  shows "counts_ok (remove_flow k t)"
proof -
  let ?ip = "k_srcIP k"
  have n: "gm_get 0 (srcFlowCount t) ?ip = int (card (src_keys (flows t) ?ip))" "0 < card (src_keys (flows t) ?ip)"
    using counts_ok_get [OF assms(1)] src_keys_pos [OF assms(2)] by auto
  have wf: "gm_wf (srcFlowCount t)" "gm_wf (newConns t)" and keys: "gm_keys (newConns t) = gm_keys (srcFlowCount t)"
    and rings: "\<And>ip r. map_of (newConns t) ip = Some r \<Longrightarrow> ring_ok r"
    and count: "\<And>ip. map_of (srcFlowCount t) ip =
        (let n = card (src_keys (flows t) ip) in if n = 0 then None else Some (int n))"
    using assms(1) by (auto simp: counts_ok_def)
  have ip: "?ip \<in> gm_keys (srcFlowCount t)"
    using counts_ok_keys [OF assms(1), of ?ip] n(2) by auto
  show ?thesis
  proof (cases "card (src_keys (flows t) ?ip) = 1")
    case True
    with n show ?thesis
      unfolding counts_ok_def remove_flow_other
      by (auto simp: remove_flow_def decrFlowCountLocked_def Let_def gm_simps wf keys rings count
          card_src_keys_delete [OF assms(2)] split: if_splits)
  next
    case False
    with n ip show ?thesis
      unfolding counts_ok_def remove_flow_other
      by (auto simp: remove_flow_def decrFlowCountLocked_def Let_def gm_simps wf keys rings count
          card_src_keys_delete [OF assms(2)] split: if_splits)
  qed
qed

lemma remove_flow_flows_ok: "flows_ok t \<Longrightarrow> flows_ok (remove_flow k t)"
  by (auto simp: flows_ok_def gm_simps split: if_splits)

lemma remove_flow_ports_ok: "ports_ok t \<Longrightarrow> ports_ok (remove_flow k t)"
  using remove_flow_srcPorts [where t = t and k = k] unfolding ports_ok_def remove_flow_other by blast

lemma remove_flow_limits_ok:
  assumes "limits_ok t" "gm_wf (flows t)" "k \<in> gm_keys (flows t)"
  shows "limits_ok (remove_flow k t)"
proof -
  have "card (src_keys (AList.delete k (flows t)) ip) \<le> card (src_keys (flows t) ip)" for ip
    by (simp add: src_keys_delete card_Diff1_le)
  then have "int (card (src_keys (AList.delete k (flows t)) ip)) \<le> int (card (src_keys (flows t) ip))" for ip
    by simp
  moreover have "length (AList.delete k (flows t)) \<le> length (flows t)"
    using assms by (simp add: gm_simps)
  ultimately show ?thesis using assms(1) unfolding limits_ok_def remove_flow_other
    by (meson order_trans of_nat_mono)
qed

section \<open>Eviction\<close>

interpretation oldest_flow: evict_policy "sampled_oldest lastSeen"
  by (rule sampled_oldest_policy)

lemma evictOneLocked_flows: "flows (evictOneLocked ord t) = evict (sampled_oldest lastSeen) ord (flows t)"
  by (simp add: evictOneLocked_def evict_def split: option.split)

lemma evictOneLocked_other [simp]: "cfg (evictOneLocked ord t) = cfg t" "stats (evictOneLocked ord t) = stats t"
  by (simp_all add: evictOneLocked_def split: option.split)

lemma evictOneLocked_keeps:
  assumes "flows_ok t" "counts_ok t" "ports_ok t" "limits_ok t" "gm_enum ord (flows t)"
  shows "flows_ok (evictOneLocked ord t) \<and> counts_ok (evictOneLocked ord t) \<and>
    ports_ok (evictOneLocked ord t) \<and> limits_ok (evictOneLocked ord t)"
proof (cases "sampled_oldest lastSeen ord (flows t)")
  case None
  with assms show ?thesis by (simp add: evictOneLocked_def)
next
  case (Some k)
  with oldest_flow.victim_key [OF assms(5)] have "k \<in> gm_keys (flows t)" by blast
  with assms Some show ?thesis
    by (simp add: evictOneLocked_def remove_flow_counts remove_flow_flows_ok remove_flow_ports_ok
        remove_flow_limits_ok flows_ok_def [of t])
qed

lemma make_room_other [simp]: "cfg (make_room ord t) = cfg t"
  by (simp add: make_room_def Let_def)

lemma ok_stats_update:
  "flows_ok (t\<lparr>stats := s\<rparr>) = flows_ok t" "counts_ok (t\<lparr>stats := s\<rparr>) = counts_ok t"
  "ports_ok (t\<lparr>stats := s\<rparr>) = ports_ok t" "limits_ok (t\<lparr>stats := s\<rparr>) = limits_ok t"
  by (simp_all add: flows_ok_def counts_ok_def ports_ok_def limits_ok_def)

lemma make_room_inv:
  assumes inv: "table_inv t" and ord: "gm_enum ord (flows t)"
  shows "table_inv (make_room ord t) \<and> int (length (flows (make_room ord t))) < MaxEntries (cfg t)"
proof (cases "MaxEntries (cfg t) \<le> int (length (flows t))")
  case False
  with inv show ?thesis by (simp add: make_room_def)
next
  case True
  have "gm_wf (flows t)" "1 \<le> MaxEntries (cfg t)" "int (length (flows t)) \<le> MaxEntries (cfg t)"
    using inv by (auto simp: table_inv_defs config_ok_def)
  with True have len: "length (flows (evictOneLocked ord t)) + 1 = length (flows t)"
    using oldest_flow.evict_length [of "flows t" ord] ord by (simp add: evictOneLocked_flows)
  have "flows_ok (evictOneLocked ord t) \<and> counts_ok (evictOneLocked ord t) \<and>
    ports_ok (evictOneLocked ord t) \<and> limits_ok (evictOneLocked ord t)"
    using inv ord by (intro evictOneLocked_keeps) (simp_all add: table_inv_def)
  with True len inv show ?thesis
    by (simp add: make_room_def Let_def table_inv_def ok_stats_update stats_ok_def limits_ok_def [of t])
qed

lemma make_room_keys: "gm_keys (flows (make_room ord t)) \<subseteq> gm_keys (flows t)"
  using oldest_flow.evict_keys_subset [of ord "flows t"]
  by (simp add: make_room_def Let_def evictOneLocked_flows)

lemma src_keys_mono: "gm_keys m \<subseteq> gm_keys m' \<Longrightarrow> card (src_keys m ip) \<le> card (src_keys m' ip)"
  by (intro card_mono) (auto simp: src_keys_def)

section \<open>Inserting a flow\<close>

lemma record_conn_ring_ok [simp]: "ring_ok r \<Longrightarrow> ring_ok (record_conn now r)"
  by (simp add: ring_ok_def record_conn_def Let_def)

lemma new_newConnRate_ok [simp]: "ring_ok new_newConnRate"
  by (simp add: ring_ok_def new_newConnRate_def)

lemma insert_flow_simps [simp]:
  "flows (insert_flow ct key t) = AList.update key (new_flow ct key) (flows t)"
  "cfg (insert_flow ct key t) = cfg t" "srcPorts (insert_flow ct key t) = srcPorts t"
  "stats (insert_flow ct key t) = (stats t)\<lparr>Created := Created (stats t) + 1\<rparr>"
  by (simp_all add: insert_flow_def recordNewConn_def incrFlowCountLocked_def Let_def)

lemma new_flow_matches [simp]: "flow_matches key (new_flow ct key)"
  by (simp add: flow_matches_def new_flow_def)

lemma insert_flow_counts:
  assumes "counts_ok t" "key \<notin> gm_keys (flows t)"
  shows "counts_ok (insert_flow ct key t)"
proof -
  have wf: "gm_wf (srcFlowCount t)" "gm_wf (newConns t)" and keys: "gm_keys (newConns t) = gm_keys (srcFlowCount t)"
    and rings: "\<And>ip r. map_of (newConns t) ip = Some r \<Longrightarrow> ring_ok r"
    and count: "\<And>ip. map_of (srcFlowCount t) ip =
        (let n = card (src_keys (flows t) ip) in if n = 0 then None else Some (int n))"
    using assms(1) by (auto simp: counts_ok_def)
  have "ring_ok (record_conn (at_rate ct) (case map_of (newConns t) (k_srcIP key) of None \<Rightarrow> new_newConnRate | Some r \<Rightarrow> r))"
    using rings by (auto split: option.split)
  then show ?thesis
    unfolding counts_ok_def insert_flow_simps
    by (auto simp: insert_flow_def recordNewConn_def incrFlowCountLocked_def Let_def gm_simps wf keys rings count
        counts_ok_get [OF assms(1)] card_src_keys_update [OF assms(2)] split: if_splits)
qed

lemma insert_flow_inv:
  assumes inv: "table_inv t" and key: "key \<notin> gm_keys (flows t)" "key_normal key"
    and room: "int (length (flows t)) < MaxEntries (cfg t)"
    and limit: "0 < MaxFlowsPerSrcIP (cfg t) \<Longrightarrow> int (card (src_keys (flows t) (k_srcIP key))) < MaxFlowsPerSrcIP (cfg t)"
  shows "table_inv (insert_flow ct key t)"
proof -
  have "flows_ok (insert_flow ct key t)"
    using inv key by (auto simp: table_inv_def flows_ok_def gm_simps)
  moreover have "limits_ok (insert_flow ct key t)"
    using inv key room limit by (auto simp: table_inv_def limits_ok_def gm_simps card_src_keys_update)
  moreover have "stats_ok (insert_flow ct key t)"
    using inv key by (simp add: table_inv_def stats_ok_def gm_simps)
  moreover have "ports_ok (insert_flow ct key t)"
    using inv by (simp add: table_inv_def ports_ok_def)
  ultimately show ?thesis
    using inv insert_flow_counts [OF _ key(1)] by (simp add: table_inv_def)
qed

section \<open>Every operation keeps the invariant\<close>

lemma update_flow_inv:
  assumes "table_inv t" "map_of (flows t) key = Some f" "flow_matches key f'"
  shows "table_inv (t\<lparr>flows := AList.update key f' (flows t)\<rparr>)"
proof -
  have key: "key \<in> gm_keys (flows t)" "key_normal key"
    using gm_lookup_Some_key [OF assms(2)] assms(1,2) by (simp_all add: table_inv_def flows_ok_def)
  then have src: "src_keys (AList.update key f' (flows t)) ip = src_keys (flows t) ip" for ip
    by (auto simp: src_keys_def gm_keys_update)
  have "flows_ok (t\<lparr>flows := AList.update key f' (flows t)\<rparr>)"
    using key assms by (auto simp: table_inv_def flows_ok_def gm_lookup_update)
  with key assms(1) show ?thesis
    by (simp add: table_inv_def counts_ok_def ports_ok_def limits_ok_def stats_ok_def gm_length_update src)
qed

lemma table_inv_stats_hits [simp]:
  "table_inv (t\<lparr>stats := (stats t)\<lparr>Hits := h\<rparr>\<rparr>) = table_inv t"
  "table_inv (t\<lparr>stats := (stats t)\<lparr>FlowLimitExceeded := l\<rparr>\<rparr>) = table_inv t"
  by (simp_all add: table_inv_defs)

lemma hit_inv:
  assumes "table_inv t" "map_of (flows t) key = Some f" "flow_matches key f'"
  shows "table_inv (t\<lparr>flows := AList.update key f' (flows t), stats := (stats t)\<lparr>Hits := h\<rparr>\<rparr>)"
  using update_flow_inv [OF assms] table_inv_stats_hits(1) [where t = "t\<lparr>flows := AList.update key f' (flows t)\<rparr>" and h = h]
  by simp

lemma touch_matches [simp]: "flow_matches key f \<Longrightarrow> flow_matches key (touch now f)"
  by (simp add: flow_matches_def touch_def)

lemma tcp_switch_fields [simp]:
  "f_SrcIP (tcp_switch s a r n f) = f_SrcIP f" "f_DstIP (tcp_switch s a r n f) = f_DstIP f"
  "f_Protocol (tcp_switch s a r n f) = f_Protocol f" "f_SrcPort (tcp_switch s a r n f) = f_SrcPort f"
  "f_DstPort (tcp_switch s a r n f) = f_DstPort f" "Packets (tcp_switch s a r n f) = Packets f"
  "created (tcp_switch s a r n f) = created f" "lastSeen (tcp_switch s a r n f) = lastSeen f"
  by (simp_all add: tcp_switch_def set_state_def close_flow_def establish_flow_def split: TCPState.split)

lemma server_side_fields [simp]:
  "f_SrcIP (server_side i p s r n f) = f_SrcIP f" "f_DstIP (server_side i p s r n f) = f_DstIP f"
  "f_Protocol (server_side i p s r n f) = f_Protocol f" "f_SrcPort (server_side i p s r n f) = f_SrcPort f"
  "f_DstPort (server_side i p s r n f) = f_DstPort f" "Packets (server_side i p s r n f) = Packets f"
  "created (server_side i p s r n f) = created f" "lastSeen (server_side i p s r n f) = lastSeen f"
  "Established (server_side i p s r n f) = Established f"
  by (simp_all add: server_side_def set_state_def)

lemma switch_matches [simp]:
  "flow_matches key f \<Longrightarrow> flow_matches key (server_side i p s r n (tcp_switch s' a' r' n' f))"
  by (simp add: flow_matches_def)

lemma flow_key_normal [simp]: "key_normal (flow_key s d p sp dp)"
  by (simp add: key_normal_def flow_key_def)

lemma flow_key_src [simp]: "k_srcIP (flow_key s d p sp dp) = normalizeIP s"
  by (simp add: flow_key_def)

lemma create_inv:
  assumes inv: "table_inv t" and ord: "gm_enum ord (flows t)"
    and key: "map_of (flows t) key = None" "key_normal key" and limit: "\<not> reachedFlowLimitLocked t (k_srcIP key)"
  shows "table_inv (insert_flow ct key (make_room ord t))"
proof (rule insert_flow_inv)
  have keys: "gm_keys (flows (make_room ord t)) \<subseteq> gm_keys (flows t)" by (rule make_room_keys)
  with key(1) gm_lookup_None_iff [of "flows t" key] show "key \<notin> gm_keys (flows (make_room ord t))" by blast
  show "table_inv (make_room ord t)" "int (length (flows (make_room ord t))) < MaxEntries (cfg (make_room ord t))"
    using make_room_inv [OF inv ord] by simp_all
  have "gm_get 0 (srcFlowCount t) (k_srcIP key) = int (card (src_keys (flows t) (k_srcIP key)))"
    using inv by (intro counts_ok_get) (simp add: table_inv_def)
  then show "int (card (src_keys (flows (make_room ord t)) (k_srcIP key))) < MaxFlowsPerSrcIP (cfg (make_room ord t))"
    if "0 < MaxFlowsPerSrcIP (cfg (make_room ord t))"
    using that limit src_keys_mono [OF keys, of "k_srcIP key"] by (simp add: reachedFlowLimitLocked_def)
qed (rule key(2))

lemma map_of_matches: "table_inv t \<Longrightarrow> map_of (flows t) key = Some f \<Longrightarrow> flow_matches key f"
  by (simp add: table_inv_def flows_ok_def)

lemma LookupOrCreate_inv:
  assumes inv: "table_inv t" and ord: "gm_enum ord (flows t)"
  shows "table_inv (snd (LookupOrCreate ct ord s d p sp dp t))"
proof (cases "map_of (flows t) (flow_key s d p sp dp)")
  case None
  with create_inv [OF assms None] inv show ?thesis
    by (simp add: LookupOrCreate_def Let_def)
next
  case (Some f)
  with hit_inv [OF inv Some] map_of_matches [OF inv Some] show ?thesis
    by (simp add: LookupOrCreate_def Let_def)
qed

lemma UpdateTCPState_inv:
  assumes inv: "table_inv t" and ord: "gm_enum ord (flows t)"
  shows "table_inv (snd (UpdateTCPState ct ord s d p sp dp syn ack rst fin t))"
proof (cases "map_of (flows t) (flow_key s d p sp dp)")
  case None
  let ?t = "insert_flow ct (flow_key s d p sp dp) (make_room ord t)"
  let ?f = "server_side True p syn rst fin (tcp_switch syn ack rst fin (new_flow ct (flow_key s d p sp dp)))"
  have "table_inv (?t\<lparr>flows := AList.update (flow_key s d p sp dp) ?f (flows ?t)\<rparr>)" if "table_inv ?t"
    by (rule update_flow_inv [OF that]) (simp_all add: gm_lookup_update)
  with create_inv [OF assms None, of ct] inv None show ?thesis
    by (simp add: UpdateTCPState_def Let_def)
next
  case (Some f)
  with hit_inv [OF inv Some] map_of_matches [OF inv Some] show ?thesis
    by (simp add: UpdateTCPState_def Let_def)
qed

lemma remove_flow_inv:
  assumes inv: "table_inv t" and key: "k \<in> gm_keys (flows t)"
  shows "table_inv (remove_flow k t)"
proof -
  have "gm_wf (flows t)" using inv by (simp add: table_inv_def flows_ok_def)
  with inv key remove_flow_counts [of t k] remove_flow_flows_ok [of t k] remove_flow_ports_ok [of t k]
    remove_flow_limits_ok [of t k] show ?thesis
    by (auto simp: table_inv_def stats_ok_def gm_simps)
qed

lemma Delete_inv: "table_inv t \<Longrightarrow> table_inv (Delete s d p sp dp t)"
  by (cases "map_of (flows t) (flow_key s d p sp dp)")
    (simp_all add: Delete_def remove_flow_inv gm_lookup_Some_key)

text \<open>Removing a list of distinct keys, as the second loop of \<open>Expire\<close> does.\<close>

lemma remove_flows_simps [simp]:
  "cfg (foldl (\<lambda>s key. remove_flow key s) t ks) = cfg t"
  "stats (foldl (\<lambda>s key. remove_flow key s) t ks) = stats t"
  by (induction ks arbitrary: t) simp_all

lemma remove_flows_lookup:
  "map_of (flows (foldl (\<lambda>s key. remove_flow key s) t ks)) k = (if k \<in> set ks then None else map_of (flows t) k)"
  by (induction ks arbitrary: t) (auto simp: gm_simps)

lemma remove_flows_inv:
  assumes "table_inv t" "distinct ks" "set ks \<subseteq> gm_keys (flows t)"
  shows "table_inv (foldl (\<lambda>s key. remove_flow key s) t ks) \<and>
    length (flows (foldl (\<lambda>s key. remove_flow key s) t ks)) + length ks = length (flows t)"
  using assms
proof (induction ks arbitrary: t)
  case (Cons k ks)
  have "gm_wf (flows t)" using Cons.prems by (simp add: table_inv_def flows_ok_def)
  with Cons.prems have "length (flows (remove_flow k t)) + 1 = length (flows t)"
    using gm_length_delete [of "flows t" k] by (cases "flows t") auto
  moreover have "table_inv (remove_flow k t)" "set ks \<subseteq> gm_keys (flows (remove_flow k t))"
    using Cons.prems remove_flow_inv [of t k] by (auto simp: gm_keys_delete)
  ultimately show ?case using Cons.IH [of "remove_flow k t"] Cons.prems by simp
qed simp

lemma expired_keys_ok:
  assumes "gm_enum ord (flows t)"
  shows "distinct (expired_keys now ord t)" "set (expired_keys now ord t) \<subseteq> gm_keys (flows t)"
  using assms by (auto simp: expired_keys_def gm_enum_def)

lemma Expire_inv:
  assumes inv: "table_inv t" and ord: "gm_enum ord (flows t)"
  shows "table_inv (snd (Expire now ord t))"
proof -
  note r = remove_flows_inv [OF inv expired_keys_ok [OF ord, of now]]
  let ?t = "foldl (\<lambda>s key. remove_flow key s) t (expired_keys now ord t)"
  have "int (length (flows ?t)) + int (length (expired_keys now ord t)) = int (length (flows t))"
    using r by linarith
  then show ?thesis using r inv
    by (simp add: Expire_def Let_def table_inv_def ok_stats_update stats_ok_def)
qed

lemma RecordDestPort_inv: "table_inv t \<Longrightarrow> table_inv (RecordDestPort ip port t)"
proof -
  assume inv: "table_inv t"
  let ?ip = "normalizeIP ip" and ?t = "RecordDestPort ip port t"
  have same: "flows ?t = flows t" "cfg ?t = cfg t" "stats ?t = stats t" "newConns ?t = newConns t" "srcFlowCount ?t = srcFlowCount t"
    by (simp_all add: RecordDestPort_def Let_def)
  have "ports_ok ?t"
    using inv
    by (auto simp: RecordDestPort_def Let_def table_inv_def ports_ok_def gm_lookup_update gm_get_def config_ok_def split: option.splits)
  with inv show ?thesis
    by (simp add: table_inv_def flows_ok_def counts_ok_def limits_ok_def stats_ok_def same)
qed

lemma NewTable_inv: "table_inv (NewTable c)"
  by (auto simp: NewTable_def table_inv_defs config_ok_def effective_config_def seconds_def src_keys_def no_stats_def)

section \<open>Reachable tables\<close>

text \<open>Any sequence of the table's methods, with any clock readings and iteration orders.\<close>

inductive reachable :: "Config \<Rightarrow> Table \<Rightarrow> bool" for c where
  new: "reachable c (NewTable c)"
| lookup: "reachable c t \<Longrightarrow> gm_enum ord (flows t) \<Longrightarrow> reachable c (snd (LookupOrCreate ct ord s d p sp dp t))"
| update: "reachable c t \<Longrightarrow> gm_enum ord (flows t) \<Longrightarrow> reachable c (snd (UpdateTCPState ct ord s d p sp dp syn ack rst fin t))"
| delete: "reachable c t \<Longrightarrow> reachable c (Delete s d p sp dp t)"
| expire: "reachable c t \<Longrightarrow> gm_enum ord (flows t) \<Longrightarrow> reachable c (snd (Expire now ord t))"
| port: "reachable c t \<Longrightarrow> reachable c (RecordDestPort ip dport t)"

lemma reachable_inv: "reachable c t \<Longrightarrow> table_inv t"
  by (induction rule: reachable.induct)
    (simp_all add: NewTable_inv LookupOrCreate_inv UpdateTCPState_inv Delete_inv Expire_inv RecordDestPort_inv)

section \<open>What the methods do\<close>

lemma op_cfg [simp]:
  "cfg (snd (LookupOrCreate ct ord s d p sp dp t)) = cfg t"
  "cfg (snd (UpdateTCPState ct ord s d p sp dp syn ack rst fin t)) = cfg t"
  "cfg (Delete s d p sp dp t) = cfg t" "cfg (snd (Expire now ord t)) = cfg t" "cfg (RecordDestPort ip port t) = cfg t"
  by (simp_all add: LookupOrCreate_def UpdateTCPState_def Delete_def Expire_def RecordDestPort_def Let_def split: option.split)

lemma reachable_cfg: "reachable c t \<Longrightarrow> cfg t = effective_config c"
  by (induction rule: reachable.induct) (simp_all, simp add: NewTable_def)

text \<open>
  C6. In every reachable table, whatever the order of calls, clock readings and iteration
  orders: the number of flows and the number per source stay within the configured limits;
  the count kept for a source is the number of its flows; the per-source rate rings exist
  for exactly the sources that have a flow; the recorded ports of a source are distinct and
  bounded; every flow carries the addresses and ports of its key, in canonical form.
\<close>

theorem flow_table_invariant:
  assumes "reachable c t"
  shows "int (Len t) \<le> MaxEntries (effective_config c) \<and>
    (0 < MaxFlowsPerSrcIP c \<longrightarrow> (\<forall>ip. int (card (src_keys (flows t) ip)) \<le> MaxFlowsPerSrcIP c)) \<and>
    (\<forall>ip. gm_get 0 (srcFlowCount t) ip = int (card (src_keys (flows t) ip))) \<and>
    (\<forall>ip. map_of (newConns t) ip \<noteq> None \<longleftrightarrow> src_keys (flows t) ip \<noteq> {}) \<and>
    (\<forall>ip. distinct (GetRecentDestPorts t ip) \<and>
       int (length (GetRecentDestPorts t ip)) \<le> PortScanMaxPorts (effective_config c)) \<and>
    (\<forall>k f. map_of (flows t) k = Some f \<longrightarrow> flow_matches k f \<and> key_normal k)"
proof -
  note inv = reachable_inv [OF assms] and cfg = reachable_cfg [OF assms]
  have "MaxFlowsPerSrcIP (cfg t) = MaxFlowsPerSrcIP c" by (simp add: cfg effective_config_def)
  moreover have "map_of (newConns t) ip \<noteq> None \<longleftrightarrow> src_keys (flows t) ip \<noteq> {}" for ip
    using inv counts_ok_keys [of t ip] gm_lookup_None_iff [of "newConns t" ip]
    by (simp only: table_inv_def counts_ok_def) blast
  moreover have "distinct (GetRecentDestPorts t ip) \<and>
     int (length (GetRecentDestPorts t ip)) \<le> PortScanMaxPorts (cfg t)" for ip
    using inv by (auto simp: GetRecentDestPorts_def gm_get_def table_inv_def ports_ok_def config_ok_def split: option.split)
  ultimately show ?thesis
    using inv counts_ok_get [of t] cfg
    by (simp add: table_inv_def limits_ok_def flows_ok_def Len_def)
qed

lemma make_room_lookup:
  "map_of (flows (make_room ord t)) k =
     (if MaxEntries (cfg t) \<le> int (Len t) \<and> sampled_oldest lastSeen ord (flows t) = Some k then None
      else map_of (flows t) k)"
  by (simp add: make_room_def Let_def evictOneLocked_flows oldest_flow.evict_lookup Len_def)

lemma reached_limit_iff:
  "counts_ok t \<Longrightarrow> reachedFlowLimitLocked t ip \<longleftrightarrow>
     0 < MaxFlowsPerSrcIP (cfg t) \<and> MaxFlowsPerSrcIP (cfg t) \<le> int (card (src_keys (flows t) ip))"
  by (simp add: reachedFlowLimitLocked_def counts_ok_get not_le)

text \<open>
  C18. The contract of \<open>LookupOrCreate\<close> on every branch: a tracked flow is touched and nothing
  else changes; a source at its limit gets no flow and no flow changes; otherwise the new
  flow is stored, and a full table first loses exactly one flow, the least recently used of
  the sampled ones.
\<close>

theorem LookupOrCreate_contract:
  assumes "table_inv t" "gm_enum ord (flows t)"
    and call: "LookupOrCreate ct ord s d p sp dp t = (r, t')" and key: "key = flow_key s d p sp dp"
  shows "case map_of (flows t) key of
      Some f \<Rightarrow> r = Some (touch (at_seen ct) f) \<and> map_of (flows t') = (map_of (flows t))(key \<mapsto> touch (at_seen ct) f)
    | None \<Rightarrow>
        if 0 < MaxFlowsPerSrcIP (cfg t) \<and> MaxFlowsPerSrcIP (cfg t) \<le> int (card (src_keys (flows t) (normalizeIP s)))
        then r = None \<and> flows t' = flows t
        else r = Some (new_flow ct key) \<and>
          (if int (Len t) < MaxEntries (cfg t)
           then map_of (flows t') = (map_of (flows t))(key \<mapsto> new_flow ct key)
           else \<exists>victim fv. victim \<in> set (take 16 ord) \<and> map_of (flows t) victim = Some fv \<and>
                  (\<forall>k \<in> set (take 16 ord). \<forall>f. map_of (flows t) k = Some f \<longrightarrow> lastSeen fv \<le> lastSeen f) \<and>
                  map_of (flows t') = (map_of (flows t))(victim := None, key \<mapsto> new_flow ct key))"
proof (cases "map_of (flows t) key")
  case (Some f)
  with call key show ?thesis by (auto simp: LookupOrCreate_def Let_def gm_lookup_update)
next
  case None
  have counts: "counts_ok t" using assms(1) by (simp add: table_inv_def)
  show ?thesis
  proof (cases "reachedFlowLimitLocked t (normalizeIP s)")
    case True
    with None call key show ?thesis
      by (auto simp: LookupOrCreate_def Let_def reached_limit_iff [OF counts])
  next
    case False
    with None call key have r: "r = Some (new_flow ct key)" and t': "t' = insert_flow ct key (make_room ord t)"
      by (auto simp: LookupOrCreate_def Let_def)
    have upd: "map_of (flows t') = (map_of (flows (make_room ord t)))(key \<mapsto> new_flow ct key)"
      by (auto simp: t' gm_lookup_update)
    show ?thesis
    proof (cases "int (Len t) < MaxEntries (cfg t)")
      case True
      with None False r upd show ?thesis
        by (simp add: reached_limit_iff [OF counts] make_room_def Len_def)
    next
      case full: False
      with assms(1) have "flows t \<noteq> []" by (auto simp: table_inv_def config_ok_def Len_def)
      with oldest_flow.victim_total [OF assms(2)] obtain v where v: "sampled_oldest lastSeen ord (flows t) = Some v" by blast
      then obtain fv where fv: "v \<in> set (take 16 ord)" "map_of (flows t) v = Some fv"
        "\<And>k f. k \<in> set (take 16 ord) \<Longrightarrow> map_of (flows t) k = Some f \<Longrightarrow> lastSeen fv \<le> lastSeen f"
        by (rule sampled_oldest_Some) (auto simp: evictionSampleSize_def)
      have "map_of (flows (make_room ord t)) = (map_of (flows t))(v := None)"
        using full v by (auto simp: make_room_lookup)
      with fv full None False r upd show ?thesis
        by (auto simp: reached_limit_iff [OF counts])
    qed
  qed
qed

text \<open>
  \<open>UpdateTCPState\<close> is \<open>LookupOrCreate\<close> followed by the state machine on the flow it
  returns: limits, eviction, counters and rate rings are those of the lookup, and only the
  returned flow's state and mark differ.
\<close>

theorem UpdateTCPState_is_lookup_then_switch:
  "UpdateTCPState ct ord s d p sp dp syn ack rst fin t =
     (let key = flow_key s d p sp dp in
      case LookupOrCreate ct ord s d p sp dp t of
        (None, t') \<Rightarrow> (None, t')
      | (Some f, t') \<Rightarrow>
          (let f' = server_side (map_of (flows t) key = None) p syn rst fin (tcp_switch syn ack rst fin f)
           in (Some f', t'\<lparr>flows := AList.update key f' (flows t')\<rparr>)))"
  by (simp add: UpdateTCPState_def LookupOrCreate_def Let_def split: option.split)

text \<open>
  C34. The spelling of an address does not matter: a flow created under one spelling is found
  and deleted under every other spelling of the same addresses, and the deletion leaves
  every other flow as it was.
\<close>

theorem delete_any_spelling:
  assumes "ParseIP s \<noteq> None" "ParseIP s' = ParseIP s" "ParseIP d \<noteq> None" "ParseIP d' = ParseIP d"
    and "LookupOrCreate ct ord s d p sp dp t = (Some f, t')"
  shows "map_of (flows t') (flow_key s' d' p sp dp) = Some f \<and>
    map_of (flows (Delete s' d' p sp dp t')) = (map_of (flows t'))(flow_key s' d' p sp dp := None)"
proof -
  have key: "flow_key s' d' p sp dp = flow_key s d p sp dp"
    using assms(1-4) normalizeIP_eq_iff [of s' s] normalizeIP_eq_iff [of d' d] by (auto simp: flow_key_def)
  have "map_of (flows t') (flow_key s d p sp dp) = Some f"
    using assms(5) by (auto simp: LookupOrCreate_def Let_def gm_lookup_update split: option.splits if_splits)
  then show ?thesis by (auto simp: key Delete_def gm_lookup_delete)
qed

text \<open>
  \<open>Expire\<close> removes exactly the flows idle for longer than the timeout of their protocol,
  keeps every other flow unchanged, and reports and counts the number it removed; the
  iteration order of the map has no influence.
\<close>

theorem Expire_exact:
  assumes "table_inv t" "gm_enum ord (flows t)" "Expire now ord t = (n, t')"
  shows "(\<forall>k. map_of (flows t') k =
      (case map_of (flows t) k of
         None \<Rightarrow> None
       | Some f \<Rightarrow> if idleTimeoutFor t (k_protocol k) < time_sub now (lastSeen f) then None else Some f)) \<and>
    n + Len t' = Len t \<and> Expired (stats t') = Expired (stats t) + int n"
proof -
  note r = remove_flows_inv [OF assms(1) expired_keys_ok [OF assms(2), of now]]
  have n: "n = length (expired_keys now ord t)"
    and t': "flows t' = flows (foldl (\<lambda>s key. remove_flow key s) t (expired_keys now ord t))"
      "stats t' = (stats t)\<lparr>Expired := Expired (stats t) + int n\<rparr>"
    using assms(3) by (auto simp: Expire_def Let_def)
  have "k \<in> set (expired_keys now ord t) \<longleftrightarrow> (case map_of (flows t) k of None \<Rightarrow> False | Some f \<Rightarrow> is_idle now t f)" for k
    using assms(2) gm_lookup_None_iff [of "flows t" k]
    by (auto simp: expired_keys_def gm_enum_def split: option.splits)
  then have "map_of (flows t') k = (case map_of (flows t) k of
         None \<Rightarrow> None
       | Some f \<Rightarrow> if idleTimeoutFor t (k_protocol k) < time_sub now (lastSeen f) then None else Some f)" for k
    using map_of_matches [OF assms(1), of k]
    by (simp add: t' remove_flows_lookup is_idle_def flow_matches_def split: option.split)
  with r n t' show ?thesis by (simp add: Len_def)
qed

section \<open>The TCP state machine\<close>

record tcp_segment =
  seg_syn :: bool
  seg_ack :: bool
  seg_rst :: bool
  seg_fin :: bool

text \<open>The flow's state after further packets of the same flow.\<close>

definition tcp_run :: "tcp_segment list \<Rightarrow> Flow \<Rightarrow> Flow" where
  "tcp_run segs f = foldl (\<lambda>f g. tcp_switch (seg_syn g) (seg_ack g) (seg_rst g) (seg_fin g) f) f segs"

text \<open>The states in the order a connection passes through them.\<close>

fun tcp_rank :: "TCPState \<Rightarrow> nat" where
  "tcp_rank TCPSynSent = 0"
| "tcp_rank TCPSynReceived = 1"
| "tcp_rank TCPEstablished = 2"
| "tcp_rank TCPFinWait1 = 3"
| "tcp_rank TCPFinWait2 = 4"
| "tcp_rank TCPClosing = 4"
| "tcp_rank TCPTimeWait = 5"
| "tcp_rank TcpCloseWait = 5"
| "tcp_rank TCPClosed = 6"

lemmas switch_defs = tcp_switch_def set_state_def close_flow_def establish_flow_def

lemma tcp_switch_rank: "tcp_rank (f_TCPState f) \<le> tcp_rank (f_TCPState (tcp_switch s a r n f))"
  by (cases "f_TCPState f") (simp_all add: switch_defs)

lemma tcp_switch_closed: "f_TCPState f = TCPClosed \<Longrightarrow> f_TCPState (tcp_switch s a r n f) = TCPClosed"
  by (simp add: switch_defs)

lemma tcp_switch_established:
  "Established (tcp_switch s a r n f) \<Longrightarrow> Established f \<or> f_TCPState f = TCPSynSent \<and> \<not> r \<and> \<not> n \<and> a"
  by (cases "f_TCPState f") (auto simp: switch_defs split: if_splits)

lemma tcp_run_Nil [simp]: "tcp_run [] f = f"
  by (simp add: tcp_run_def)

lemma tcp_run_Cons [simp]:
  "tcp_run (g # gs) f = tcp_run gs (tcp_switch (seg_syn g) (seg_ack g) (seg_rst g) (seg_fin g) f)"
  by (simp add: tcp_run_def)

lemma tcp_run_append: "tcp_run (gs @ hs) f = tcp_run hs (tcp_run gs f)"
  by (simp add: tcp_run_def)

lemma tcp_run_rank: "tcp_rank (f_TCPState f) \<le> tcp_rank (f_TCPState (tcp_run gs f))"
  by (induction gs arbitrary: f) (auto intro: order_trans [OF tcp_switch_rank])

lemma tcp_run_closed: "f_TCPState f = TCPClosed \<Longrightarrow> f_TCPState (tcp_run gs f) = TCPClosed"
  by (induction gs arbitrary: f) (simp_all add: tcp_switch_closed)

lemma tcp_run_not_established:
  "\<not> Established f \<Longrightarrow> f_TCPState f \<noteq> TCPSynSent \<Longrightarrow> \<not> Established (tcp_run gs f)"
proof (induction gs arbitrary: f)
  case (Cons g gs)
  let ?f = "tcp_switch (seg_syn g) (seg_ack g) (seg_rst g) (seg_fin g) f"
  have "\<not> Established ?f" using Cons.prems tcp_switch_established by blast
  moreover have "f_TCPState ?f \<noteq> TCPSynSent"
    using Cons.prems(2) by (cases "f_TCPState f") (simp_all add: switch_defs)
  ultimately show ?case using Cons.IH by simp
qed simp

lemma tcp_switch_close_wait: "f_TCPState f \<noteq> TcpCloseWait \<Longrightarrow> f_TCPState (tcp_switch s a r n f) \<noteq> TcpCloseWait"
  by (cases "f_TCPState f") (simp_all add: switch_defs)

text \<open>
  The state machine only moves forward: along any sequence of packets the state never
  returns to an earlier phase of the connection, a reset closes it whatever the state, and
  a closed flow stays closed and is never established again.
\<close>

theorem tcp_state_forward:
  "tcp_rank (f_TCPState f) \<le> tcp_rank (f_TCPState (tcp_run gs f)) \<and>
   f_TCPState (tcp_run (gs @ [\<lparr>seg_syn = s, seg_ack = a, seg_rst = True, seg_fin = n\<rparr>] @ hs) f) = TCPClosed \<and>
   \<not> Established (tcp_run (gs @ [\<lparr>seg_syn = s, seg_ack = a, seg_rst = True, seg_fin = n\<rparr>] @ hs) f)"
proof -
  let ?f = "tcp_switch s a True n (tcp_run gs f)"
  have "f_TCPState ?f = TCPClosed" "\<not> Established ?f" by (simp_all add: switch_defs)
  then have "f_TCPState (tcp_run hs ?f) = TCPClosed" "\<not> Established (tcp_run hs ?f)"
    using tcp_run_closed [of ?f hs] tcp_run_not_established [of ?f hs] by simp_all
  then show ?thesis using tcp_run_rank [of f gs] by (simp add: tcp_run_append)
qed

text \<open>
  C35. A TCP flow that a SYN opened is never marked established: the SYN moves the new flow to
  SYN_RECEIVED, from which no packet sets the mark, so the flow of every connection's
  initiator reports established = false for its whole life.
\<close>

theorem syn_opened_flow_never_established:
  assumes "map_of (flows t) (flow_key s d ''TCP'' sp dp) = None"
    and "UpdateTCPState ct ord s d ''TCP'' sp dp True False False False t = (Some f, t')"
  shows "f_TCPState f = TCPSynReceived \<and> \<not> Established (tcp_run gs f)"
proof -
  have f: "f = server_side True ''TCP'' True False False
      (tcp_switch True False False False (new_flow ct (flow_key s d ''TCP'' sp dp)))"
    using assms by (auto simp: UpdateTCPState_def Let_def split: if_splits)
  have "f_TCPState f = TCPSynReceived" "\<not> Established f"
    by (simp_all add: f switch_defs server_side_def new_flow_def)
  then show ?thesis using tcp_run_not_established [of f gs] by simp
qed

section \<open>Per-source counts\<close>

text \<open>
  \<open>GetSrcFlowCount\<close> answers for the canonical spelling only: there it is the number of the
  source's flows, for every other spelling of an address it is zero.
\<close>

theorem GetSrcFlowCount_canonical_only:
  assumes "reachable c t"
  shows "GetSrcFlowCount t ip =
    (if normalizeIP ip = ip then int (card (src_keys (flows t) (normalizeIP ip))) else 0)"
proof -
  note inv = reachable_inv [OF assms]
  have "src_keys (flows t) ip = {}" if "normalizeIP ip \<noteq> ip"
  proof -
    have "normalizeIP (k_srcIP k) = k_srcIP k" if "k \<in> gm_keys (flows t)" for k
      using that inv gm_lookup_None_iff [of "flows t" k]
      by (auto simp: table_inv_def flows_ok_def key_normal_def)
    with that show ?thesis by (auto simp: src_keys_def)
  qed
  with inv show ?thesis
    by (simp add: GetSrcFlowCount_def counts_ok_get table_inv_def)
qed

section \<open>The rate ring is a sliding window\<close>

text \<open>The ring after new connections at the given times, oldest first.\<close>

definition ring_after :: "time list \<Rightarrow> newConnRate" where
  "ring_after ts = foldl (\<lambda>r now. record_conn now r) new_newConnRate ts"

text \<open>
  The ring after connections in the seconds \<open>ss\<close>: slot \<open>i\<close> holds the latest second of its
  residue class and counts that second's connections.
\<close>

definition ring_inv :: "nat list \<Rightarrow> newConnRate \<Rightarrow> bool" where
  "ring_inv ss r \<longleftrightarrow> ring_ok r \<and> (\<forall>i < 10.
     counts r ! i = count_list ss (secs r ! i) \<and>
     (secs r ! i = 0 \<or> secs r ! i \<in> set ss \<and> secs r ! i mod 10 = i) \<and>
     (\<forall>s \<in> set ss. s mod 10 = i \<longrightarrow> s \<le> secs r ! i))"

lemma ring_inv_new: "ring_inv [] new_newConnRate"
  by (simp add: ring_inv_def) (simp add: new_newConnRate_def connRateWindowSecs_def)

lemma ring_inv_record:
  assumes inv: "ring_inv ss r" and le: "\<forall>s \<in> set ss. s \<le> time_unix now" and pos: "0 < time_unix now"
  shows "ring_inv (ss @ [time_unix now]) (record_conn now r)"
proof -
  define sec where "sec = time_unix now"
  define i where "i = sec mod 10"
  have i: "i < 10" by (simp add: i_def)
  have ok: "length (secs r) = 10" "length (counts r) = 10"
    using inv by (simp_all add: ring_inv_def ring_ok_def connRateWindowSecs_def)
  have inv_at: "counts r ! j = count_list ss (secs r ! j)" "secs r ! j = 0 \<or> secs r ! j \<in> set ss \<and> secs r ! j mod 10 = j"
     "\<forall>s \<in> set ss. s mod 10 = j \<longrightarrow> s \<le> secs r ! j" if "j < 10" for j
    using inv that by (simp_all add: ring_inv_def)
  have slot: "counts r ! i = count_list ss (secs r ! i)" "secs r ! i = 0 \<or> secs r ! i \<in> set ss"
    "sec \<in> set ss \<Longrightarrow> sec \<le> secs r ! i"
    using inv_at [OF i] i_def by blast+
  have fresh: "sec \<notin> set ss" if "secs r ! i \<noteq> sec"
    using slot(2,3) that le pos by (force simp: sec_def [symmetric])
  have new_secs: "secs (record_conn now r) ! j = (if j = i then sec else secs r ! j)" if "j < 10" for j
    using that ok by (auto simp: record_conn_def Let_def connRateWindowSecs_def sec_def i_def)
  have new_counts: "counts (record_conn now r) ! j = (if j = i then count_list ss sec + 1 else counts r ! j)" if "j < 10" for j
    using that ok fresh slot(1)
    by (auto simp: record_conn_def Let_def connRateWindowSecs_def sec_def i_def nth_list_update count_list_0_iff)
  have "counts (record_conn now r) ! j = count_list (ss @ [sec]) (secs (record_conn now r) ! j) \<and>
     (secs (record_conn now r) ! j = 0 \<or> secs (record_conn now r) ! j \<in> set (ss @ [sec]) \<and> secs (record_conn now r) ! j mod 10 = j) \<and>
     (\<forall>s \<in> set (ss @ [sec]). s mod 10 = j \<longrightarrow> s \<le> secs (record_conn now r) ! j)" if j: "j < 10" for j
  proof (cases "j = i")
    case True
    with j le show ?thesis by (simp add: new_secs new_counts i_def sec_def [symmetric])
  next
    case False
    then have "sec mod 10 \<noteq> j" by (auto simp: i_def)
    moreover have "secs r ! j \<noteq> sec" using \<open>sec mod 10 \<noteq> j\<close> inv_at(2) [OF j] pos by (auto simp: sec_def)
    ultimately show ?thesis using False inv_at [OF j] j by (simp add: new_secs new_counts)
  qed
  moreover have "ring_ok (record_conn now r)" using inv by (simp add: ring_inv_def)
  ultimately show ?thesis by (simp add: ring_inv_def sec_def)
qed

lemma ring_inv_after:
  assumes "sorted ts" "\<forall>x \<in> set ts. 0 < time_unix x"
  shows "ring_inv (map time_unix ts) (ring_after ts)"
  using assms
proof (induction ts rule: rev_induct)
  case Nil
  then show ?case by (simp add: ring_after_def ring_inv_new)
next
  case (snoc x ts)
  have "\<forall>s \<in> set (map time_unix ts). s \<le> time_unix x"
    using snoc.prems(1) by (auto simp: sorted_append time_unix_def div_le_mono)
  with snoc show ?case
    using ring_inv_record [of "map time_unix ts" "ring_after ts" x] by (simp add: ring_after_def sorted_append)
qed

lemma foldl_sum_if: "foldl (\<lambda>sum i. if P i then sum + (f i :: nat) else sum) a xs = a + (\<Sum>i\<leftarrow>xs. if P i then f i else 0)"
  by (induction xs arbitrary: a) auto

lemma sum_residues: "(\<Sum>i = 0..<10. length (filter (\<lambda>s. P s \<and> s mod 10 = i) ss)) = length (filter P (ss :: nat list))"
proof (induction ss)
  case (Cons s ss)
  have "(\<Sum>i = 0..<10. length (filter (\<lambda>s. P s \<and> s mod 10 = i) (s # ss))) =
     (\<Sum>i = 0..<10. (if s mod 10 = i then (if P s then 1 else 0) else 0) + length (filter (\<lambda>s. P s \<and> s mod 10 = i) ss))"
    by (rule sum.cong) auto
  also have "\<dots> = (if P s then 1 else 0) + length (filter P ss)"
    by (simp only: sum.distrib Cons.IH) simp
  finally show ?case by simp
qed simp

lemma same_residue:
  assumes "(s :: nat) \<le> s'" "s' < s + 10" "s' mod 10 = s mod 10"
  shows "s = s'"
proof -
  have "10 dvd s' - s" using assms by (metis mod_eq_dvd_iff_nat)
  moreover have "s' - s < 10" using assms by linarith
  ultimately have "s' - s = 0" by (meson dvd_imp_le not_le zero_less_iff_neq_zero neq0_conv)
  with assms(1) show ?thesis by simp
qed

lemma ring_slot:
  assumes inv: "ring_inv ss r" and le: "\<And>s. s \<in> set ss \<Longrightarrow> s \<le> sec \<and> 0 < s" and i: "i < 10"
  shows "(if secs r ! i \<noteq> 0 \<and> int (secs r ! i) > int sec - 10 then counts r ! i else 0) =
      length (filter (\<lambda>s. sec < s + 10 \<and> s mod 10 = i) ss)"
proof -
  define q where "q = secs r ! i"
  have at: "counts r ! i = count_list ss q" "q = 0 \<or> q \<in> set ss \<and> q mod 10 = i"
    "\<forall>s \<in> set ss. s mod 10 = i \<longrightarrow> s \<le> q"
    using inv i by (simp_all add: ring_inv_def q_def)
  have only: "s = q" if "s \<in> set ss" "sec < s + 10" "s mod 10 = i" for s
  proof (rule same_residue)
    show "s \<le> q" using at(3) that by blast
    with le [OF that(1)] have "q \<in> set ss" "q mod 10 = i" using at(2) by auto
    then show "q < s + 10" "q mod 10 = s mod 10" using le [of q] that by auto
  qed
  show ?thesis
  proof (cases "q \<noteq> 0 \<and> int q > int sec - 10")
    case True
    then have "filter (\<lambda>s. sec < s + 10 \<and> s mod 10 = i) ss = filter ((=) q) ss"
      using only at(2) by (intro filter_cong) auto
    with True at(1) show ?thesis by (simp add: count_list_eq_length_filter q_def)
  next
    case False
    have "\<not> (sec < s + 10 \<and> s mod 10 = i)" if "s \<in> set ss" for s
    proof
      assume *: "sec < s + 10 \<and> s mod 10 = i"
      with only that have "s = q" by blast
      with False le [OF that] * show False by auto
    qed
    then have "filter (\<lambda>s. sec < s + 10 \<and> s mod 10 = i) ss = []" by (simp add: filter_empty_conv)
    with False show ?thesis unfolding q_def by (simp only: if_False list.size)
  qed
qed

lemma rate_sum_window:
  assumes inv: "ring_inv ss r" and le: "\<And>s. s \<in> set ss \<Longrightarrow> s \<le> time_unix now \<and> 0 < s"
  shows "rate_sum now r = length (filter (\<lambda>s. time_unix now < s + 10) ss)"
proof -
  have "rate_sum now r = (\<Sum>i = 0..<10. length (filter (\<lambda>s. time_unix now < s + 10 \<and> s mod 10 = i) ss))"
    unfolding rate_sum_def Let_def foldl_sum_if connRateWindowSecs_def interv_sum_list_conv_sum_set_nat
    using ring_slot [OF assms] by (auto intro!: sum.cong)
  then show ?thesis by (simp only: sum_residues)
qed

lemma rate_threshold: "1000 < fl (fl (of_nat n) / 10) \<longleftrightarrow> 10000 < n"
proof -
  have fl: "fl 10001 = 10001" "fl 10000 = 10000" "fl 1000 = 1000" "fl (16001 / 16) = 16001 / 16"
    using fl_of_int [of 10001] fl_of_int [of 10000] fl_of_int [of 1000] fl_exact [of 16001 "- 4"]
    by (simp_all add: power_int_minus)
  show ?thesis
  proof
    assume "10000 < n"
    then have "(10001 :: rat) \<le> of_nat n" using of_nat_le_iff [of 10001 n, where 'a = rat] by simp
    then have "10001 \<le> fl (of_nat n)" using fl_mono [of 10001 "of_nat n"] fl by simp
    then show "1000 < fl (fl (of_nat n) / 10)" using fl_mono [of "16001 / 16" "fl (of_nat n) / 10"] fl by simp
  next
    assume less: "1000 < fl (fl (of_nat n) / 10)"
    show "10000 < n"
    proof (rule ccontr)
      assume "\<not> 10000 < n"
      then have "of_nat n \<le> (10000 :: rat)" using of_nat_le_iff [of n 10000, where 'a = rat] by simp
      then have "fl (of_nat n) \<le> 10000" using fl_mono [of "of_nat n" 10000] fl by simp
      then show False using less fl_mono [of "fl (of_nat n) / 10" 1000] fl by (simp add: fl_nonneg)
    qed
  qed
qed

text \<open>
  C24. The rate ring is an exact sliding window: after any number of new connections at
  non-decreasing times, the sum it reports is the number of those connections in the last
  ten seconds, with no cap and whatever the gaps between them; the reported rate exceeds
  1000 per second exactly when that number exceeds ten thousand.
\<close>

theorem rate_ring_sliding_window:
  assumes "sorted ts" "\<forall>x \<in> set ts. 0 < time_unix x \<and> x \<le> now"
  shows "rate_sum now (ring_after ts) = length (filter (\<lambda>x. time_unix now < time_unix x + 10) ts) \<and>
    (1000 < rate now (ring_after ts) \<longleftrightarrow> 10000 < length (filter (\<lambda>x. time_unix now < time_unix x + 10) ts))"
proof -
  have "ring_inv (map time_unix ts) (ring_after ts)" using assms by (intro ring_inv_after) auto
  moreover have "s \<le> time_unix now \<and> 0 < s" if "s \<in> set (map time_unix ts)" for s
    using that assms(2) by (auto simp: time_unix_def div_le_mono)
  ultimately have "rate_sum now (ring_after ts) = length (filter (\<lambda>s. time_unix now < s + 10) (map time_unix ts))"
    by (rule rate_sum_window)
  then have "rate_sum now (ring_after ts) = length (filter (\<lambda>x. time_unix now < time_unix x + 10) ts)"
    by (simp add: filter_map comp_def)
  then show ?thesis by (simp add: rate_def connRateWindowSecs_def rate_threshold)
qed

section \<open>Sample tables\<close>

definition sample_cfg :: Config where
  "sample_cfg = DefaultConfig\<lparr>MaxEntries := 1, MaxFlowsPerSrcIP := 2\<rparr>"

definition sample_times :: call_times where
  "sample_times = \<lparr>at_created = 5000000000, at_seen = 5000000001, at_rate = 5000000002\<rparr>"

definition sample_open :: "Table \<Rightarrow> Flow option \<times> Table" where
  "sample_open t = UpdateTCPState sample_times [] ''10.0.0.1'' ''10.0.0.2'' ''TCP'' 40000 22 True False False False t"

definition sample_key :: flowKey where
  "sample_key = \<lparr>k_srcIP = ''10.0.0.1'', k_dstIP = ''10.0.0.2'', k_protocol = ''TCP'', k_srcPort = 40000, k_dstPort = 22\<rparr>"

definition sample_flow :: Flow where
  "sample_flow = \<lparr>f_SrcIP = ''10.0.0.1'', f_DstIP = ''10.0.0.2'', f_Protocol = ''TCP'', f_SrcPort = 40000, f_DstPort = 22,
     Established = False, f_TCPState = TCPSynReceived, Packets = 1, created = 5000000000, lastSeen = 5000000001\<rparr>"

definition sample_table :: Table where
  "sample_table = snd (sample_open (NewTable sample_cfg))"

lemma sample_flow_key: "flow_key ''10.0.0.1'' ''10.0.0.2'' ''TCP'' 40000 22 = sample_key"
  by (simp add: flow_key_def sample_key_def sample_addresses)

lemma sample_open_new: "sample_open (NewTable sample_cfg) = (Some sample_flow, sample_table)"
  by (simp add: sample_table_def sample_open_def UpdateTCPState_def sample_flow_key Let_def NewTable_def
      reachedFlowLimitLocked_def sample_cfg_def effective_config_def gm_get_def switch_defs server_side_def
      new_flow_def sample_key_def sample_times_def sample_flow_def DefaultConfig_def)

lemma sample_table_flows: "flows sample_table = [(sample_key, sample_flow)]"
  by (simp add: sample_table_def sample_open_def UpdateTCPState_def sample_flow_key Let_def NewTable_def
      reachedFlowLimitLocked_def sample_cfg_def effective_config_def gm_get_def switch_defs server_side_def
      new_flow_def sample_key_def sample_times_def sample_flow_def DefaultConfig_def make_room_def)

lemma sample_table_reachable: "reachable sample_cfg sample_table"
  unfolding sample_table_def sample_open_def
  by (intro reachable.intros) (simp add: NewTable_def gm_enum_def)

lemma sample_enum: "gm_enum [sample_key] (flows sample_table)"
  by (simp add: gm_enum_def sample_table_flows)

lemma sample_src_keys: "src_keys (flows sample_table) ''10.0.0.1'' = {sample_key}"
  by (auto simp: src_keys_def sample_table_flows sample_key_def)

lemma sample_table_cfg: "cfg sample_table = effective_config sample_cfg"
  by (rule reachable_cfg [OF sample_table_reachable])

lemma sample_cfg_simps:
  "MaxEntries (effective_config sample_cfg) = 1" "MaxFlowsPerSrcIP (effective_config sample_cfg) = 2" "MaxFlowsPerSrcIP sample_cfg = 2"
  by (simp_all add: effective_config_def sample_cfg_def DefaultConfig_def)

theorem flow_table_invariant_witness:
  "int (Len sample_table) \<le> 1 \<and> card (src_keys (flows sample_table) ''10.0.0.1'') = 1 \<and>
   gm_get 0 (srcFlowCount sample_table) ''10.0.0.1'' = 1 \<and> map_of (newConns sample_table) ''10.0.0.1'' \<noteq> None"
  using flow_table_invariant [OF sample_table_reachable] by (simp add: sample_cfg_simps sample_src_keys del: not_None_eq)

theorem LookupOrCreate_contract_witness:
  "\<exists>t'. LookupOrCreate sample_times [sample_key] ''10.0.0.9'' ''10.0.0.2'' ''UDP'' 53 53 sample_table =
       (Some (new_flow sample_times (flow_key ''10.0.0.9'' ''10.0.0.2'' ''UDP'' 53 53)), t') \<and>
     map_of (flows t') sample_key = None"
proof -
  define key where "key = flow_key ''10.0.0.9'' ''10.0.0.2'' ''UDP'' 53 53"
  have inv: "table_inv sample_table" by (rule reachable_inv [OF sample_table_reachable])
  obtain r t' where call: "LookupOrCreate sample_times [sample_key] ''10.0.0.9'' ''10.0.0.2'' ''UDP'' 53 53 sample_table = (r, t')"
    by fastforce
  have "k_protocol key = ''UDP''" "k_protocol sample_key = ''TCP''" by (simp_all add: key_def flow_key_def sample_key_def)
  then have ne: "key \<noteq> sample_key" by auto
  then have "map_of (flows sample_table) key = None" by (simp add: sample_table_flows)
  moreover have "normalizeIP ''10.0.0.9'' = ''10.0.0.9''" unfolding sample_strings by (rule normalizeIP_dotted) simp
  moreover have "src_keys (flows sample_table) ''10.0.0.9'' = {}" by (simp add: src_keys_def sample_table_flows sample_key_def)
  ultimately show ?thesis
    using LookupOrCreate_contract [OF inv sample_enum call key_def] ne call
    by (auto simp: sample_table_cfg sample_cfg_simps Len_def sample_table_flows key_def)
qed

theorem delete_any_spelling_witness:
  "let (r, t') = LookupOrCreate sample_times [] ''10.0.0.1'' ''10.0.0.2'' ''UDP'' 53 53 (NewTable sample_cfg)
   in r \<noteq> None \<and> map_of (flows t') (flow_key ''::ffff:10.0.0.1'' ''10.0.0.2'' ''UDP'' 53 53) = r \<and>
      map_of (flows (Delete ''::ffff:10.0.0.1'' ''10.0.0.2'' ''UDP'' 53 53 t')) (flow_key ''::ffff:10.0.0.1'' ''10.0.0.2'' ''UDP'' 53 53) = None"
proof -
  obtain f t' where "LookupOrCreate sample_times [] ''10.0.0.1'' ''10.0.0.2'' ''UDP'' 53 53 (NewTable sample_cfg) = (Some f, t')"
    by (simp add: LookupOrCreate_def Let_def NewTable_def reachedFlowLimitLocked_def sample_cfg_simps gm_get_def)
  with delete_any_spelling [OF sample_addresses(5) sample_addresses(4) sample_addresses(6) refl this] show ?thesis by simp
qed

theorem Expire_exact_witness:
  "fst (Expire 400000000000 [sample_key] sample_table) = 1 \<and> Len (snd (Expire 400000000000 [sample_key] sample_table)) = 0"
proof -
  obtain n t' where call: "Expire 400000000000 [sample_key] sample_table = (n, t')" by fastforce
  have "idleTimeoutFor sample_table ''TCP'' = 300000000000"
    by (simp add: idleTimeoutFor_def sample_table_cfg effective_config_def sample_cfg_def DefaultConfig_def seconds_def)
  moreover have "time_sub 400000000000 5000000001 = 394999999999" by (simp add: time_sub_def max_duration_def min_duration_def)
  ultimately have "map_of (flows t') k = None" for k
    using Expire_exact [OF reachable_inv [OF sample_table_reachable] sample_enum call]
    by (auto simp: sample_table_flows sample_flow_def sample_key_def)
  then have "fst (hd (flows t')) \<notin> gm_keys (flows t')" by (simp only: flip: gm_lookup_None_iff)
  then have "flows t' = []" by (cases "flows t'") auto
  then show ?thesis
    using Expire_exact [OF reachable_inv [OF sample_table_reachable] sample_enum call]
    by (simp add: call Len_def sample_table_flows)
qed

theorem syn_opened_flow_never_established_witness:
  "f_TCPState sample_flow = TCPSynReceived \<and>
   \<not> Established (tcp_run [\<lparr>seg_syn = False, seg_ack = True, seg_rst = False, seg_fin = False\<rparr>] sample_flow)"
  by (rule syn_opened_flow_never_established [where t = "NewTable sample_cfg" and s = "''10.0.0.1''" and d = "''10.0.0.2''",
        OF _ sample_open_new [unfolded sample_open_def]]) (simp add: NewTable_def)

theorem GetSrcFlowCount_canonical_only_witness:
  "GetSrcFlowCount sample_table ''10.0.0.1'' = 1 \<and> GetSrcFlowCount sample_table ''::ffff:10.0.0.1'' = 0"
  using GetSrcFlowCount_canonical_only [OF sample_table_reachable, of "''10.0.0.1''"]
    GetSrcFlowCount_canonical_only [OF sample_table_reachable, of "''::ffff:10.0.0.1''"]
  by (simp add: sample_addresses sample_src_keys)

theorem rate_ring_sliding_window_witness:
  "rate_sum 15000000000 (ring_after [2000000000, 6000000000, 6500000000, 15000000000]) = 3"
  using rate_ring_sliding_window [of "[2000000000, 6000000000, 6500000000, 15000000000]" 15000000000]
  by (simp add: time_unix_def)

end
