(* ===== verification/Ratelimit.thy ===== *)
theory Ratelimit
  imports GoNet GoFloat
begin

text \<open>
  internal/ratelimit/ratelimit.go: per-source and per-source-and-port packet and byte rates
  as exponentially weighted averages. The mutex serialises the methods; clock readings and
  map iteration orders are arguments. \<open>float64\<close> arithmetic is rounded operation by
  operation, without fused multiply-add.
\<close>

section \<open>Data\<close>

record rateBucket =
  pps :: float64
  bps :: float64
  lastTime :: time

type_synonym rateKey = string

record Limiter =
  buckets :: "(rateKey, rateBucket) gomap"
  ppsLimit :: float64
  bpsLimit :: float64
  alpha :: float64
  lim_MaxEntries :: int

definition NewLimiter :: "float64 \<Rightarrow> float64 \<Rightarrow> Limiter" where
  "NewLimiter pl bl = \<lparr>buckets = [], ppsLimit = pl, bpsLimit = bl, alpha = fl (3 / 10), lim_MaxEntries = 100000\<rparr>"

section \<open>Keys\<close>

text \<open>The package's own copy of \<open>normalizeIP\<close>.\<close>

definition rl_normalizeIP :: "string \<Rightarrow> string" where
  "rl_normalizeIP ip =
     (case ParseIP ip of
        None \<Rightarrow> ip
      | Some parsed \<Rightarrow> (case To4 parsed of Some v4 \<Rightarrow> IP_String v4 | None \<Rightarrow> IP_String parsed))"

definition ipKey :: "string \<Rightarrow> rateKey" where
  "ipKey ip = ''ip:'' @ rl_normalizeIP ip"

definition portKey :: "string \<Rightarrow> uint16 \<Rightarrow> rateKey" where
  "portKey ip dstPort = ''port:'' @ rl_normalizeIP ip @ '':'' @ dec (unat dstPort)"

section \<open>Operations\<close>

text \<open>\<open>Duration.Seconds\<close>: whole seconds and the remaining nanoseconds, each converted and added.\<close>

definition Seconds :: "duration \<Rightarrow> float64" where
  "Seconds d =
     (let sec = sgn d * (\<bar>d\<bar> div 1000000000); nsec = sgn d * (\<bar>d\<bar> mod 1000000000)
      in fl (fl (of_int sec) + fl (fl (of_int nsec) / 1000000000)))"

definition gap_seconds :: "time \<Rightarrow> time \<Rightarrow> float64" where
  "gap_seconds now prev = (let dt = Seconds (time_sub now prev) in if dt \<le> 0 then fl (1 / 1000) else dt)"

definition ewma :: "float64 \<Rightarrow> float64 \<Rightarrow> float64 \<Rightarrow> float64" where
  "ewma a inst old = fl (fl (a * inst) + fl (fl (1 - a) * old))"

definition updateBucket :: "Limiter \<Rightarrow> int \<Rightarrow> time \<Rightarrow> rateBucket \<Rightarrow> rateBucket" where
  "updateBucket l packetSize now b =
     (let dt = gap_seconds now (lastTime b);
          instPPS = fl (1 / dt);
          instBPS = fl (fl (of_int packetSize) / dt);
          p = (if pps b = 0 then 1 else ewma (alpha l) instPPS (pps b));
          q = (if pps b = 0 then fl (of_int packetSize) else ewma (alpha l) instBPS (bps b))
      in \<lparr>pps = (if p > 10 ^ 12 then 10 ^ 12 else p),
          bps = (if q > 10 ^ 15 then 10 ^ 15 else q),
          lastTime = now\<rparr>)"

definition evictOneSampledLocked :: "rateKey list \<Rightarrow> Limiter \<Rightarrow> Limiter" where
  "evictOneSampledLocked ord l =
     (case sampled_oldest lastTime ord (buckets l) of
        None \<Rightarrow> l
      | Some oldestKey \<Rightarrow> l\<lparr>buckets := AList.delete oldestKey (buckets l)\<rparr>)"

definition getOrCreateBucket :: "rateKey list \<Rightarrow> rateKey \<Rightarrow> time \<Rightarrow> Limiter \<Rightarrow> rateBucket \<times> Limiter" where
  "getOrCreateBucket ord key now l =
     (case map_of (buckets l) key of
        Some b \<Rightarrow> (b, l)
      | None \<Rightarrow>
          (let l1 = (if 0 < lim_MaxEntries l \<and> lim_MaxEntries l \<le> int (length (buckets l))
                     then evictOneSampledLocked ord l else l);
               b = \<lparr>pps = 0, bps = 0, lastTime = now\<rparr>
           in (b, l1\<lparr>buckets := AList.update key b (buckets l1)\<rparr>)))"

text \<open>The shared body of \<open>Allow\<close> and \<open>AllowPort\<close>.\<close>

definition allow_key :: "rateKey list \<Rightarrow> rateKey \<Rightarrow> time \<Rightarrow> int \<Rightarrow> Limiter \<Rightarrow> (float64 \<times> float64) \<times> Limiter" where
  "allow_key ord key now packetSize l =
     (let (b, l1) = getOrCreateBucket ord key now l;
          b' = updateBucket l1 packetSize now b
      in ((pps b', bps b'), l1\<lparr>buckets := AList.update key b' (buckets l1)\<rparr>))"

definition Allow :: "rateKey list \<Rightarrow> time \<Rightarrow> string \<Rightarrow> int \<Rightarrow> Limiter \<Rightarrow> (float64 \<times> float64) \<times> Limiter" where
  "Allow ord now ip packetSize l = allow_key ord (ipKey ip) now packetSize l"

definition AllowPort ::
  "rateKey list \<Rightarrow> time \<Rightarrow> string \<Rightarrow> uint16 \<Rightarrow> int \<Rightarrow> Limiter \<Rightarrow> (float64 \<times> float64) \<times> Limiter" where
  "AllowPort ord now ip dstPort packetSize l = allow_key ord (portKey ip dstPort) now packetSize l"

definition getBucketPPS :: "Limiter \<Rightarrow> rateKey \<Rightarrow> float64" where
  "getBucketPPS l key = (case map_of (buckets l) key of Some b \<Rightarrow> pps b | None \<Rightarrow> 0)"

definition getBucketBPS :: "Limiter \<Rightarrow> rateKey \<Rightarrow> float64" where
  "getBucketBPS l key = (case map_of (buckets l) key of Some b \<Rightarrow> bps b | None \<Rightarrow> 0)"

definition ExceedsLimit :: "Limiter \<Rightarrow> float64 \<Rightarrow> float64 \<Rightarrow> bool" where
  "ExceedsLimit l p q \<longleftrightarrow> (ppsLimit l > 0 \<and> p > ppsLimit l) \<or> (bpsLimit l > 0 \<and> q > bpsLimit l)"

definition GetPPS :: "Limiter \<Rightarrow> string \<Rightarrow> float64" where
  "GetPPS l ip = getBucketPPS l (ipKey ip)"

definition GetBPS :: "Limiter \<Rightarrow> string \<Rightarrow> float64" where
  "GetBPS l ip = getBucketBPS l (ipKey ip)"

definition GetPortPPS :: "Limiter \<Rightarrow> string \<Rightarrow> uint16 \<Rightarrow> float64" where
  "GetPortPPS l ip dstPort = getBucketPPS l (portKey ip dstPort)"

definition GetPortBPS :: "Limiter \<Rightarrow> string \<Rightarrow> uint16 \<Rightarrow> float64" where
  "GetPortBPS l ip dstPort = getBucketBPS l (portKey ip dstPort)"

text \<open>
  \<open>Cleanup\<close> deletes while it ranges: each key of the order is visited once and deleted when
  its bucket is idle.
\<close>

fun cleanup_loop :: "time \<Rightarrow> duration \<Rightarrow> rateKey list \<Rightarrow> nat \<times> Limiter \<Rightarrow> nat \<times> Limiter" where
  "cleanup_loop now idle [] s = s"
| "cleanup_loop now idle (key # ks) (removed, l) =
     (case map_of (buckets l) key of
        None \<Rightarrow> cleanup_loop now idle ks (removed, l)
      | Some b \<Rightarrow>
          if time_sub now (lastTime b) > idle
          then cleanup_loop now idle ks (removed + 1, l\<lparr>buckets := AList.delete key (buckets l)\<rparr>)
          else cleanup_loop now idle ks (removed, l))"

definition Cleanup :: "time \<Rightarrow> rateKey list \<Rightarrow> duration \<Rightarrow> Limiter \<Rightarrow> nat \<times> Limiter" where
  "Cleanup now ord idleThreshold l = cleanup_loop now idleThreshold ord (0, l)"

definition lim_Len :: "Limiter \<Rightarrow> nat" where
  "lim_Len l = length (buckets l)"

section \<open>Keys\<close>

lemma rl_normalizeIP_eq: "rl_normalizeIP = normalizeIP"
  by (simp add: fun_eq_iff rl_normalizeIP_def normalizeIP_def)

lemma last_colon_inj:
  assumes "xs @ CHR '':'' # ds = ys @ CHR '':'' # es" "CHR '':'' \<notin> set ds" "CHR '':'' \<notin> set es"
  shows "xs = ys \<and> ds = es"
proof -
  let ?f = "takeWhile (\<lambda>c. c \<noteq> CHR '':'')"
  have eq: "rev ds @ CHR '':'' # rev xs = rev es @ CHR '':'' # rev ys"
    using arg_cong [OF assms(1), of rev] by simp
  have f: "?f (rev zs @ CHR '':'' # ws) = rev zs" if "CHR '':'' \<notin> set zs" for zs ws
    using that by (subst takeWhile_append2) auto
  have "ds = es" using arg_cong [OF eq, of ?f] f [OF assms(2)] f [OF assms(3)] by simp
  with assms(1) show ?thesis by simp
qed

lemma dec_no_colon: "CHR '':'' \<notin> set (dec n)"
  using dec_chars [of "CHR '':''" n] by (auto simp: dec_val_def)

text \<open>
  Rate keys identify what they count: two packets share a source bucket exactly when their
  source addresses are the same address, whatever the spelling, and a port bucket exactly
  when the ports agree as well; a source bucket is never a port bucket.
\<close>

theorem rate_keys_injective:
  "(ipKey a = ipKey b \<longleftrightarrow> (if ParseIP a = None \<and> ParseIP b = None then a = b else ParseIP a = ParseIP b)) \<and>
   (portKey a p = portKey b q \<longleftrightarrow>
      p = q \<and> (if ParseIP a = None \<and> ParseIP b = None then a = b else ParseIP a = ParseIP b)) \<and>
   ipKey a \<noteq> portKey b q"
proof -
  have "portKey a p = portKey b q \<longleftrightarrow> normalizeIP a = normalizeIP b \<and> dec (unat p) = dec (unat q)"
    using last_colon_inj [of "normalizeIP a" "dec (unat p)" "normalizeIP b" "dec (unat q)"] dec_no_colon
    by (auto simp: portKey_def rl_normalizeIP_eq)
  moreover have "dec (unat p) = dec (unat q) \<longleftrightarrow> p = q"
    using dec_inj by (metis unsigned_word_eqI)
  ultimately show ?thesis
    using normalizeIP_eq_iff [of a b] by (auto simp: ipKey_def portKey_def rl_normalizeIP_eq)
qed

section \<open>The bucket table\<close>

interpretation oldest_bucket: evict_policy "sampled_oldest lastTime"
  by (rule sampled_oldest_policy)

lemma evictOneSampledLocked_eq:
  "evictOneSampledLocked ord l = l\<lparr>buckets := evict (sampled_oldest lastTime) ord (buckets l)\<rparr>"
  by (simp add: evictOneSampledLocked_def evict_def split: option.split)

definition old_bucket :: "Limiter \<Rightarrow> rateKey \<Rightarrow> time \<Rightarrow> rateBucket" where
  "old_bucket l key now = (case map_of (buckets l) key of Some b \<Rightarrow> b | None \<Rightarrow> \<lparr>pps = 0, bps = 0, lastTime = now\<rparr>)"

lemma updateBucket_buckets [simp]: "updateBucket (l\<lparr>buckets := m\<rparr>) n now b = updateBucket l n now b"
  by (simp add: updateBucket_def Let_def)

text \<open>Recording a packet is one bounded insertion of the updated bucket.\<close>

lemma allow_key_eq:
  assumes "0 < lim_MaxEntries l"
  shows "allow_key ord key now n l =
    (let b' = updateBucket l n now (old_bucket l key now)
     in ((pps b', bps b'), l\<lparr>buckets := put_bounded (sampled_oldest lastTime) (lim_MaxEntries l) ord key b' (buckets l)\<rparr>))"
proof (cases "map_of (buckets l) key")
  case (Some b)
  then have "key \<in> gm_keys (buckets l)" by (rule gm_lookup_Some_key)
  with Some show ?thesis
    by (simp add: allow_key_def getOrCreateBucket_def old_bucket_def put_bounded_def Let_def)
next
  case None
  then have "key \<notin> gm_keys (buckets l)" by (simp add: gm_lookup_None_iff)
  then show ?thesis using None assms
    by (simp add: evictOneSampledLocked_eq allow_key_def getOrCreateBucket_def old_bucket_def put_bounded_def Let_def)
qed

lemma allow_key_simps [simp]:
  assumes "0 < lim_MaxEntries l"
  shows "ppsLimit (snd (allow_key ord key now n l)) = ppsLimit l" "bpsLimit (snd (allow_key ord key now n l)) = bpsLimit l"
    "alpha (snd (allow_key ord key now n l)) = alpha l" "lim_MaxEntries (snd (allow_key ord key now n l)) = lim_MaxEntries l"
  using assms by (simp_all add: allow_key_eq Let_def)

section \<open>Cleanup\<close>

lemma cleanup_loop_spec:
  assumes "distinct ks" "gm_wf (buckets l)" "set ks \<subseteq> gm_keys (buckets l)" "cleanup_loop now idle ks (m, l) = (m', l')"
  shows "(\<forall>k. map_of (buckets l') k = (case map_of (buckets l) k of
       None \<Rightarrow> None | Some b \<Rightarrow> if k \<in> set ks \<and> idle < time_sub now (lastTime b) then None else Some b)) \<and>
    m' + length (buckets l') = m + length (buckets l)"
  using assms
proof (induction ks arbitrary: m l)
  case Nil
  then show ?case by (auto split: option.split)
next
  case (Cons k ks)
  then obtain b where b: "map_of (buckets l) k = Some b"
    using gm_lookup_None_iff [of "buckets l" k] by auto
  show ?case
  proof (cases "idle < time_sub now (lastTime b)")
    case False
    with Cons b have "(\<forall>k'. map_of (buckets l') k' = (case map_of (buckets l) k' of
       None \<Rightarrow> None | Some b \<Rightarrow> if k' \<in> set ks \<and> idle < time_sub now (lastTime b) then None else Some b)) \<and>
      m' + length (buckets l') = m + length (buckets l)"
      by (intro Cons.IH) auto
    with False b show ?thesis by (auto split: option.split)
  next
    case True
    let ?l = "l\<lparr>buckets := AList.delete k (buckets l)\<rparr>"
    have "(\<forall>k'. map_of (buckets l') k' = (case map_of (buckets ?l) k' of
       None \<Rightarrow> None | Some b \<Rightarrow> if k' \<in> set ks \<and> idle < time_sub now (lastTime b) then None else Some b)) \<and>
      m' + length (buckets l') = (m + 1) + length (buckets ?l)"
      by (intro Cons.IH) (use True b Cons.prems in \<open>auto simp: gm_keys_delete\<close>)
    moreover have "length (buckets l) = length (AList.delete k (buckets l)) + 1"
      using Cons.prems gm_length_delete [of "buckets l" k] by (cases "buckets l") auto
    ultimately show ?thesis using True b Cons.prems(1) by (auto simp: gm_lookup_delete split: option.split)
  qed
qed

text \<open>
  \<open>Cleanup\<close> removes exactly the buckets idle for longer than the threshold, in whatever order
  the map is ranged over, keeps every other bucket unchanged, and returns the number removed.
\<close>

theorem Cleanup_exact:
  assumes "gm_wf (buckets l)" "gm_enum ord (buckets l)" "Cleanup now ord idle l = (n, l')"
  shows "(\<forall>k. map_of (buckets l') k = (case map_of (buckets l) k of
       None \<Rightarrow> None | Some b \<Rightarrow> if idle < time_sub now (lastTime b) then None else Some b)) \<and>
    n + lim_Len l' = lim_Len l"
proof -
  have "k \<in> set ord" if "map_of (buckets l) k = Some b" for k b
    using that assms(2) gm_lookup_Some_key by (auto simp: gm_enum_def)
  then show ?thesis
    using cleanup_loop_spec [of ord l now idle 0 n l'] assms
    by (auto simp: gm_enum_def Cleanup_def lim_Len_def split: option.split)
qed

section \<open>Rounding errors\<close>

definition u53 :: rat where
  "u53 = 1 / 2 ^ 53"

lemma u53_bounds: "0 < u53" "u53 < 1 / 1000000000000"
  by (simp_all add: u53_def)

lemma fl_within:
  assumes "2 powi k \<le> x" "- 1022 \<le> k"
  shows "x * (1 - u53) \<le> fl x" "fl x \<le> x * (1 + u53)"
proof -
  have u: "u53 = 2 powi (- 53)" by (simp add: power_int_minus u53_def)
  have e: "\<bar>fl x - x\<bar> \<le> x * u53" unfolding u by (rule fl_rel_error [OF assms])
  show "x * (1 - u53) \<le> fl x" "fl x \<le> x * (1 + u53)"
    using abs_le_D1 [OF e] abs_le_D2 [OF e] by (simp_all add: right_diff_distrib distrib_left)
qed

lemma fl_nonpos: "x \<le> 0 \<Longrightarrow> fl x \<le> 0"
  using fl_le_grid [of x 0] by (cases "x = 0") auto

lemma fl_ge_pow2: "- 1074 \<le> k \<Longrightarrow> 2 powi k \<le> x \<Longrightarrow> 2 powi k \<le> fl x"
  using fl_mono [of "2 powi k" x] fl_pow2 [of k] by simp

text \<open>The two weights of the average.\<close>

definition weight :: float64 where "weight = fl (3 / 10)"
definition coweight :: float64 where "coweight = fl (1 - weight)"

lemma weight_bounds: "3 / 10 * (1 - u53) \<le> weight" "weight \<le> 3 / 10 * (1 + u53)"
  using fl_within [of "- 2" "3 / 10"] by (simp_all add: weight_def power_int_minus)

lemma weight_coarse: "1 / 4 \<le> weight" "weight \<le> 1 / 2" "2999 / 10000 \<le> weight" "1 - weight \<le> 71 / 100" "6999 / 10000 + u53 \<le> 1 - weight"
  using weight_bounds u53_bounds by (simp_all add: field_simps)

lemma coweight_bounds: "(1 - weight) * (1 - u53) \<le> coweight" "coweight \<le> (1 - weight) * (1 + u53)"
  using fl_within [of "- 1" "1 - weight"] weight_coarse by (simp_all add: coweight_def power_int_minus)

lemma coweight_coarse: "6999 / 10000 \<le> coweight" "coweight \<le> 1"
proof -
  have "(1 - weight) * u53 \<le> u53"
    using weight_coarse u53_bounds mult_right_mono [of "1 - weight" 1 u53] by simp
  moreover from this have "(1 - weight) * u53 \<le> 1 / 100" using u53_bounds by linarith
  ultimately show "6999 / 10000 \<le> coweight" "coweight \<le> 1"
    using coweight_bounds weight_coarse by (simp_all add: right_diff_distrib distrib_left)
qed

section \<open>The gap between two packets\<close>

lemma add_exact_part:
  fixes s x y u :: rat
  assumes "0 \<le> s" "0 \<le> u"
  shows "y * (1 - u) \<le> x \<Longrightarrow> (s + y) * (1 - u) \<le> s + x" "x \<le> y * (1 + u) \<Longrightarrow> s + x \<le> (s + y) * (1 + u)"
  using mult_nonneg_nonneg [OF assms] by (simp_all add: algebra_simps)

lemma Seconds_close:
  assumes "0 < d" "d \<le> max_duration"
  shows "of_int d / 10 ^ 9 * (1 - u53) ^ 2 \<le> Seconds d" "Seconds d \<le> of_int d / 10 ^ 9 * (1 + u53) ^ 2"
proof -
  define s n :: int where "s = d div 10 ^ 9" and "n = d mod 10 ^ 9"
  have d: "of_int d / 10 ^ 9 = (of_int s + of_int n / 10 ^ 9 :: rat)"
  proof -
    have "of_int d = (of_int (s * 10 ^ 9 + n) :: rat)" by (simp add: s_def n_def)
    then show ?thesis by (simp add: field_simps)
  qed
  have s: "0 \<le> s" "s < 2 ^ 53" and n: "0 \<le> n" "n < 10 ^ 9"
    using assms by (simp_all add: s_def n_def max_duration_def)
  define x where "x = fl (of_int n / 10 ^ 9)"
  have x: "of_int n / 10 ^ 9 * (1 - u53) \<le> x" "x \<le> of_int n / 10 ^ 9 * (1 + u53)"
  proof -
    have "2 powi (- 30) \<le> (of_int n / 10 ^ 9 :: rat)" if "n \<noteq> 0"
    proof -
      have "1 \<le> (of_int n :: rat)" using that n by simp
      then show ?thesis by (simp add: power_int_minus field_simps)
    qed
    then show "of_int n / 10 ^ 9 * (1 - u53) \<le> x" "x \<le> of_int n / 10 ^ 9 * (1 + u53)"
      using fl_within [of "- 30" "of_int n / 10 ^ 9"] unfolding x_def by (cases "n = 0"; simp)+
  qed
  have Sec: "Seconds d = fl (of_int s + x)"
    using assms s n fl_of_int [of s] fl_of_int [of n] by (simp add: Seconds_def x_def s_def n_def sgn_if Let_def)
  have lo: "of_int d / 10 ^ 9 * (1 - u53) \<le> of_int s + x" and hi: "of_int s + x \<le> of_int d / 10 ^ 9 * (1 + u53)"
    using add_exact_part [of "of_int s" u53] x s u53_bounds unfolding d by simp_all
  have "1 / 10 ^ 9 \<le> (of_int d / 10 ^ 9 :: rat)" using assms by (simp add: divide_right_mono)
  then have "1 / 10 ^ 9 * (99 / 100) \<le> of_int d / 10 ^ 9 * (1 - u53)" using u53_bounds by (intro mult_mono) simp_all
  then have "2 powi (- 31) \<le> of_int d / 10 ^ 9 * (1 - u53)" by (simp add: power_int_minus)
  then have "2 powi (- 31) \<le> of_int s + x" using lo by linarith
  note w = fl_within [OF this]
  have "of_int d / 10 ^ 9 * (1 - u53) * (1 - u53) \<le> (of_int s + x) * (1 - u53)"
    by (rule mult_right_mono [OF lo]) (use u53_bounds in simp)
  then show "of_int d / 10 ^ 9 * (1 - u53) ^ 2 \<le> Seconds d"
    using w(1) unfolding Sec power2_eq_square mult.assoc [symmetric] by simp
  have "(of_int s + x) * (1 + u53) \<le> of_int d / 10 ^ 9 * (1 + u53) * (1 + u53)"
    by (rule mult_right_mono [OF hi]) (use u53_bounds in simp)
  then show "Seconds d \<le> of_int d / 10 ^ 9 * (1 + u53) ^ 2"
    using w(2) unfolding Sec power2_eq_square mult.assoc [symmetric] by simp
qed

text \<open>The gap the code uses, exactly: a clock that did not advance counts as one millisecond.\<close>

definition exact_gap :: "time \<Rightarrow> time \<Rightarrow> rat" where
  "exact_gap now prev = (if prev < now then of_int (time_sub now prev) / 10 ^ 9 else 1 / 1000)"

definition inst_pps :: "time \<Rightarrow> time \<Rightarrow> float64" where
  "inst_pps now prev = fl (1 / gap_seconds now prev)"

lemma exact_gap_range: "1 / 10 ^ 9 \<le> exact_gap now prev" "exact_gap now prev \<le> 2 ^ 34"
proof -
  have d: "1 \<le> time_sub now prev" "time_sub now prev \<le> max_duration" if "prev < now"
    using that time_sub_pos_iff [of now prev] time_sub_le_max by auto
  then have "1 \<le> (of_int (time_sub now prev) :: rat)" "(of_int (time_sub now prev) :: rat) \<le> of_int max_duration" if "prev < now"
    using that by (simp_all only: of_int_le_iff) simp
  then show "1 / 10 ^ 9 \<le> exact_gap now prev" "exact_gap now prev \<le> 2 ^ 34"
    by (cases "prev < now"; simp add: exact_gap_def max_duration_def field_simps)+
qed

lemma gap_seconds_close:
  "exact_gap now prev * (1 - u53) ^ 2 \<le> gap_seconds now prev" "gap_seconds now prev \<le> exact_gap now prev * (1 + u53) ^ 2"
proof -
  let ?d = "time_sub now prev"
  have "exact_gap now prev * (1 - u53) ^ 2 \<le> gap_seconds now prev \<and> gap_seconds now prev \<le> exact_gap now prev * (1 + u53) ^ 2"
  proof (cases "prev < now")
    case True
    then have d: "0 < ?d" "?d \<le> max_duration" using time_sub_pos_iff time_sub_le_max by auto
    have "0 < of_int ?d / 10 ^ 9 * (1 - u53) ^ 2" using d u53_bounds by simp
    with Seconds_close [OF d] have "\<not> Seconds ?d \<le> 0" by linarith
    with Seconds_close [OF d] True show ?thesis by (simp add: gap_seconds_def exact_gap_def)
  next
    case False
    then have d: "?d \<le> 0" using time_sub_pos_iff [of now prev] by auto
    have "Seconds ?d \<le> 0"
      using d fl_nonpos by (simp add: Seconds_def Let_def sgn_if add_nonpos_nonpos divide_nonpos_pos)
    moreover have "1 / 1000 * (1 - u53) \<le> fl (1 / 1000)" "fl (1 / 1000) \<le> 1 / 1000 * (1 + u53)"
      using fl_within [of "- 10" "1 / 1000"] by (simp_all add: power_int_minus)
    moreover have "(1 - u53) ^ 2 \<le> 1 - u53" "1 + u53 \<le> (1 + u53) ^ 2"
      by (simp_all add: u53_def power2_eq_square)
    ultimately show ?thesis using False by (simp add: gap_seconds_def exact_gap_def Let_def)
  qed
  then show "exact_gap now prev * (1 - u53) ^ 2 \<le> gap_seconds now prev" "gap_seconds now prev \<le> exact_gap now prev * (1 + u53) ^ 2"
    by simp_all
qed

lemma u53_arith:
  "(1 - 2 * u53) * (1 + u53) ^ 2 \<le> 1" "1 \<le> (1 + 5 / 2 * u53) * (1 - u53) ^ 2"
  "(1 + 5 / 2 * u53) * (1 + u53) \<le> 1 + 4 * u53" "1 - 4 * u53 \<le> (1 - 2 * u53) * (1 - u53)"
  by (simp_all add: u53_def power2_eq_square)

lemma inst_pps_close:
  "1 / exact_gap now prev * (1 - 4 * u53) \<le> inst_pps now prev"
  "inst_pps now prev \<le> 1 / exact_gap now prev * (1 + 4 * u53)"
  "2 powi (- 36) \<le> inst_pps now prev"
proof -
  define D g where "D = exact_gap now prev" and "g = gap_seconds now prev"
  have D: "0 < D" "D \<le> 2 ^ 34" using exact_gap_range [where now = now and prev = prev] by (auto simp: D_def intro: less_le_trans [of 0 "1 / 10 ^ 9"])
  have g: "D * (1 - u53) ^ 2 \<le> g" "g \<le> D * (1 + u53) ^ 2" using gap_seconds_close by (auto simp: D_def g_def)
  have sq: "0 < (1 - u53) ^ 2" "0 < (1 + u53) ^ 2" using u53_bounds by simp_all
  have "0 < D * (1 - u53) ^ 2" using D sq by simp
  with g have g0: "0 < g" by linarith
  have "(1 - 2 * u53) * g \<le> (1 - 2 * u53) * (1 + u53) ^ 2 * D"
    using mult_left_mono [OF g(2), of "1 - 2 * u53"] u53_bounds by (simp add: ac_simps)
  also have "\<dots> \<le> D" using mult_right_mono [OF u53_arith(1), of D] D by simp
  finally have lo: "1 / D * (1 - 2 * u53) \<le> 1 / g" using D g0 by (simp add: field_simps)
  have "D \<le> (1 + 5 / 2 * u53) * (1 - u53) ^ 2 * D" using mult_right_mono [OF u53_arith(2), of D] D by simp
  also have "\<dots> \<le> (1 + 5 / 2 * u53) * g"
    using mult_left_mono [OF g(1), of "1 + 5 / 2 * u53"] u53_bounds by (simp add: ac_simps)
  finally have hi: "1 / g \<le> 1 / D * (1 + 5 / 2 * u53)" using D g0 by (simp add: field_simps)
  have "1 / 2 ^ 34 \<le> 1 / D" using D by (simp add: frac_le)
  then have "1 / 2 ^ 34 * (1 / 2) \<le> 1 / D * (1 - 2 * u53)" using u53_bounds D by (intro mult_mono) simp_all
  from order_trans [OF this lo] have pow: "2 powi (- 35) \<le> 1 / g" by (simp add: power_int_minus)
  note w = fl_within [OF pow]
  have "1 / D * ((1 - 2 * u53) * (1 - u53)) \<le> 1 / g * (1 - u53)"
    using mult_right_mono [OF lo, of "1 - u53"] u53_bounds by (simp add: ac_simps)
  moreover have "1 / D * (1 - 4 * u53) \<le> 1 / D * ((1 - 2 * u53) * (1 - u53))"
    using mult_left_mono [OF u53_arith(4), of "1 / D"] D by simp
  ultimately show "1 / exact_gap now prev * (1 - 4 * u53) \<le> inst_pps now prev"
    using w(1) by (simp add: inst_pps_def D_def [symmetric] g_def [symmetric])
  have "1 / g * (1 + u53) \<le> 1 / D * ((1 + 5 / 2 * u53) * (1 + u53))"
    using mult_right_mono [OF hi, of "1 + u53"] u53_bounds by (simp add: ac_simps)
  moreover have "1 / D * ((1 + 5 / 2 * u53) * (1 + u53)) \<le> 1 / D * (1 + 4 * u53)"
    using mult_left_mono [OF u53_arith(3), of "1 / D"] D by simp
  ultimately show "inst_pps now prev \<le> 1 / exact_gap now prev * (1 + 4 * u53)"
    using w(2) by (simp add: inst_pps_def D_def [symmetric] g_def [symmetric])
  have "2 powi (- 36) \<le> 1 / g" using pow powi_2_mono [of "- 36" "- 35"] by linarith
  then show "2 powi (- 36) \<le> inst_pps now prev"
    unfolding inst_pps_def g_def [symmetric] by (rule fl_ge_pow2 [rotated]) simp
qed

section \<open>The average\<close>

lemma ewma_ge_pow2:
  assumes "2 powi (- 36) \<le> x" "0 \<le> y"
  shows "2 powi (- 38) \<le> ewma weight x y"
proof -
  have "1 / 4 * 2 powi (- 36) \<le> weight * x" using weight_coarse assms by (intro mult_mono) simp_all
  then have "2 powi (- 38) \<le> weight * x" by (simp add: power_int_minus)
  then have "2 powi (- 38) \<le> fl (weight * x)" by (rule fl_ge_pow2 [rotated]) simp
  moreover have "0 \<le> fl (fl (1 - weight) * y)"
    using assms coweight_coarse unfolding coweight_def [symmetric] by (intro fl_nonneg mult_nonneg_nonneg) simp_all
  ultimately have "2 powi (- 38) \<le> fl (weight * x) + fl (fl (1 - weight) * y)" by linarith
  then show ?thesis unfolding ewma_def by (rule fl_ge_pow2 [rotated]) simp
qed

lemma ewma_within:
  assumes x: "2 powi (- 36) \<le> x" and y: "2 powi (- 38) \<le> y"
  shows "(weight * x + coweight * y) * (1 - u53) ^ 2 \<le> ewma weight x y"
    "ewma weight x y \<le> (weight * x + coweight * y) * (1 + u53) ^ 2"
proof -
  have "1 / 4 * 2 powi (- 36) \<le> weight * x" "1 / 2 * 2 powi (- 38) \<le> coweight * y"
    using weight_coarse coweight_coarse x y by (intro mult_mono; simp)+
  then have p: "2 powi (- 39) \<le> weight * x" and q: "2 powi (- 39) \<le> coweight * y"
    by (simp_all add: power_int_minus)
  define s where "s = fl (weight * x) + fl (coweight * y)"
  have lo: "(weight * x + coweight * y) * (1 - u53) \<le> s" and hi: "s \<le> (weight * x + coweight * y) * (1 + u53)"
    using fl_within [OF p] fl_within [OF q] by (simp_all add: s_def distrib_right)
  have "2 powi (- 39) \<le> fl (weight * x)" using p by (rule fl_ge_pow2 [rotated]) simp
  moreover have "0 \<le> fl (coweight * y)" using q powi_2_pos [of "- 39"] by (intro fl_nonneg) linarith
  ultimately have "2 powi (- 39) \<le> s" by (simp add: s_def)
  note w = fl_within [OF this]
  have e: "ewma weight x y = fl s" by (simp add: ewma_def s_def coweight_def)
  show "(weight * x + coweight * y) * (1 - u53) ^ 2 \<le> ewma weight x y"
    unfolding e power2_eq_square mult.assoc [symmetric]
    by (rule order_trans [OF mult_right_mono [OF lo] w(1)]) (use u53_bounds in simp_all)
  show "ewma weight x y \<le> (weight * x + coweight * y) * (1 + u53) ^ 2"
    unfolding e power2_eq_square mult.assoc [symmetric]
    by (rule order_trans [OF w(2) mult_right_mono [OF hi]]) (use u53_bounds in simp_all)
qed

lemma u53_drift: "(1 + 71 / 100 * (17 * u53 + 16 * u53 * u53)) * (1 + u53) ^ 2 \<le> 1 + 16 * u53"
  by (simp add: u53_def power2_eq_square)

text \<open>The average of two rates is at most the larger one, up to a drift that repetition does not increase.\<close>

lemma ewma_upper:
  assumes "2 powi (- 36) \<le> x" "2 powi (- 38) \<le> y" "x \<le> X" "y \<le> X * (1 + 16 * u53)"
  shows "ewma weight x y \<le> X * (1 + 16 * u53)"
proof -
  have X: "0 < X" using assms(1,3) powi_2_pos [of "- 36"] by linarith
  let ?v = "1 - weight"
  have v: "0 \<le> ?v" "?v \<le> 71 / 100" using weight_coarse by simp_all
  have "coweight * y \<le> (?v * (1 + u53)) * (X * (1 + 16 * u53))"
    using coweight_bounds(2) coweight_coarse assms(2,4) X u53_bounds v powi_2_pos [of "- 38"]
    by (intro mult_mono) (auto intro!: mult_nonneg_nonneg)
  moreover have "weight * x \<le> weight * X" using assms(3) weight_coarse by (intro mult_left_mono) simp_all
  ultimately have "weight * x + coweight * y \<le> X * (1 + ?v * (17 * u53 + 16 * u53 * u53))"
    by (simp add: algebra_simps)
  also have "\<dots> \<le> X * (1 + 71 / 100 * (17 * u53 + 16 * u53 * u53))"
    using v X u53_bounds by (intro mult_left_mono add_left_mono mult_right_mono) simp_all
  finally have "(weight * x + coweight * y) * (1 + u53) ^ 2 \<le> X * (1 + 71 / 100 * (17 * u53 + 16 * u53 * u53)) * (1 + u53) ^ 2"
    by (rule mult_right_mono) simp
  also have "\<dots> \<le> X * (1 + 16 * u53)"
    using mult_left_mono [OF u53_drift, of X] X by (simp add: mult.assoc)
  finally show ?thesis using ewma_within(2) [OF assms(1,2)] by linarith
qed

lemma ewma_lower:
  assumes "2 powi (- 36) \<le> x" "2 powi (- 38) \<le> y" "0 \<le> X" "X \<le> x" "0 \<le> Y" "Y \<le> y"
  shows "2998 / 10000 * X + 6998 / 10000 * Y \<le> ewma weight x y"
proof -
  have S: "2999 / 10000 * X + 6999 / 10000 * Y \<le> weight * x + coweight * y"
    using weight_coarse coweight_coarse assms by (intro add_mono mult_mono) simp_all
  have "(2999 / 10000 * X + 6999 / 10000 * Y) * (9999 / 10000) \<le> (weight * x + coweight * y) * (1 - u53) ^ 2"
    using S assms by (intro mult_mono) (simp_all add: u53_def power2_eq_square)
  from order_trans [OF this ewma_within(1) [OF assms(1,2)]]
  have "(2999 * X + 6999 * Y) * 9999 \<le> 100000000 * ewma weight x y" by simp
  then show ?thesis using assms(3,5) by (simp add: field_simps)
qed

section \<open>The invariant of the limiter\<close>

definition bucket_ok :: "rateBucket \<Rightarrow> bool" where
  "bucket_ok b \<longleftrightarrow> 2 powi (- 38) \<le> pps b \<and> pps b \<le> 10 ^ 12 \<and> 0 \<le> bps b \<and> bps b \<le> 10 ^ 15"

definition limiter_inv :: "Limiter \<Rightarrow> bool" where
  "limiter_inv l \<longleftrightarrow> alpha l = weight \<and> 0 < lim_MaxEntries l \<and> gm_wf (buckets l) \<and>
     int (length (buckets l)) \<le> lim_MaxEntries l \<and> (\<forall>k b. map_of (buckets l) k = Some b \<longrightarrow> bucket_ok b)"

lemma NewLimiter_inv: "limiter_inv (NewLimiter pl bl)"
  by (simp add: limiter_inv_def NewLimiter_def weight_def)

lemma exact_gap_pos: "0 < exact_gap now prev"
  by (rule less_le_trans [OF _ exact_gap_range(1)]) simp

lemma gap_seconds_pos: "0 < gap_seconds now prev"
proof -
  have "0 < exact_gap now prev * (1 - u53) ^ 2" using u53_bounds exact_gap_pos by simp
  with gap_seconds_close(1) [of now prev] show ?thesis by linarith
qed

lemma updateBucket_lastTime [simp]: "lastTime (updateBucket l n now b) = now"
  by (simp add: updateBucket_def Let_def)

lemma updateBucket_pps:
  "pps (updateBucket l n now b) =
     min (10 ^ 12) (if pps b = 0 then 1 else ewma (alpha l) (inst_pps now (lastTime b)) (pps b))"
  by (simp add: updateBucket_def Let_def inst_pps_def min_def)

lemma updateBucket_ok:
  assumes "alpha l = weight" "pps b = 0 \<or> bucket_ok b" "0 \<le> n"
  shows "bucket_ok (updateBucket l n now b)"
proof -
  have "2 powi (- 38) \<le> (1 :: rat)" "2 powi (- 38) \<le> (10 ^ 12 :: rat)" by (simp_all add: power_int_minus)
  moreover have "2 powi (- 38) \<le> ewma weight (inst_pps now (lastTime b)) (pps b)" if "bucket_ok b"
    using that powi_2_pos [of "- 38"] by (intro ewma_ge_pow2 inst_pps_close) (auto simp: bucket_ok_def)
  ultimately have "2 powi (- 38) \<le> pps (updateBucket l n now b)"
    using assms by (auto simp: updateBucket_pps)
  moreover have "0 \<le> fl (of_int n) / gap_seconds now (lastTime b)"
    using assms(3) gap_seconds_pos [of now "lastTime b"] by (simp add: fl_nonneg)
  then have "0 \<le> ewma weight (fl (fl (of_int n) / gap_seconds now (lastTime b))) (bps b)" if "bucket_ok b"
    using that weight_coarse coweight_coarse unfolding ewma_def coweight_def [symmetric]
    by (intro fl_nonneg add_nonneg_nonneg mult_nonneg_nonneg) (simp_all add: bucket_ok_def)
  then have "0 \<le> bps (updateBucket l n now b)"
    using assms by (auto simp: updateBucket_def Let_def fl_nonneg)
  ultimately show ?thesis
    by (simp add: bucket_ok_def updateBucket_def Let_def)
qed

lemma old_bucket_ok: "limiter_inv l \<Longrightarrow> pps (old_bucket l key now) = 0 \<or> bucket_ok (old_bucket l key now)"
  by (simp add: limiter_inv_def old_bucket_def split: option.split)

lemma allow_key_inv:
  assumes inv: "limiter_inv l" and "gm_enum ord (buckets l)" "0 \<le> n"
  shows "limiter_inv (snd (allow_key ord key now n l))"
proof -
  let ?b = "updateBucket l n now (old_bucket l key now)"
  have l: "0 < lim_MaxEntries l" "gm_wf (buckets l)" "int (length (buckets l)) \<le> lim_MaxEntries l" "alpha l = weight"
    using inv by (simp_all add: limiter_inv_def)
  have b: "bucket_ok ?b" using updateBucket_ok [OF l(4) old_bucket_ok [OF inv] assms(3)] .
  let ?m = "put_bounded (sampled_oldest lastTime) (lim_MaxEntries l) ord key ?b (buckets l)"
  have "bucket_ok b'" if "map_of ?m k = Some b'" for k b'
  proof (cases "k = key")
    case True
    with that b show ?thesis by (simp add: oldest_bucket.put_bounded_same)
  next
    case False
    with that inv show ?thesis
      by (auto simp: oldest_bucket.put_bounded_other limiter_inv_def split: if_splits)
  qed
  moreover have "int (length ?m) \<le> lim_MaxEntries l"
    using l assms(2) by (intro oldest_bucket.put_bounded_length) simp_all
  ultimately show ?thesis
    using l by (simp add: allow_key_eq Let_def limiter_inv_def oldest_bucket.put_bounded_wf)
qed

text \<open>Any sequence of the limiter's methods.\<close>

inductive lim_reachable :: "float64 \<Rightarrow> float64 \<Rightarrow> Limiter \<Rightarrow> bool" for pl bl where
  new: "lim_reachable pl bl (NewLimiter pl bl)"
| allow: "lim_reachable pl bl l \<Longrightarrow> gm_enum ord (buckets l) \<Longrightarrow> 0 \<le> n \<Longrightarrow> lim_reachable pl bl (snd (Allow ord now ip n l))"
| allow_port: "lim_reachable pl bl l \<Longrightarrow> gm_enum ord (buckets l) \<Longrightarrow> 0 \<le> n \<Longrightarrow>
    lim_reachable pl bl (snd (AllowPort ord now ip port n l))"
| cleanup: "lim_reachable pl bl l \<Longrightarrow> gm_enum ord (buckets l) \<Longrightarrow> lim_reachable pl bl (snd (Cleanup now ord idle l))"

lemma cleanup_loop_other:
  "alpha (snd (cleanup_loop now idle ks s)) = alpha (snd s)" "ppsLimit (snd (cleanup_loop now idle ks s)) = ppsLimit (snd s)"
  "bpsLimit (snd (cleanup_loop now idle ks s)) = bpsLimit (snd s)"
  "lim_MaxEntries (snd (cleanup_loop now idle ks s)) = lim_MaxEntries (snd s)"
  "gm_wf (buckets (snd s)) \<Longrightarrow> gm_wf (buckets (snd (cleanup_loop now idle ks s)))"
  by (induction now idle ks s rule: cleanup_loop.induct) (auto split: option.split)

lemma cleanup_loop_subset:
  "length (buckets (snd (cleanup_loop now idle ks s))) \<le> length (buckets (snd s))"
  "map_of (buckets (snd (cleanup_loop now idle ks s))) k = Some b \<Longrightarrow> map_of (buckets (snd s)) k = Some b"
  by (induction now idle ks s rule: cleanup_loop.induct)
    (auto split: option.splits if_splits simp: gm_lookup_delete intro: order_trans [OF _ AList.length_delete_le])

lemma Cleanup_inv: "limiter_inv l \<Longrightarrow> limiter_inv (snd (Cleanup now ord idle l))"
  using cleanup_loop_other [where s = "(0, l)" and now = now and idle = idle and ks = ord] cleanup_loop_subset [where s = "(0, l)" and now = now and idle = idle and ks = ord]
  by (fastforce simp: limiter_inv_def Cleanup_def)

lemma lim_reachable_inv:
  "lim_reachable pl bl l \<Longrightarrow> limiter_inv l \<and> ppsLimit l = pl \<and> bpsLimit l = bl"
proof (induction rule: lim_reachable.induct)
  case new
  then show ?case by (simp add: NewLimiter_inv) (simp add: NewLimiter_def)
next
  case (allow l ord n now ip)
  then have "0 < lim_MaxEntries l" by (simp add: limiter_inv_def)
  with allow show ?case by (simp add: Allow_def allow_key_inv)
next
  case (allow_port l ord n now ip port)
  then have "0 < lim_MaxEntries l" by (simp add: limiter_inv_def)
  with allow_port show ?case by (simp add: AllowPort_def allow_key_inv)
next
  case (cleanup l ord now idle)
  then show ?case using cleanup_loop_other [where s = "(0, l)" and now = now and idle = idle and ks = ord] by (simp add: Cleanup_inv) (simp add: Cleanup_def)
qed

text \<open>
  C11. In every reachable limiter the number of buckets stays within its bound, and every bucket
  holds a positive packet rate of at most 1e12 and a byte rate between 0 and 1e15: the zero
  that marks a fresh bucket never comes back, however long the source was silent, and no
  rate overflows.
\<close>

theorem rate_limiter_invariant:
  assumes "lim_reachable pl bl l"
  shows "int (lim_Len l) \<le> lim_MaxEntries l \<and>
    (\<forall>k b. map_of (buckets l) k = Some b \<longrightarrow> 0 < pps b \<and> pps b \<le> 10 ^ 12 \<and> 0 \<le> bps b \<and> bps b \<le> 10 ^ 15)"
proof -
  have inv: "limiter_inv l" using lim_reachable_inv [OF assms] by simp
  have "0 < pps b \<and> pps b \<le> 10 ^ 12 \<and> 0 \<le> bps b \<and> bps b \<le> 10 ^ 15" if "bucket_ok b" for b
    using that less_le_trans [OF powi_2_pos [of "- 38"], of "pps b"] unfolding bucket_ok_def by blast
  with inv show ?thesis unfolding limiter_inv_def lim_Len_def by blast
qed

text \<open>
  What \<open>Allow\<close> does: it returns the rates it stores, one packet per second and the packet's
  size for the first packet of a source; every other bucket is unchanged, except that a
  full table loses the least recently used of the sampled buckets when the source is new.
\<close>

theorem Allow_contract:
  assumes "limiter_inv l" "gm_enum ord (buckets l)" "Allow ord now ip n l = ((p, q), l')" and "k \<noteq> ipKey ip"
  shows "GetPPS l' ip = p \<and> GetBPS l' ip = q \<and>
    (map_of (buckets l) (ipKey ip) = None \<longrightarrow> p = 1 \<and> q = min (10 ^ 15) (fl (of_int n))) \<and>
    (map_of (buckets l') k \<noteq> map_of (buckets l) k \<longrightarrow>
       map_of (buckets l) (ipKey ip) = None \<and> lim_MaxEntries l \<le> int (lim_Len l) \<and> map_of (buckets l') k = None \<and>
       (\<exists>b. map_of (buckets l) k = Some b \<and>
         (\<forall>k' \<in> set (take 16 ord). \<forall>b'. map_of (buckets l) k' = Some b' \<longrightarrow> lastTime b \<le> lastTime b')))"
proof -
  have pos: "0 < lim_MaxEntries l" using assms(1) by (simp add: limiter_inv_def)
  let ?b = "updateBucket l n now (old_bucket l (ipKey ip) now)"
  have l': "l' = l\<lparr>buckets := put_bounded (sampled_oldest lastTime) (lim_MaxEntries l) ord (ipKey ip) ?b (buckets l)\<rparr>"
    and r: "p = pps ?b" "q = bps ?b"
    using assms(3) by (simp_all add: Allow_def allow_key_eq [OF pos] Let_def)
  have "p = 1 \<and> q = min (10 ^ 15) (fl (of_int n))" if "map_of (buckets l) (ipKey ip) = None"
    using that by (simp add: r updateBucket_def old_bucket_def min_def Let_def)
  moreover have "\<exists>b. map_of (buckets l) k = Some b \<and>
      (\<forall>k' \<in> set (take 16 ord). \<forall>b'. map_of (buckets l) k' = Some b' \<longrightarrow> lastTime b \<le> lastTime b')"
    if "sampled_oldest lastTime ord (buckets l) = Some k"
    using that by (elim sampled_oldest_Some) (auto simp: evictionSampleSize_def)
  moreover have "GetPPS l' ip = p" "GetBPS l' ip = q"
    by (simp_all add: l' r GetPPS_def GetBPS_def getBucketPPS_def getBucketBPS_def oldest_bucket.put_bounded_same)
  ultimately show ?thesis
    using assms(4) gm_lookup_None_iff [of "buckets l" "ipKey ip"]
    by (auto simp: l' oldest_bucket.put_bounded_other lim_Len_def)
qed

section \<open>Floods and slow sources\<close>

lemma Allow_same:
  assumes "0 < lim_MaxEntries l" "Allow ord now ip n l = ((p, q), l')"
  shows "map_of (buckets l') (ipKey ip) = Some (updateBucket l n now (old_bucket l (ipKey ip) now)) \<and>
    alpha l' = alpha l \<and> lim_MaxEntries l' = lim_MaxEntries l \<and> ppsLimit l' = ppsLimit l \<and>
    p = pps (updateBucket l n now (old_bucket l (ipKey ip) now))"
  using assms(2) by (auto simp: Allow_def allow_key_eq [OF assms(1)] Let_def oldest_bucket.put_bounded_same)

lemma inst_pps_flood:
  assumes "prev < now" "0 < L" "2 * L * of_int (time_sub now prev) \<le> 10 ^ 9"
  shows "199 / 100 * L \<le> inst_pps now prev" "L \<le> 10 ^ 9"
proof -
  let ?d = "of_int (time_sub now prev) :: rat"
  have d: "1 \<le> ?d" using assms(1) time_sub_pos_iff [of now prev] by simp
  have "2 * L \<le> 1 / exact_gap now prev"
    using assms d by (simp add: exact_gap_def field_simps)
  then have "2 * L * (199 / 200) \<le> 1 / exact_gap now prev * (1 - 4 * u53)"
    using u53_bounds assms(2) exact_gap_pos [of now prev] by (intro mult_mono) simp_all
  then show "199 / 100 * L \<le> inst_pps now prev" using inst_pps_close(1) [of now prev] by linarith
  have "2 * L * 1 \<le> 2 * L * ?d" using d assms(2) by (intro mult_left_mono) simp_all
  then show "L \<le> 10 ^ 9" using assms(2,3) by linarith
qed

text \<open>Two updates at twice the rate \<open>L\<close> lift any bucket above \<open>L\<close>.\<close>

lemma two_updates_exceed:
  assumes b: "bucket_ok b" and L: "0 < L" and a: "alpha l = weight" "alpha l' = weight"
    and gap2: "lastTime b < t2" "2 * L * of_int (time_sub t2 (lastTime b)) \<le> 10 ^ 9"
    and gap3: "t2 < t3" "2 * L * of_int (time_sub t3 t2) \<le> 10 ^ 9"
  shows "L < pps (updateBucket l' n3 t3 (updateBucket l n2 t2 b))"
proof -
  define b2 where "b2 = updateBucket l n2 t2 b"
  note i2 = inst_pps_flood [OF gap2(1) L gap2(2)] and i3 = inst_pps_flood [OF gap3(1) L gap3(2)]
  have y: "2 powi (- 38) \<le> pps b" "0 \<le> pps b" "pps b \<noteq> 0"
    using b less_le_trans [OF powi_2_pos [of "- 38"], of "pps b"] unfolding bucket_ok_def by auto
  have "2998 / 10000 * (199 / 100 * L) + 6998 / 10000 * 0 \<le> ewma weight (inst_pps t2 (lastTime b)) (pps b)"
    using i2 L y by (intro ewma_lower inst_pps_close) auto
  then have y2: "59 / 100 * L \<le> pps b2" "2 powi (- 38) \<le> pps b2"
    using L y a i2(2) ewma_ge_pow2 [OF inst_pps_close(3) [of t2 "lastTime b"] y(2)]
    by (auto simp: b2_def updateBucket_pps)
  have "pps b2 \<noteq> 0" using less_le_trans [OF powi_2_pos [of "- 38"] y2(2)] by simp
  moreover have "2998 / 10000 * (199 / 100 * L) + 6998 / 10000 * (59 / 100 * L) \<le> ewma weight (inst_pps t3 t2) (pps b2)"
    using i3 L y2 by (intro ewma_lower inst_pps_close) auto
  ultimately have "L < pps (updateBucket l' n3 t3 b2)"
    using L a i2(2) by (simp add: updateBucket_pps) (simp add: b2_def)
  then show ?thesis by (simp add: b2_def)
qed

text \<open>
  C30. A flood is caught at its third packet: when three packets of a source are recorded one
  after the other, each at most half the allowed interval after the one before (twice the
  configured packet rate), the third already exceeds the limit, whatever the source's
  bucket held before.
\<close>

theorem flood_exceeds_limit:
  assumes inv: "limiter_inv l" and L: "0 < ppsLimit l" and sizes: "0 \<le> n1"
    and enum: "gm_enum o1 (buckets l)"
    and gap2: "t1 < t2" "2 * ppsLimit l * of_int (time_sub t2 t1) \<le> 10 ^ 9"
    and gap3: "t2 < t3" "2 * ppsLimit l * of_int (time_sub t3 t2) \<le> 10 ^ 9"
    and calls: "Allow o1 t1 ip n1 l = (r1, l1)" "Allow o2 t2 ip n2 l1 = (r2, l2)" "Allow o3 t3 ip n3 l2 = ((p, q), l3)"
  shows "ExceedsLimit l3 p q"
proof -
  obtain p1 q1 p2 q2 where r: "r1 = (p1, q1)" "r2 = (p2, q2)" by fastforce
  have max: "0 < lim_MaxEntries l" using inv by (simp add: limiter_inv_def)
  note s1 = Allow_same [OF max calls(1) [unfolded r]]
  then have max1: "0 < lim_MaxEntries l1" using max by simp
  note s2 = Allow_same [OF max1 calls(2) [unfolded r]]
  then have "0 < lim_MaxEntries l2" using max1 by simp
  note s3 = Allow_same [OF this calls(3)]
  define b1 where "b1 = updateBucket l n1 t1 (old_bucket l (ipKey ip) t1)"
  have old: "old_bucket l1 (ipKey ip) t2 = b1" "old_bucket l2 (ipKey ip) t3 = updateBucket l1 n2 t2 b1" and t: "lastTime b1 = t1"
    using s1 s2 by (simp_all add: old_bucket_def b1_def)
  have "limiter_inv l1" using allow_key_inv [OF inv enum sizes, of "ipKey ip" t1] calls(1) by (simp add: Allow_def)
  then have "bucket_ok b1" "alpha l1 = weight" "alpha l2 = weight"
    using s1 s2 by (auto simp: limiter_inv_def b1_def)
  from two_updates_exceed [OF this(1) L this(2,3), unfolded t, OF gap2 gap3, of n3 n2]
  show ?thesis using s1 s2 s3 old L by (simp add: ExceedsLimit_def)
qed

text \<open>The bucket of a source after packets at the given times.\<close>

definition bucket_run :: "Limiter \<Rightarrow> (time \<times> int) list \<Rightarrow> rateBucket \<Rightarrow> rateBucket" where
  "bucket_run l ps b = foldl (\<lambda>b (now, n). updateBucket l n now b) b ps"

text \<open>Consecutive packets at least \<open>gap\<close> nanoseconds apart.\<close>

fun spaced :: "nat \<Rightarrow> time \<Rightarrow> (time \<times> int) list \<Rightarrow> bool" where
  "spaced gap prev [] \<longleftrightarrow> True"
| "spaced gap prev ((now, n) # ps) \<longleftrightarrow> prev + gap \<le> now \<and> int now - int prev \<le> max_duration \<and> spaced gap now ps"

lemma spaced_inst:
  assumes "0 < gap" "prev + gap \<le> now" "int now - int prev \<le> max_duration"
  shows "inst_pps now prev \<le> 10 ^ 9 / of_nat gap * (1 + 4 * u53)"
proof -
  have "time_sub now prev = int now - int prev" using assms by (intro time_sub_exact) simp_all
  then have "exact_gap now prev = of_nat (now - prev) / 10 ^ 9"
    using assms by (simp add: exact_gap_def of_nat_diff)
  moreover have "(of_nat gap :: rat) \<le> of_nat (now - prev)" using assms by simp
  ultimately have "of_nat gap / 10 ^ 9 \<le> exact_gap now prev" by (simp only: divide_right_mono zero_le_power zero_le_numeral)
  then have "1 / exact_gap now prev \<le> 10 ^ 9 / of_nat gap"
    using assms(1) frac_le [of 1 1 "of_nat gap / 10 ^ 9" "exact_gap now prev"] by simp
  then have "1 / exact_gap now prev * (1 + 4 * u53) \<le> 10 ^ 9 / of_nat gap * (1 + 4 * u53)"
    using u53_bounds by (intro mult_right_mono) simp_all
  with inst_pps_close(2) [of now prev] show ?thesis by linarith
qed

lemma bucket_run_bound:
  assumes "alpha l = weight" "0 < gap" "10 ^ 9 / of_nat gap * (1 + 4 * u53) \<le> X" "1 \<le> X"
  shows "spaced gap (lastTime b) ps \<Longrightarrow> 2 powi (- 38) \<le> pps b \<Longrightarrow> pps b \<le> X * (1 + 16 * u53) \<Longrightarrow>
    pps (bucket_run l ps b) \<le> X * (1 + 16 * u53)"
proof (induction ps arbitrary: b)
  case Nil
  then show ?case by (simp add: bucket_run_def)
next
  case (Cons pn ps)
  obtain now n where pn: "pn = (now, n)" by (cases pn)
  let ?x = "inst_pps now (lastTime b)"
  have "?x \<le> X" using spaced_inst [of gap "lastTime b" now] Cons.prems(1) assms pn by simp
  then have "ewma weight ?x (pps b) \<le> X * (1 + 16 * u53)"
    using Cons.prems by (intro ewma_upper inst_pps_close)
  moreover have "2 powi (- 38) \<le> ewma weight ?x (pps b)" "2 powi (- 38) \<le> (10 ^ 12 :: rat)"
    using Cons.prems(2) powi_2_pos [of "- 38"] by (intro ewma_ge_pow2 inst_pps_close; linarith) (simp add: power_int_minus)
  moreover have "pps b \<noteq> 0" using less_le_trans [OF powi_2_pos Cons.prems(2)] by simp
  ultimately have "pps (updateBucket l n now b) \<le> X * (1 + 16 * u53)" "2 powi (- 38) \<le> pps (updateBucket l n now b)"
    using assms(1) by (auto simp: updateBucket_pps min_le_iff_disj)
  with Cons.IH [of "updateBucket l n now b"] Cons.prems(1) pn show ?case by (simp add: bucket_run_def)
qed

text \<open>
  C29. The packet rate reported for a source that keeps its distance is bounded: if consecutive
  packets are at least \<open>gap\<close> nanoseconds apart, then after any number of them the reported
  rate is at most one packet per gap (or one per second, if that is more), up to a relative
  rounding error of 2 to the power -48 that does not grow with the number of packets.
\<close>

theorem spaced_source_rate_bounded:
  assumes "limiter_inv l" "0 < gap" "spaced gap t0 ps"
  shows "pps (bucket_run l ((t0, n0) # ps) \<lparr>pps = 0, bps = 0, lastTime = t0\<rparr>) \<le>
    max 1 (10 ^ 9 / of_nat gap) * (1 + 1 / 2 ^ 48)"
proof -
  have a: "alpha l = weight" using assms(1) by (simp add: limiter_inv_def)
  define R :: rat where "R = max 1 (10 ^ 9 / of_nat gap)"
  let ?X = "R * (1 + 4 * u53)" and ?b = "updateBucket l n0 t0 \<lparr>pps = 0, bps = 0, lastTime = t0\<rparr>"
  have R: "1 \<le> R" by (simp add: R_def)
  have "1 * 1 \<le> ?X" using R u53_bounds by (intro mult_mono) simp_all
  then have X: "1 \<le> ?X" by simp
  have "10 ^ 9 / of_nat gap * (1 + 4 * u53) \<le> ?X" using u53_bounds by (intro mult_right_mono) (simp_all add: R_def)
  moreover have "?X * 1 \<le> ?X * (1 + 16 * u53)" using X u53_bounds by (intro mult_left_mono) simp_all
  then have "1 \<le> ?X * (1 + 16 * u53)" using X by linarith
  ultimately have "pps (bucket_run l ps ?b) \<le> ?X * (1 + 16 * u53)"
    using assms X a by (intro bucket_run_bound [of l gap]) (simp_all add: updateBucket_pps power_int_minus)
  also have "\<dots> \<le> R * (1 + 1 / 2 ^ 48)"
    using R mult_left_mono [of "(1 + 4 * u53) * (1 + 16 * u53)" "1 + 1 / 2 ^ 48" R] by (simp add: u53_def mult.assoc)
  finally show ?thesis by (simp add: bucket_run_def R_def)
qed

section \<open>Sample limiters\<close>

definition sample_limiter :: Limiter where
  "sample_limiter = snd (Allow [] 1000000000 ''10.0.0.1'' 60 (NewLimiter 1000 0))"

lemma sample_limiter_reachable: "lim_reachable 1000 0 sample_limiter"
  unfolding sample_limiter_def by (intro lim_reachable.intros) (simp_all add: NewLimiter_def gm_enum_def)

lemma sample_limiter_buckets:
  "buckets sample_limiter = [(ipKey ''10.0.0.1'', \<lparr>pps = 1, bps = 60, lastTime = 1000000000\<rparr>)]"
  using fl_of_int [of 60]
  by (simp add: sample_limiter_def Allow_def allow_key_def getOrCreateBucket_def NewLimiter_def updateBucket_def Let_def)

theorem Cleanup_exact_witness:
  "fst (Cleanup 9000000000 [ipKey ''10.0.0.1''] 5000000000 sample_limiter) = 1"
proof -
  obtain n l' where call: "Cleanup 9000000000 [ipKey ''10.0.0.1''] 5000000000 sample_limiter = (n, l')" by fastforce
  have "gm_wf (buckets sample_limiter)" "gm_enum [ipKey ''10.0.0.1''] (buckets sample_limiter)"
    by (simp_all add: sample_limiter_buckets gm_wf_def gm_enum_def)
  note c = Cleanup_exact [OF this call]
  have "time_sub 9000000000 1000000000 = 8000000000" by (simp add: time_sub_def max_duration_def min_duration_def)
  with c have "map_of (buckets l') k = None" for k by (simp add: sample_limiter_buckets)
  then have "fst (hd (buckets l')) \<notin> gm_keys (buckets l')" by (simp only: flip: gm_lookup_None_iff)
  then have "buckets l' = []" by (cases "buckets l'") auto
  with c show ?thesis by (simp add: call lim_Len_def sample_limiter_buckets)
qed

theorem rate_limiter_invariant_witness: "int (lim_Len sample_limiter) \<le> lim_MaxEntries sample_limiter"
  using rate_limiter_invariant [OF sample_limiter_reachable] by simp

theorem Allow_contract_witness:
  "\<exists>l'. Allow [ipKey ''10.0.0.1''] 2000000000 ''10.0.0.2'' 1500 sample_limiter = ((1, 1500), l') \<and> GetPPS l' ''10.0.0.2'' = 1 \<and>
     GetPPS l' ''10.0.0.1'' = GetPPS sample_limiter ''10.0.0.1''"
proof -
  obtain p q l' where call: "Allow [ipKey ''10.0.0.1''] 2000000000 ''10.0.0.2'' 1500 sample_limiter = ((p, q), l')" by (metis surj_pair)
  have inv: "limiter_inv sample_limiter" using lim_reachable_inv [OF sample_limiter_reachable] by simp
  have enum: "gm_enum [ipKey ''10.0.0.1''] (buckets sample_limiter)" by (simp add: sample_limiter_buckets gm_enum_def)
  have ne: "ipKey ''10.0.0.1'' \<noteq> ipKey ''10.0.0.2''"
    by (simp add: ipKey_def rl_normalizeIP_eq sample_addresses)
  have "fl (of_int 1500) = 1500" by (subst fl_of_int) simp_all
  moreover have "lim_MaxEntries sample_limiter = 100000"
    by (simp add: sample_limiter_def Allow_def NewLimiter_def)
  ultimately show ?thesis
    using Allow_contract [OF inv enum call ne] call ne
    by (auto simp: sample_limiter_buckets lim_Len_def GetPPS_def getBucketPPS_def)
qed

theorem flood_exceeds_limit_witness:
  "let (r1, l1) = Allow [] 1000000000 ''10.0.0.1'' 60 (NewLimiter 1000 0);
       (r2, l2) = Allow [] 1000400000 ''10.0.0.1'' 60 l1;
       ((p, q), l3) = Allow [] 1000800000 ''10.0.0.1'' 60 l2
   in ExceedsLimit l3 p q"
proof -
  obtain r1 l1 where c1: "Allow [] 1000000000 ''10.0.0.1'' 60 (NewLimiter 1000 0) = (r1, l1)" by (metis surj_pair)
  obtain r2 l2 where c2: "Allow [] 1000400000 ''10.0.0.1'' 60 l1 = (r2, l2)" by (metis surj_pair)
  obtain p q l3 where c3: "Allow [] 1000800000 ''10.0.0.1'' 60 l2 = ((p, q), l3)" by (metis surj_pair)
  have "time_sub 1000400000 1000000000 = 400000" "time_sub 1000800000 1000400000 = 400000"
    by (simp_all add: time_sub_def max_duration_def min_duration_def)
  with flood_exceeds_limit [OF NewLimiter_inv _ _ _ _ _ _ _ c1 c2 c3] have "ExceedsLimit l3 p q"
    by (simp add: NewLimiter_def gm_enum_def)
  then show ?thesis by (simp add: c1 c2 c3)
qed

theorem spaced_source_rate_bounded_witness:
  "pps (bucket_run (NewLimiter 1000 0) [(1000000000, 60), (1002000000, 60), (1005000000, 60)] \<lparr>pps = 0, bps = 0, lastTime = 1000000000\<rparr>)
     \<le> 500 * (1 + 1 / 2 ^ 48)"
  using spaced_source_rate_bounded [OF NewLimiter_inv [of 1000 0], of 2000000 1000000000 "[(1002000000, 60), (1005000000, 60)]" 60]
  by (simp add: max_duration_def)

end
