(* ===== verification/L2Filter.thy ===== *)
theory L2Filter
  imports GoNet
begin

text \<open>
  internal/l2filter/l2filter.go: MAC allow and block lists and the IP-to-MAC table learned
  from DHCP and ARP. A nil \<open>*Filter\<close> is \<open>None\<close>. A Go string is its bytes; the runes that
  \<open>normalizeMAC\<close> keeps are all ASCII, and an ASCII byte is a rune of its own in UTF-8
  whatever surrounds it, so the rune filter is a byte filter.
\<close>

section \<open>Data\<close>

record l2_Config =
  AllowedMACs :: "string list"
  BlockedMACs :: "string list"
  EnableARPCheck :: bool
  EnableDHCPCheck :: bool
  MaxARPEntries :: int

definition defaultMaxARPEntries :: int where
  "defaultMaxARPEntries = 65536"

record Filter =
  l2_cfg :: l2_Config
  allowedMACs :: "(string, bool) gomap"
  blockedMACs :: "(string, bool) gomap"
  arpTable :: "(string, string) gomap"
  maxARP :: int

section \<open>Normal forms\<close>

definition is_hex_rune :: "char \<Rightarrow> bool" where
  "is_hex_rune c \<longleftrightarrow> (let n = of_char c :: nat in 48 \<le> n \<and> n \<le> 57 \<or> 97 \<le> n \<and> n \<le> 102 \<or> 65 \<le> n \<and> n \<le> 70)"

definition is_mac_separator :: "char \<Rightarrow> bool" where
  "is_mac_separator c \<longleftrightarrow> c = CHR '':'' \<or> c = CHR ''-'' \<or> c = CHR ''.'' \<or> c = CHR '' ''"

text \<open>\<open>strings.Fields\<close> on a string of ASCII bytes.\<close>

definition is_space :: "char \<Rightarrow> bool" where
  "is_space c \<longleftrightarrow> of_char c \<in> {9, 10, 11, 12, 13, 32 :: nat}"

fun fields_loop :: "string \<Rightarrow> string \<Rightarrow> string list" where
  "fields_loop [] word_acc = (if word_acc = [] then [] else [word_acc])"
| "fields_loop (c # cs) word_acc =
     (if is_space c then (if word_acc = [] then fields_loop cs [] else word_acc # fields_loop cs [])
      else fields_loop cs (word_acc @ [c]))"

definition Fields :: "string \<Rightarrow> string list" where
  "Fields s = fields_loop s []"

definition normalizeMAC :: "string \<Rightarrow> string" where
  "normalizeMAC mac =
     (let kept = filter (\<lambda>r. is_hex_rune r \<or> is_mac_separator r) mac;
          result = filter (\<lambda>c. \<not> is_mac_separator c) (map ToLower_char kept);
          cleaned = Fields result
      in Join [] cleaned)"

definition normalizeIPKey :: "string \<Rightarrow> string" where
  "normalizeIPKey ip =
     (case ParseIP ip of
        None \<Rightarrow> ip
      | Some parsed \<Rightarrow> (case To4 parsed of Some ip4 \<Rightarrow> IP_String ip4 | None \<Rightarrow> IP_String parsed))"

definition mac_set :: "string list \<Rightarrow> (string, bool) gomap" where
  "mac_set ms = foldl (\<lambda>m mac. AList.update (normalizeMAC mac) True m) [] ms"

definition NewFilter :: "l2_Config \<Rightarrow> Filter" where
  "NewFilter c =
     \<lparr>l2_cfg = c, allowedMACs = mac_set (AllowedMACs c), blockedMACs = mac_set (BlockedMACs c), arpTable = [],
      maxARP = (if MaxARPEntries c \<le> 0 then defaultMaxARPEntries else MaxARPEntries c)\<rparr>"

section \<open>Operations\<close>

definition MACAllowed :: "Filter option \<Rightarrow> string \<Rightarrow> bool \<times> string" where
  "MACAllowed fo srcMAC =
     (case fo of
        None \<Rightarrow> (True, [])
      | Some f \<Rightarrow>
          (let norm = normalizeMAC srcMAC
           in if gm_get False (blockedMACs f) norm then (False, ''blocked MAC: '' @ srcMAC)
              else if length (allowedMACs f) = 0 then (True, [])
              else if norm = [] then (False, ''empty MAC not in allowlist'')
              else if \<not> gm_get False (allowedMACs f) norm then (False, ''MAC not in allowlist: '' @ srcMAC)
              else (True, [])))"

text \<open>The loop that deletes one entry: the first key of the iteration order.\<close>

definition first_key :: "'k list \<Rightarrow> ('k, 'v) gomap \<Rightarrow> 'k option" where
  "first_key ord m = (case ord of [] \<Rightarrow> None | k # _ \<Rightarrow> Some k)"

definition RecordDHCP :: "string list \<Rightarrow> string \<Rightarrow> string \<Rightarrow> Filter option \<Rightarrow> bool \<times> Filter option" where
  "RecordDHCP ord ip mac fo =
     (case fo of
        None \<Rightarrow> (False, None)
      | Some f \<Rightarrow>
          (let norm = normalizeMAC mac; key = normalizeIPKey ip
           in if norm = [] \<or> key = [] then (False, Some f)
              else
                (let t = (if map_of (arpTable f) key = None \<and> maxARP f \<le> int (length (arpTable f))
                          then evict first_key ord (arpTable f) else arpTable f)
                 in (True, Some (f\<lparr>arpTable := AList.update key norm t\<rparr>)))))"

definition CheckARP :: "string list \<Rightarrow> string \<Rightarrow> string \<Rightarrow> Filter option \<Rightarrow> (bool \<times> string) \<times> Filter option" where
  "CheckARP ord ip mac fo =
     (case fo of
        None \<Rightarrow> ((True, []), None)
      | Some f \<Rightarrow>
          (let norm = normalizeMAC mac
           in if norm = [] \<or> ip = [] then ((True, []), Some f)
              else
                (let key = normalizeIPKey ip
                 in case map_of (arpTable f) key of
                      None \<Rightarrow>
                        (let t = (if maxARP f \<le> int (length (arpTable f)) then evict first_key ord (arpTable f) else arpTable f)
                         in ((True, []), Some (f\<lparr>arpTable := AList.update key norm t\<rparr>)))
                    | Some knownMAC \<Rightarrow>
                        if knownMAC \<noteq> norm
                        then ((False, ''ARP spoofing detected: IP '' @ ip @ '' changed from '' @ knownMAC @ '' to '' @ mac), Some f)
                        else ((True, []), Some f))))"

section \<open>The normal form of a MAC address\<close>

lemma is_hex_rune_iff: "is_hex_rune c \<longleftrightarrow> hex_val c \<noteq> None"
  by (auto simp: is_hex_rune_def hex_val_def Let_def)

lemma of_ToLower: "of_char (ToLower_char c) = (if 65 \<le> (of_char c :: nat) \<and> of_char c \<le> (90 :: nat) then of_char c + 32 else (of_char c :: nat))"
  by (simp add: ToLower_char_def Let_def of_char_of)

lemma ToLower_hex: "is_hex_rune c \<Longrightarrow> is_hex_rune (ToLower_char c)"
  by (auto simp: is_hex_rune_def Let_def of_ToLower)

lemma ToLower_idem [simp]: "ToLower_char (ToLower_char c) = ToLower_char c"
  by (simp add: ToLower_char_def Let_def of_char_of)

lemma separator_code: "is_mac_separator c \<longleftrightarrow> of_char c \<in> {58, 45, 46, 32 :: nat}"
proof -
  have "c = d \<longleftrightarrow> (of_char c :: nat) = of_char d" for d by simp
  from this [of "CHR '':''"] this [of "CHR ''-''"] this [of "CHR ''.''"] this [of "CHR '' ''"] show ?thesis
    by (simp add: is_mac_separator_def)
qed

lemma ToLower_separator [simp]: "is_mac_separator (ToLower_char c) \<longleftrightarrow> is_mac_separator c"
  by (auto simp: separator_code of_ToLower)

lemma hex_not_separator: "is_hex_rune c \<Longrightarrow> \<not> is_mac_separator c" "is_hex_rune c \<Longrightarrow> \<not> is_space c"
  by (auto simp: separator_code is_hex_rune_def is_space_def Let_def)

lemma fields_loop_plain: "\<forall>c \<in> set s. \<not> is_space c \<Longrightarrow> fields_loop s acc = (if acc @ s = [] then [] else [acc @ s])"
  by (induction s arbitrary: acc) auto

lemma normalizeMAC_eq: "normalizeMAC mac = map ToLower_char (filter is_hex_rune mac)"
proof -
  have "filter (\<lambda>c. \<not> is_mac_separator c) (map ToLower_char (filter (\<lambda>r. is_hex_rune r \<or> is_mac_separator r) mac)) =
      map ToLower_char (filter is_hex_rune mac)"
    by (induction mac) (auto simp: hex_not_separator)
  moreover have "\<forall>c \<in> set (map ToLower_char (filter is_hex_rune mac)). \<not> is_space c"
    by (auto simp: hex_not_separator ToLower_hex)
  ultimately show ?thesis
    by (simp add: normalizeMAC_def Let_def Fields_def fields_loop_plain)
qed

lemma normalizeMAC_idem [simp]: "normalizeMAC (normalizeMAC mac) = normalizeMAC mac"
  by (induction mac) (auto simp: normalizeMAC_eq ToLower_hex)

lemma normalizeIPKey_eq: "normalizeIPKey = normalizeIP"
  by (simp add: fun_eq_iff normalizeIPKey_def normalizeIP_def)


section \<open>The learned table\<close>

interpretation first_binding: evict_policy first_key
  by unfold_locales (auto simp: first_key_def gm_enum_def split: list.splits)

definition arp_ok :: "Filter \<Rightarrow> bool" where
  "arp_ok f \<longleftrightarrow> 1 \<le> maxARP f \<and> gm_wf (arpTable f) \<and> int (length (arpTable f)) \<le> maxARP f \<and>
     (\<forall>ip mac. map_of (arpTable f) ip = Some mac \<longrightarrow> ip \<noteq> [] \<and> normalizeIP ip = ip \<and> mac \<noteq> [] \<and> normalizeMAC mac = mac)"

text \<open>Both writers store with the bounded insertion.\<close>

lemma bind_ok:
  assumes ok: "arp_ok f" and ord: "gm_enum ord (arpTable f)" and "key \<noteq> []" "normalizeIP key = key" "mac \<noteq> []" "normalizeMAC mac = mac"
  shows "arp_ok (f\<lparr>arpTable := put_bounded first_key (maxARP f) ord key mac (arpTable f)\<rparr>)"
proof -
  let ?t = "put_bounded first_key (maxARP f) ord key mac (arpTable f)"
  have f: "gm_wf (arpTable f)" "1 \<le> maxARP f" "int (length (arpTable f)) \<le> maxARP f" using ok by (simp_all add: arp_ok_def)
  have "ip \<noteq> [] \<and> normalizeIP ip = ip \<and> m \<noteq> [] \<and> normalizeMAC m = m" if "map_of ?t ip = Some m" for ip m
    using that ok assms(3-6)
    by (cases "ip = key") (auto simp: first_binding.put_bounded_same first_binding.put_bounded_other arp_ok_def split: if_splits)
  then show ?thesis
    using f first_binding.put_bounded_length [OF f(1) ord f(2,3), of key mac]
    by (simp add: arp_ok_def first_binding.put_bounded_wf)
qed

lemma RecordDHCP_eq:
  "RecordDHCP ord ip mac (Some f) =
     (if normalizeMAC mac = [] \<or> ip = [] then (False, Some f)
      else (True, Some (f\<lparr>arpTable := put_bounded first_key (maxARP f) ord (normalizeIP ip) (normalizeMAC mac) (arpTable f)\<rparr>)))"
  by (simp add: RecordDHCP_def Let_def put_bounded_def normalizeIPKey_eq normalizeIP_Nil_iff gm_lookup_None_iff)

lemma CheckARP_eq:
  "CheckARP ord ip mac (Some f) =
     (if normalizeMAC mac = [] \<or> ip = [] then ((True, []), Some f)
      else case map_of (arpTable f) (normalizeIP ip) of
        None \<Rightarrow> ((True, []), Some (f\<lparr>arpTable := put_bounded first_key (maxARP f) ord (normalizeIP ip) (normalizeMAC mac) (arpTable f)\<rparr>))
      | Some known \<Rightarrow>
          if known = normalizeMAC mac then ((True, []), Some f)
          else ((False, ''ARP spoofing detected: IP '' @ ip @ '' changed from '' @ known @ '' to '' @ mac), Some f))"
proof (cases "map_of (arpTable f) (normalizeIP ip)")
  case None
  then have "normalizeIP ip \<notin> gm_keys (arpTable f)" by (simp add: gm_lookup_None_iff)
  with None show ?thesis by (simp add: CheckARP_def Let_def put_bounded_def normalizeIPKey_eq)
qed (simp add: CheckARP_def Let_def normalizeIPKey_eq)

lemma RecordDHCP_ok: "arp_ok f \<Longrightarrow> gm_enum ord (arpTable f) \<Longrightarrow> RecordDHCP ord ip mac (Some f) = (b, Some f') \<Longrightarrow> arp_ok f'"
  using bind_ok [of f ord "normalizeIP ip" "normalizeMAC mac"]
  by (auto simp: RecordDHCP_eq normalizeIP_Nil_iff split: if_splits)

lemma CheckARP_ok: "arp_ok f \<Longrightarrow> gm_enum ord (arpTable f) \<Longrightarrow> CheckARP ord ip mac (Some f) = (r, Some f') \<Longrightarrow> arp_ok f'"
  using bind_ok [of f ord "normalizeIP ip" "normalizeMAC mac"]
  by (auto simp: CheckARP_eq normalizeIP_Nil_iff split: if_splits option.splits)

lemma NewFilter_ok: "arp_ok (NewFilter c)"
  by (simp add: arp_ok_def NewFilter_def defaultMaxARPEntries_def)

inductive l2_reachable :: "l2_Config \<Rightarrow> Filter \<Rightarrow> bool" for c where
  new: "l2_reachable c (NewFilter c)"
| dhcp: "l2_reachable c f \<Longrightarrow> gm_enum ord (arpTable f) \<Longrightarrow> RecordDHCP ord ip mac (Some f) = (b, Some f') \<Longrightarrow> l2_reachable c f'"
| arp: "l2_reachable c f \<Longrightarrow> gm_enum ord (arpTable f) \<Longrightarrow> CheckARP ord ip mac (Some f) = (r, Some f') \<Longrightarrow> l2_reachable c f'"

lemma l2_reachable_ok: "l2_reachable c f \<Longrightarrow> arp_ok f"
  by (induction rule: l2_reachable.induct) (auto intro: NewFilter_ok RecordDHCP_ok CheckARP_ok)

lemma l2_reachable_static:
  "l2_reachable c f \<Longrightarrow> allowedMACs f = mac_set (AllowedMACs c) \<and> blockedMACs f = mac_set (BlockedMACs c) \<and> maxARP f = maxARP (NewFilter c)"
  by (induction rule: l2_reachable.induct)
    (auto simp: NewFilter_def RecordDHCP_eq CheckARP_eq split: if_splits option.splits)

lemma mac_set_get: "gm_get False (mac_set ms) m \<longleftrightarrow> m \<in> normalizeMAC ` set ms"
proof -
  have "gm_get False (foldl (\<lambda>m mac. AList.update (normalizeMAC mac) True m) t ms) m \<longleftrightarrow> gm_get False t m \<or> m \<in> normalizeMAC ` set ms" for t
    by (induction ms arbitrary: t) (auto simp: gm_get_update)
  from this [of "[]"] show ?thesis by (simp add: mac_set_def gm_get_def)
qed

lemma mac_set_Nil_iff: "mac_set ms = [] \<longleftrightarrow> ms = []"
proof -
  have "t \<noteq> [] \<Longrightarrow> foldl (\<lambda>m mac. AList.update (normalizeMAC mac) True m) t ns \<noteq> []" for t ns
    by (induction ns arbitrary: t) auto
  then show ?thesis by (cases ms) (auto simp: mac_set_def)
qed

text \<open>
  In every reachable filter the learned table stays within its bound, holds no empty address
  and no empty MAC, and keys and MACs are in normal form, so one host has one entry.
\<close>

theorem arp_table_invariant:
  assumes "l2_reachable c f"
  shows "int (length (arpTable f)) \<le> (if MaxARPEntries c \<le> 0 then 65536 else MaxARPEntries c) \<and>
    (\<forall>ip mac. map_of (arpTable f) ip = Some mac \<longrightarrow> ip \<noteq> [] \<and> normalizeIPKey ip = ip \<and> mac \<noteq> [] \<and> normalizeMAC mac = mac)"
  using l2_reachable_ok [OF assms] l2_reachable_static [OF assms]
  by (auto simp: arp_ok_def NewFilter_def defaultMaxARPEntries_def normalizeIPKey_eq)

text \<open>
  C33. A learned binding is enforced under every spelling: once \<open>CheckARP\<close> or \<open>RecordDHCP\<close> has
  accepted a valid address with a MAC that has at least one hexadecimal digit, a later check of any
  spelling of that address is accepted exactly when its MAC has the same hexadecimal digits, whatever
  case and separators, or has none at all (such a MAC is never compared), and does not change the
  table.
\<close>

theorem arp_binding_enforced:
  assumes "ParseIP ip \<noteq> None" "ParseIP ip' = ParseIP ip" "filter is_hex_rune mac \<noteq> []"
    and "CheckARP ord ip mac (Some f) = ((True, r), Some f') \<or> RecordDHCP ord ip mac (Some f) = (True, Some f')"
  shows "(fst (fst (CheckARP ord' ip' mac' (Some f'))) \<longleftrightarrow>
      filter is_hex_rune mac' = [] \<or> map ToLower_char (filter is_hex_rune mac') = map ToLower_char (filter is_hex_rune mac)) \<and>
    snd (CheckARP ord' ip' mac' (Some f')) = Some f'"
proof -
  have key: "normalizeIP ip' = normalizeIP ip" using assms(1,2) normalizeIP_eq_iff [of ip' ip] by auto
  have ne: "ip \<noteq> []" "ip' \<noteq> []" using assms(1,2) by (auto simp: ParseIP_def ParseAddr_def)
  have mac: "normalizeMAC mac \<noteq> []" "normalizeMAC mac' = [] \<longleftrightarrow> filter is_hex_rune mac' = []"
    using assms(3) by (simp_all add: normalizeMAC_eq)
  have known: "map_of (arpTable f') (normalizeIP ip) = Some (normalizeMAC mac)"
    using assms(4) ne mac(1)
    by (auto simp: CheckARP_eq RecordDHCP_eq first_binding.put_bounded_same split: option.splits if_splits)
  show ?thesis
    unfolding mac(2) [symmetric] normalizeMAC_eq [symmetric] using ne known key by (auto simp: CheckARP_eq)
qed

text \<open>
  The MAC decision: a MAC is refused exactly when it is on the block list, or an allow list
  is configured and the MAC is empty or not on it; the block list wins, and case,
  separators and stray characters make no difference.
\<close>

theorem MACAllowed_iff:
  "fst (MACAllowed (Some (NewFilter c)) mac) \<longleftrightarrow>
     normalizeMAC mac \<notin> normalizeMAC ` set (BlockedMACs c) \<and>
     (AllowedMACs c = [] \<or> normalizeMAC mac \<noteq> [] \<and> normalizeMAC mac \<in> normalizeMAC ` set (AllowedMACs c))"
  by (simp add: MACAllowed_def NewFilter_def Let_def mac_set_get mac_set_Nil_iff)

section \<open>A sample filter\<close>

definition sample_l2 :: l2_Config where
  "sample_l2 = \<lparr>AllowedMACs = [], BlockedMACs = [''AA:BB''], EnableARPCheck = True, EnableDHCPCheck = True, MaxARPEntries = 2\<rparr>"

definition sample_learned :: Filter where
  "sample_learned = (NewFilter sample_l2)\<lparr>arpTable := [(''10.0.0.1'', ''0a1b'')]\<rparr>"

lemma sample_mac: "normalizeMAC ''0A-1B'' = ''0a1b''" "normalizeMAC ''0a:1b'' = ''0a1b''" "normalizeMAC ''0a:1c'' = ''0a1c''"
  by code_simp+

lemma sample_learn: "CheckARP [] ''10.0.0.1'' ''0A-1B'' (Some (NewFilter sample_l2)) = ((True, []), Some sample_learned)"
  by (simp add: CheckARP_def sample_mac normalizeIPKey_eq sample_addresses Let_def sample_learned_def NewFilter_def sample_l2_def)

lemma sample_learned_reachable: "l2_reachable sample_l2 sample_learned"
  by (rule l2_reachable.arp [OF l2_reachable.new _ sample_learn]) (simp add: NewFilter_def gm_enum_def)

theorem arp_table_invariant_witness: "int (length (arpTable sample_learned)) \<le> 2"
  using arp_table_invariant [OF sample_learned_reachable] by (simp add: sample_l2_def)

theorem arp_binding_enforced_witness:
  "fst (fst (CheckARP [] ''::ffff:10.0.0.1'' ''0a:1b'' (Some sample_learned))) \<and>
   \<not> fst (fst (CheckARP [] ''::ffff:10.0.0.1'' ''0a:1c'' (Some sample_learned)))"
proof -
  have digits: "filter is_hex_rune m = [] \<longleftrightarrow> normalizeMAC m = []" for m by (simp add: normalizeMAC_eq)
  have "filter is_hex_rune ''0A-1B'' \<noteq> []" unfolding digits sample_mac by simp
  note enforced = arp_binding_enforced [OF sample_addresses(5) sample_addresses(4) this disjI1 [OF sample_learn],
      unfolded digits normalizeMAC_eq [symmetric]]
  from enforced [of "[]" "''0a:1b''"] enforced [of "[]" "''0a:1c''"] show ?thesis unfolding sample_mac by simp
qed

end
