(* ===== verification/GoCIDR.thy ===== *)
theory GoCIDR
  imports GoNet
begin

unbundle bit_operations_syntax

text \<open>
  Go's CIDR networks as far as the blocklist uses them: \<open>net.ParseCIDR\<close>, \<open>CIDRMask\<close>,
  \<open>IPNet.Contains\<close> and \<open>IPNet.String\<close>. The lemmas relate the byte-wise masks to prefixes
  of the address's bits and show that the printed form identifies the network.
\<close>

section \<open>Definitions\<close>

record IPNet =
  net_IP :: IP
  net_Mask :: "byte list"

fun CIDRMask :: "nat \<Rightarrow> nat \<Rightarrow> byte list" where
  "CIDRMask n 0 = []"
| "CIDRMask n (Suc l) =
     (if 8 \<le> n then 0xFF # CIDRMask (n - 8) l else NOT (drop_bit n 0xFF) # CIDRMask 0 l)"

definition mask_bytes :: "IP \<Rightarrow> byte list \<Rightarrow> IP" where
  "mask_bytes ip m = map2 (AND) ip m"

text \<open>\<open>dtoi\<close> on a whole string: digits only, at least one, below \<open>0xFFFFFF\<close> at every step.\<close>

fun dtoi_loop :: "string \<Rightarrow> nat \<Rightarrow> nat option" where
  "dtoi_loop [] n = Some n"
| "dtoi_loop (c # cs) n =
     (case dec_val c of
        None \<Rightarrow> None
      | Some d \<Rightarrow> (let n' = n * 10 + d in if n' \<ge> 0xFFFFFF then None else dtoi_loop cs n'))"

definition dtoi :: "string \<Rightarrow> nat option" where
  "dtoi s = (if s = [] then None else dtoi_loop s 0)"

definition ParseCIDR :: "string \<Rightarrow> IPNet option" where
  "ParseCIDR s =
     (case Cut CHR ''/'' s of
        None \<Rightarrow> None
      | Some (addr, len_str) \<Rightarrow>
          (case ParseAddr addr of
             None \<Rightarrow> None
           | Some a \<Rightarrow>
               (case dtoi len_str of
                  None \<Rightarrow> None
                | Some n \<Rightarrow>
                    if n > 8 * length a then None
                    else (let m = CIDRMask n (length a) in Some \<lparr>net_IP = mask_bytes a m, net_Mask = m\<rparr>))))"

definition networkNumberAndMask :: "IPNet \<Rightarrow> (IP \<times> byte list) option" where
  "networkNumberAndMask n =
     (let ip = (case To4 (net_IP n) of Some p4 \<Rightarrow> p4 | None \<Rightarrow> net_IP n); m = net_Mask n
      in if length ip \<noteq> 4 \<and> length ip \<noteq> 16 then None
         else if length m = 4 then (if length ip \<noteq> 4 then None else Some (ip, m))
         else if length m = 16 then Some (ip, if length ip = 4 then drop 12 m else m)
         else None)"

definition IPNet_Contains :: "IPNet \<Rightarrow> IP \<Rightarrow> bool" where
  "IPNet_Contains n ip0 =
     (let ip = (case To4 ip0 of Some x \<Rightarrow> x | None \<Rightarrow> ip0)
      in case networkNumberAndMask n of
           None \<Rightarrow> ip = []
         | Some (nn, m) \<Rightarrow>
             length ip = length nn \<and> (\<forall>i < length ip. nn ! i AND m ! i = ip ! i AND m ! i))"

text \<open>\<open>simpleMaskLength\<close>: the number of leading ones of a mask, \<open>None\<close> for a mask with holes.\<close>

fun leading_ones :: "nat \<Rightarrow> byte \<Rightarrow> nat \<times> byte" where
  "leading_ones 0 v = (0, v)"
| "leading_ones (Suc k) v =
     (if v AND 0x80 \<noteq> 0 then (case leading_ones k (push_bit 1 v) of (n, w) \<Rightarrow> (Suc n, w)) else (0, v))"

fun simpleMaskLength :: "byte list \<Rightarrow> nat option" where
  "simpleMaskLength [] = Some 0"
| "simpleMaskLength (v # vs) =
     (if v = 0xFF then map_option ((+) 8) (simpleMaskLength vs)
      else (case leading_ones 8 v of
              (n, w) \<Rightarrow> if w \<noteq> 0 \<or> (\<exists>x \<in> set vs. x \<noteq> 0) then None else Some n))"

definition IPMask_String :: "byte list \<Rightarrow> string" where
  "IPMask_String m = (if m = [] then ''<nil>'' else concat (map hex2 m))"

definition IPNet_String :: "IPNet \<Rightarrow> string" where
  "IPNet_String n =
     (case networkNumberAndMask n of
        None \<Rightarrow> ''<nil>''
      | Some (nn, m) \<Rightarrow>
          (case simpleMaskLength m of
             None \<Rightarrow> IP_String nn @ ''/'' @ IPMask_String m
           | Some l \<Rightarrow> IP_String nn @ ''/'' @ dec l))"

section \<open>Masks and prefixes\<close>

definition byte_bits :: "byte \<Rightarrow> bool list" where
  "byte_bits x = map (\<lambda>i. bit x (7 - i)) [0..<8]"

definition ip_bits :: "IP \<Rightarrow> bool list" where
  "ip_bits ip = concat (map byte_bits ip)"

lemma byte_bits_length [simp]: "length (byte_bits x) = 8"
  by (simp add: byte_bits_def)

lemma byte_bits_nth: "j < 8 \<Longrightarrow> byte_bits x ! j = bit x (7 - j)"
  unfolding byte_bits_def by (subst nth_map) (simp_all del: upt_rec_numeral)

lemma ip_bits_simps [simp]: "ip_bits [] = []" "ip_bits (x # xs) = byte_bits x @ ip_bits xs"
  by (simp_all add: ip_bits_def)

lemma ip_bits_length [simp]: "length (ip_bits ip) = 8 * length ip"
  by (induction ip) simp_all

lemma bit_FF: "bit (0xFF :: byte) j \<longleftrightarrow> j < 8"
  using bit_mask_iff [of 8 j, where 'a = byte] by (simp add: mask_eq_exp_minus_1)

lemma bit_partial_mask: "bit (NOT (drop_bit n 0xFF) :: byte) i \<longleftrightarrow> i < 8 \<and> 8 \<le> i + n"
proof -
  have "bit (NOT (drop_bit n 0xFF) :: byte) i \<longleftrightarrow> i < 8 \<and> \<not> bit (0xFF :: byte) (n + i)"
    unfolding bit_not_iff bit_drop_bit_eq by (simp only: possible_bit_word comp_def) simp
  then show ?thesis unfolding bit_FF by (simp add: not_less add.commute)
qed

lemma partial_mask_eq:
  assumes "n \<le> 8"
  shows "x AND NOT (drop_bit n 0xFF) = y AND NOT (drop_bit n 0xFF) \<longleftrightarrow> take n (byte_bits x) = take n (byte_bits y)"
proof
  assume "x AND NOT (drop_bit n 0xFF) = y AND NOT (drop_bit n 0xFF)"
  then have "bit x i = bit y i" if "i < 8" "8 \<le> i + n" for i
    using that by (auto simp: bit_eq_iff bit_and_iff bit_partial_mask)
  then show "take n (byte_bits x) = take n (byte_bits y)"
    using assms by (simp add: list_eq_iff_nth_eq byte_bits_nth)
next
  assume eq: "take n (byte_bits x) = take n (byte_bits y)"
  have "bit x i = bit y i" if "i < 8" "8 \<le> i + n" for i
  proof -
    have "7 - i < n" using that by linarith
    then have "byte_bits x ! (7 - i) = byte_bits y ! (7 - i)" using arg_cong [OF eq, of "\<lambda>l. l ! (7 - i)"] by simp
    moreover have "7 - (7 - i) = i" using that by simp
    ultimately show ?thesis using that byte_bits_nth [of "7 - i"] by simp
  qed
  then show "x AND NOT (drop_bit n 0xFF) = y AND NOT (drop_bit n 0xFF)"
    by (intro bit_eqI) (auto simp: bit_and_iff bit_partial_mask)
qed

lemma byte_bits_inj: "byte_bits x = byte_bits y \<longleftrightarrow> x = y"
proof
  assume eq: "byte_bits x = byte_bits y"
  have "bit x i = bit y i" if "i < 8" for i
    using arg_cong [OF eq, of "\<lambda>l. l ! (7 - i)"] byte_bits_nth [of "7 - i"] that by simp
  then show "x = y" by (intro bit_word_eqI) simp
qed simp

lemma CIDRMask_length [simp]: "length (CIDRMask n l) = l"
  by (induction n l rule: CIDRMask.induct) auto

lemma and_FF [simp]: "(x :: byte) AND 0xFF = x"
  by (rule bit_word_eqI) (unfold bit_and_iff bit_FF, simp)

definition masked_eq :: "byte list \<Rightarrow> IP \<Rightarrow> IP \<Rightarrow> bool" where
  "masked_eq m a b \<longleftrightarrow> (\<forall>i < length a. a ! i AND m ! i = b ! i AND m ! i)"

lemma masked_eq_Cons: "masked_eq (k # ks) (x # xs) (y # ys) \<longleftrightarrow> x AND k = y AND k \<and> masked_eq ks xs ys"
  by (auto simp: masked_eq_def less_Suc_eq_0_disj)

lemma masked_eq_prefix:
  "length a = l \<Longrightarrow> length b = l \<Longrightarrow> masked_eq (CIDRMask n l) a b \<longleftrightarrow> take n (ip_bits a) = take n (ip_bits b)"
proof (induction n l arbitrary: a b rule: CIDRMask.induct)
  case (1 n)
  then show ?case by (simp add: masked_eq_def)
next
  case (2 n l)
  then obtain x xs y ys where ab: "a = x # xs" "b = y # ys" "length xs = l" "length ys = l"
    by (auto simp: length_Suc_conv)
  show ?case
  proof (cases "8 \<le> n")
    case True
    with 2(1) [OF True, of xs ys] ab show ?thesis by (auto simp: masked_eq_Cons byte_bits_inj)
  next
    case False
    with 2(2) [OF False, of xs ys] ab partial_mask_eq [of n x y] show ?thesis by (simp add: masked_eq_Cons)
  qed
qed

section \<open>Parsed networks\<close>

text \<open>
  A network as an address family, a number and a prefix length: an IPv4-mapped IPv6 network
  of at least 96 bits is the IPv4 network it covers.
\<close>

definition net_canon :: "IP \<Rightarrow> nat \<Rightarrow> IP \<times> nat" where
  "net_canon a n = (case To4 (mask_bytes a (CIDRMask n (length a))) of
      Some v4 \<Rightarrow> (v4, if length a = 4 then n else n - 96)
    | None \<Rightarrow> (mask_bytes a (CIDRMask n (length a)), n))"

lemma mask_bytes_length [simp]: "length (mask_bytes a m) = min (length a) (length m)"
  by (simp add: mask_bytes_def)

lemma mask_bytes_nth: "i < length a \<Longrightarrow> i < length m \<Longrightarrow> mask_bytes a m ! i = a ! i AND m ! i"
  by (simp add: mask_bytes_def)

lemma CIDRMask_drop: "8 * k \<le> n \<Longrightarrow> k \<le> l \<Longrightarrow> drop k (CIDRMask n l) = CIDRMask (n - 8 * k) (l - k)"
proof (induction k arbitrary: n l)
  case (Suc k)
  then obtain l' where "l = Suc l'" by (cases l) auto
  with Suc.IH [of "n - 8" l'] Suc.prems show ?case by (simp add: algebra_simps)
qed simp

lemma CIDRMask_nth: "i < l \<Longrightarrow> CIDRMask n l ! i = 0xFF \<Longrightarrow> 8 * Suc i \<le> n"
proof (induction n l arbitrary: i rule: CIDRMask.induct)
  case (2 n l)
  have neq: "NOT (drop_bit n 0xFF) \<noteq> (0xFF :: byte)" if "n < 8"
    using that bit_partial_mask [of n 0] bit_FF [of 0] by auto
  have zero: "CIDRMask 0 m ! j \<noteq> 0xFF" if "j < m" for j m
    using that
  proof (induction m arbitrary: j)
    case (Suc m)
    then show ?case by (cases j) auto
  qed simp
  show ?case
  proof (cases "8 \<le> n")
    case True
    with 2(1) [OF True, of "i - 1"] 2(3,4) show ?thesis by (cases i) auto
  next
    case False
    with 2 neq zero show ?thesis by (cases i) auto
  qed
qed simp

lemma and_eq_FF: "(x :: byte) AND m = 0xFF \<Longrightarrow> m = 0xFF"
proof -
  assume eq: "x AND m = 0xFF"
  have "bit m i" if "i < 8" for i
    using arg_cong [OF eq, of "\<lambda>w. bit w i"] that unfolding bit_and_iff bit_FF by simp
  then show ?thesis by (intro bit_word_eqI) (unfold bit_FF, simp)
qed

text \<open>A masked 16-byte address is IPv4-mapped only when at least 96 bits are fixed.\<close>

lemma mapped_prefix:
  assumes "length a = 16" "To4 (mask_bytes a (CIDRMask n 16)) \<noteq> None"
  shows "96 \<le> n"
proof -
  have "take 12 (mask_bytes a (CIDRMask n 16)) = v4InV6Prefix"
    using assms by (auto simp: To4_def v4InV6Prefix_def split: if_splits)
  then have "mask_bytes a (CIDRMask n 16) ! 11 = v4InV6Prefix ! 11" by (metis nth_take lessI numeral_eq_Suc pred_numeral_simps(2) BitM.simps numeral_One)
  then have "a ! 11 AND CIDRMask n 16 ! 11 = 0xFF"
    using assms(1) by (simp add: mask_bytes_nth v4InV6Prefix_def)
  then have "CIDRMask n 16 ! 11 = 0xFF" by (rule and_eq_FF)
  then show ?thesis using CIDRMask_nth [of 11 16 n] by simp
qed

definition cidr_net :: "IP \<Rightarrow> nat \<Rightarrow> IPNet" where
  "cidr_net a n = \<lparr>net_IP = mask_bytes a (CIDRMask n (length a)), net_Mask = CIDRMask n (length a)\<rparr>"

definition cidr_ok :: "IP \<Rightarrow> nat \<Rightarrow> bool" where
  "cidr_ok a n \<longleftrightarrow> (length a = 4 \<or> length a = 16) \<and> n \<le> 8 * length a"

lemma ParseCIDR_SomeE:
  assumes "ParseCIDR s = Some net"
  obtains a n where "cidr_ok a n" "net = cidr_net a n"
proof -
  from assms obtain addr a n where "ParseAddr addr = Some a" "\<not> 8 * length a < n" "net = cidr_net a n"
    unfolding ParseCIDR_def Let_def cidr_net_def [symmetric] by (auto split: option.splits if_splits)
  then show ?thesis using ParseAddr_length [of addr a] that [of a n] by (simp add: cidr_ok_def)
qed

lemma networkNumberAndMask_cidr:
  assumes "cidr_ok a n" "net_canon a n = (nn, k)"
  shows "networkNumberAndMask (cidr_net a n) = Some (nn, CIDRMask k (length nn))"
proof (cases "To4 (mask_bytes a (CIDRMask n (length a)))")
  case None
  with assms show ?thesis
    by (auto simp: networkNumberAndMask_def net_canon_def cidr_net_def cidr_ok_def Let_def To4_def)
next
  case (Some v4)
  have l4: "length v4 = 4" using To4_length [OF Some] .
  show ?thesis
  proof (cases "length a = 4")
    case True
    with Some l4 assms show ?thesis
      by (auto simp: networkNumberAndMask_def net_canon_def cidr_net_def Let_def)
  next
    case False
    then have la: "length a = 16" using assms(1) by (simp add: cidr_ok_def)
    have "96 \<le> n" using mapped_prefix [OF la, of n] Some la by simp
    then have "drop 12 (CIDRMask n 16) = CIDRMask (n - 96) 4" using CIDRMask_drop [of 12 n 16] by simp
    with Some l4 assms la show ?thesis
      by (auto simp: networkNumberAndMask_def net_canon_def cidr_net_def Let_def)
  qed
qed

lemma net_canon_length: "cidr_ok a n \<Longrightarrow> net_canon a n = (nn, k) \<Longrightarrow> length nn = 4 \<or> length nn = 16 \<and> To4 nn = None"
  by (auto simp: net_canon_def cidr_ok_def dest: To4_length split: option.splits)

lemma net_canon_le:
  assumes "cidr_ok a n" "net_canon a n = (nn, k)"
  shows "k \<le> 8 * length nn"
  using assms by (auto simp: net_canon_def cidr_ok_def dest: To4_length split: option.splits if_splits)

subsection \<open>Containment is prefix equality\<close>

text \<open>
  The address of the reference definition is always the 16-byte form; an IPv4 network has
  96 more fixed bits there. An IPv4 address is in no network with fewer than 96 fixed bits.
\<close>

definition in_cidr :: "IP \<Rightarrow> nat \<Rightarrow> IP \<Rightarrow> bool" where
  "in_cidr a n ip \<longleftrightarrow>
     (let k = (if length a = 4 then 96 + n else n)
      in take k (ip_bits (As16 a)) = take k (ip_bits (As16 ip)) \<and> (To4 ip \<noteq> None \<longrightarrow> 96 \<le> k))"

lemma ip_bits_append [simp]: "ip_bits (xs @ ys) = ip_bits xs @ ip_bits ys"
  by (simp add: ip_bits_def)

lemma ip_bits_take: "take (8 * j) (ip_bits xs) = ip_bits (take j xs)"
proof (induction xs arbitrary: j)
  case (Cons x xs)
  then show ?case by (cases j) simp_all
qed simp

lemma ip_bits_inj: "length xs = length ys \<Longrightarrow> ip_bits xs = ip_bits ys \<longleftrightarrow> xs = ys"
  by (induction xs ys rule: list_induct2) (auto simp: byte_bits_inj)

lemma prefix_length [simp]: "length v4InV6Prefix = 12"
  by (simp add: v4InV6Prefix_def)

lemma masked_bits:
  assumes "length a = l"
  shows "take n (ip_bits (mask_bytes a (CIDRMask n l))) = take n (ip_bits a)"
proof -
  have "masked_eq (CIDRMask n l) (mask_bytes a (CIDRMask n l)) a"
    using assms by (auto simp: masked_eq_def mask_bytes_nth and.assoc)
  then show ?thesis using assms by (subst (asm) masked_eq_prefix) simp_all
qed

lemma take_96:
  assumes "96 \<le> n" "length x = 16" "length y = 16" "take n (ip_bits x) = take n (ip_bits y)"
  shows "take 12 x = take 12 y"
proof -
  have "take 96 (ip_bits x) = take 96 (ip_bits y)"
    using arg_cong [OF assms(4), of "take 96"] assms(1) by (simp add: min_absorb1)
  then have "ip_bits (take 12 x) = ip_bits (take 12 y)"
    using ip_bits_take [of 12 x] ip_bits_take [of 12 y] by simp
  then show ?thesis using assms by (simp add: ip_bits_inj)
qed

lemma To4_Some_iff: "length ip = 16 \<Longrightarrow> To4 ip = Some v \<longleftrightarrow> ip = v4InV6Prefix @ v \<and> length v = 4"
  by (auto simp: To4_def) (metis append_take_drop_id)

lemma take_v4:
  assumes "length w = 4" "length ip = 16"
  shows "take (96 + j) (ip_bits (v4InV6Prefix @ w)) = take (96 + j) (ip_bits ip) \<longleftrightarrow>
    (\<exists>v. To4 ip = Some v \<and> take j (ip_bits w) = take j (ip_bits v))"
proof
  assume eq: "take (96 + j) (ip_bits (v4InV6Prefix @ w)) = take (96 + j) (ip_bits ip)"
  then have "take 12 ip = v4InV6Prefix" using take_96 [OF _ _ _ eq] assms by simp
  then have "ip = v4InV6Prefix @ drop 12 ip" by (metis append_take_drop_id)
  then obtain v where "ip = v4InV6Prefix @ v" by blast
  then show "\<exists>v. To4 ip = Some v \<and> take j (ip_bits w) = take j (ip_bits v)"
    using eq assms by (auto simp: To4_Some_iff)
next
  assume "\<exists>v. To4 ip = Some v \<and> take j (ip_bits w) = take j (ip_bits v)"
  with assms show "take (96 + j) (ip_bits (v4InV6Prefix @ w)) = take (96 + j) (ip_bits ip)"
    by (auto simp: To4_Some_iff)
qed

lemma IPNet_Contains_canon:
  assumes "cidr_ok a n" "net_canon a n = (nn, k)"
  shows "IPNet_Contains (cidr_net a n) ip \<longleftrightarrow>
    (let c = (case To4 ip of Some v \<Rightarrow> v | None \<Rightarrow> ip)
     in length c = length nn \<and> take k (ip_bits nn) = take k (ip_bits c))"
proof -
  define c where "c = (case To4 ip of Some v \<Rightarrow> v | None \<Rightarrow> ip)"
  have "IPNet_Contains (cidr_net a n) ip \<longleftrightarrow> length c = length nn \<and> masked_eq (CIDRMask k (length nn)) nn c"
    unfolding IPNet_Contains_def Let_def networkNumberAndMask_cidr [OF assms] c_def [symmetric] masked_eq_def
    by auto
  then show ?thesis using masked_eq_prefix [of nn "length nn" c k] by (auto simp: c_def [symmetric])
qed

theorem IPNet_Contains_in_cidr:
  assumes ok: "cidr_ok a n" and ip: "length ip = 16"
  shows "IPNet_Contains (cidr_net a n) ip \<longleftrightarrow> in_cidr a n ip"
proof -
  define M where "M = mask_bytes a (CIDRMask n (length a))"
  have M: "length M = length a" "take n (ip_bits M) = take n (ip_bits a)"
    by (simp_all add: M_def masked_bits)
  have nc: "net_canon a n = (case To4 M of Some v4 \<Rightarrow> (v4, if length a = 4 then n else n - 96) | None \<Rightarrow> (M, n))"
    unfolding net_canon_def M_def ..
  consider (v4) "length a = 4" | (mapped) w where "length a = 16" "To4 M = Some w" | (v6) "length a = 16" "To4 M = None"
    using ok by (cases "To4 M") (auto simp: cidr_ok_def)
  then show ?thesis
  proof cases
    case v4
    then have can: "net_canon a n = (M, n)" using M(1) by (simp add: nc To4_def)
    with v4 M take_v4 [of a ip n] ip show ?thesis
      by (auto simp: IPNet_Contains_canon [OF ok can] in_cidr_def Let_def As16_def dest: To4_length split: option.splits)
  next
    case mapped
    have n: "96 \<le> n" using mapped_prefix [of a n] mapped by (simp add: M_def)
    have can: "net_canon a n = (w, n - 96)" using mapped by (simp add: nc)
    have Mw: "M = v4InV6Prefix @ w" "length w = 4" using mapped M(1) by (simp_all add: To4_Some_iff)
    have "in_cidr a n ip \<longleftrightarrow> take (96 + (n - 96)) (ip_bits (v4InV6Prefix @ w)) = take (96 + (n - 96)) (ip_bits ip)"
      using mapped(1) ip n M(2) unfolding Mw(1) by (simp add: in_cidr_def As16_def)
    with take_v4 [OF Mw(2) ip, of "n - 96"] Mw(2) ip show ?thesis
      by (auto simp: IPNet_Contains_canon [OF ok can] Let_def dest: To4_length split: option.splits)
  next
    case v6
    have can: "net_canon a n = (M, n)" using v6 by (simp add: nc)
    have "take n (ip_bits M) \<noteq> take n (ip_bits ip)" if "To4 ip = Some v" "96 \<le> n" for v
      using take_96 [of n M ip] that v6 M(1) ip by (auto simp: To4_def split: if_splits)
    with v6 M ip show ?thesis
      by (auto simp: IPNet_Contains_canon [OF ok can] in_cidr_def Let_def As16_def dest: To4_length split: option.splits)
  qed
qed

subsection \<open>The printed network is canonical\<close>

lemma leading_ones_partial:
  "n < 8 \<Longrightarrow> leading_ones 8 (NOT (drop_bit n 0xFF)) = (n, 0) \<and> NOT (drop_bit n 0xFF) \<noteq> (0xFF :: byte)"
proof -
  assume "n < 8"
  then have "n \<in> {0, 1, 2, 3, 4, 5, 6, 7}" by auto
  moreover have "\<forall>n \<in> {0, 1, 2, 3, 4, 5, 6, 7}. leading_ones 8 (NOT (drop_bit n 0xFF)) = (n, 0) \<and> NOT (drop_bit n 0xFF) \<noteq> (0xFF :: byte)"
    by code_simp
  ultimately show ?thesis by blast
qed

lemma CIDRMask_0: "CIDRMask 0 l = replicate l 0"
  by (induction l) simp_all

lemma simpleMaskLength_CIDRMask: "n \<le> 8 * l \<Longrightarrow> simpleMaskLength (CIDRMask n l) = Some n"
proof (induction n l rule: CIDRMask.induct)
  case (2 n l)
  show ?case
  proof (cases "8 \<le> n")
    case True
    with 2 show ?thesis by simp
  next
    case False
    with leading_ones_partial [of n] show ?thesis by (simp add: CIDRMask_0)
  qed
qed simp

lemma IPNet_String_cidr:
  assumes "cidr_ok a n" "net_canon a n = (nn, k)"
  shows "IPNet_String (cidr_net a n) = IP_String nn @ ''/'' @ dec k"
  using net_canon_le [OF assms]
  by (simp add: IPNet_String_def networkNumberAndMask_cidr [OF assms] simpleMaskLength_CIDRMask)

lemma string4_chars: "CHR ''/'' \<notin> set (string4 ip)"
proof (induction ip)
  case (Cons b bs)
  then show ?case using dec_plain [of "CHR ''/''"] by (cases "bs = []") (auto simp: string4_def Join_Cons)
qed (simp add: string4_def)

lemma IP_String_no_slash:
  assumes "length ip = 4 \<or> length ip = 16"
  shows "CHR ''/'' \<notin> set (IP_String ip)"
proof (cases "To4 ip")
  case None
  then have len: "length ip = 16" using assms by (auto simp: To4_def)
  have gs: "CHR ''/'' \<notin> set (join_groups gs)" for gs
    using join_groups_chars [of "CHR ''/''" gs] by (auto simp: hex_val_def)
  from len have "CHR ''/'' \<notin> set (string6 ip)" by (cases rule: string6_cases) (simp_all add: gs)
  then show ?thesis using None len by (auto simp: IP_String_def)
next
  case (Some v)
  then show ?thesis using assms string4_chars [of v] by (auto simp: IP_String_def)
qed

lemma ParseIP_IP_String16: "length ip = 4 \<or> length ip = 16 \<Longrightarrow> ParseIP (IP_String ip) = Some (As16 ip)"
  using ParseIP_IP_String [of ip] ParseIP_dotted [of ip] by (auto simp: As16_def IP_String_v4)

theorem IPNet_String_eq_iff:
  assumes "cidr_ok a n" "cidr_ok b m"
  shows "IPNet_String (cidr_net a n) = IPNet_String (cidr_net b m) \<longleftrightarrow> net_canon a n = net_canon b m"
proof
  obtain nn k nn' k' where c: "net_canon a n = (nn, k)" "net_canon b m = (nn', k')" by fastforce
  note l = net_canon_length [OF assms(1) c(1)] net_canon_length [OF assms(2) c(2)]
  have ns: "CHR ''/'' \<notin> set (IP_String nn)" "CHR ''/'' \<notin> set (IP_String nn')"
    using l IP_String_no_slash by blast+
  assume "IPNet_String (cidr_net a n) = IPNet_String (cidr_net b m)"
  then have "Cut CHR ''/'' (IP_String nn @ CHR ''/'' # dec k) = Cut CHR ''/'' (IP_String nn' @ CHR ''/'' # dec k')"
    using IPNet_String_cidr [OF assms(1) c(1)] IPNet_String_cidr [OF assms(2) c(2)] by simp
  then have eq: "IP_String nn = IP_String nn'" "dec k = dec k'" using ns by (simp_all add: Cut_append)
  have "As16 nn = As16 nn'"
    using eq(1) l ParseIP_IP_String16 [of nn] ParseIP_IP_String16 [of nn'] by auto
  then have "nn = nn'" using l by (auto simp: As16_def To4_def v4InV6Prefix_def split: if_splits)
  then show "net_canon a n = net_canon b m" using c dec_inj [OF eq(2)] by simp
next
  assume "net_canon a n = net_canon b m"
  then show "IPNet_String (cidr_net a n) = IPNet_String (cidr_net b m)"
    using assms by (cases "net_canon b m") (simp add: IPNet_String_cidr)
qed

corollary IPNet_String_Contains:
  assumes "cidr_ok a n" "cidr_ok b m" "IPNet_String (cidr_net a n) = IPNet_String (cidr_net b m)"
  shows "IPNet_Contains (cidr_net a n) ip = IPNet_Contains (cidr_net b m) ip"
  using assms IPNet_String_eq_iff [OF assms(1,2)]
  by (cases "net_canon b m") (simp add: IPNet_Contains_canon)

end
