(* ===== verification/ThreatIntel.thy ===== *)
theory ThreatIntel
  imports GoCIDR GoIO
begin

text \<open>
  internal/threatintel/threatintel.go: the IP reputation blocklist, the parser of a feed
  and the refresh loop. A nil \<open>*Blocklist\<close> is \<^term>\<open>None\<close>.
\<close>

section \<open>The blocklist\<close>

record Blocklist =
  ips :: "(string, unit) gomap"
  nets :: "IPNet list"
  netKeys :: "(string, unit) gomap"

definition maxBlocklistEntries :: nat where
  "maxBlocklistEntries = 500000"

definition maxCIDRNetworks :: nat where
  "maxCIDRNetworks = 65536"

definition maxFeedResponseSize :: nat where
  "maxFeedResponseSize = 50 * 1024 * 1024"

definition maxFeedLineSize :: nat where
  "maxFeedLineSize = 1024 * 1024"

definition NewBlocklist :: Blocklist where
  "NewBlocklist = \<lparr>ips = [], nets = [], netKeys = []\<rparr>"

text \<open>The map key of an address: its IPv4 form when it has one.\<close>

definition ip_key :: "IP \<Rightarrow> string" where
  "ip_key ip = (case To4 ip of Some ip4 \<Rightarrow> IP_String ip4 | None \<Rightarrow> IP_String ip)"

definition Add1 :: "string \<Rightarrow> Blocklist \<Rightarrow> Blocklist" where
  "Add1 entry bl =
     (if length (ips bl) + length (nets bl) \<ge> maxBlocklistEntries then bl
      else if Contains_char CHR ''/'' entry then
        (case ParseCIDR entry of
           None \<Rightarrow> bl
         | Some ipnet \<Rightarrow>
             (let key = IPNet_String ipnet
              in if map_of (netKeys bl) key \<noteq> None then bl
                 else if length (nets bl) \<ge> maxCIDRNetworks then bl
                 else bl\<lparr>netKeys := AList.update key () (netKeys bl), nets := nets bl @ [ipnet]\<rparr>))
      else
        (case ParseIP entry of
           None \<Rightarrow> bl
         | Some ip \<Rightarrow> bl\<lparr>ips := AList.update (ip_key ip) () (ips bl)\<rparr>))"

definition Add :: "string \<Rightarrow> Blocklist option \<Rightarrow> Blocklist option" where
  "Add entry b = map_option (Add1 entry) b"

definition BL_Contains :: "Blocklist option \<Rightarrow> string \<Rightarrow> bool" where
  "BL_Contains b ipStr =
     (case b of
        None \<Rightarrow> False
      | Some bl \<Rightarrow>
          (case ParseIP ipStr of
             None \<Rightarrow> False
           | Some ip0 \<Rightarrow>
               (let ip = (case To4 ip0 of Some ip4 \<Rightarrow> ip4 | None \<Rightarrow> ip0)
                in map_of (ips bl) (IP_String ip) \<noteq> None \<or> list_ex (\<lambda>n. IPNet_Contains n ip) (nets bl))))"

fun remove_net :: "string \<Rightarrow> IPNet list \<Rightarrow> IPNet list option" where
  "remove_net key [] = None"
| "remove_net key (n # ns) =
     (if IPNet_String n = key then Some ns else map_option ((#) n) (remove_net key ns))"

definition Remove1 :: "string \<Rightarrow> Blocklist \<Rightarrow> Blocklist" where
  "Remove1 entry bl =
     (if Contains_char CHR ''/'' entry then
        (case ParseCIDR entry of
           None \<Rightarrow> bl
         | Some ipnet \<Rightarrow>
             (let key = IPNet_String ipnet
              in case remove_net key (nets bl) of
                   None \<Rightarrow> bl
                 | Some ns \<Rightarrow> bl\<lparr>nets := ns, netKeys := AList.delete key (netKeys bl)\<rparr>))
      else
        (case ParseIP entry of
           None \<Rightarrow> bl
         | Some ip \<Rightarrow> bl\<lparr>ips := AList.delete (ip_key ip) (ips bl)\<rparr>))"

definition Remove :: "string \<Rightarrow> Blocklist option \<Rightarrow> Blocklist option" where
  "Remove entry b = map_option (Remove1 entry) b"

definition Len :: "Blocklist option \<Rightarrow> nat" where
  "Len b = (case b of None \<Rightarrow> 0 | Some bl \<Rightarrow> length (ips bl) + length (nets bl))"

definition DataForOPA :: "Blocklist option \<Rightarrow> (string, bool) gomap option" where
  "DataForOPA b =
     map_option
       (\<lambda>bl. fold (\<lambda>n m. AList.update (IPNet_String n) True m) (nets bl)
               (fold (\<lambda>ip m. AList.update ip True m) (map fst (ips bl)) []))
       b"

section \<open>Feeds\<close>

text \<open>The inner loop of \<open>parseReader\<close>: discard an overlong line in buffer-sized chunks.\<close>

lemma maxFeedLineSize_pos [simp]: "0 < maxFeedLineSize"
  by (simp add: maxFeedLineSize_def)

lemma ReadSlice_shrinks:
  "ReadSlice n early s = (l, e, r) \<Longrightarrow> 0 < n \<Longrightarrow> e = Ended \<or> length r < length s"
  by (cases s) (auto simp: ReadSlice_def Let_def split: if_splits)

function drain :: "bool \<Rightarrow> string \<Rightarrow> slice_err \<times> string" where
  "drain early s =
     (case ReadSlice maxFeedLineSize early s of
        (l, BufferFull, r) \<Rightarrow> drain early r
      | (l, e, r) \<Rightarrow> (e, r))"
  by pat_completeness auto
termination
proof (relation "measure (length \<circ> snd)", goal_cases)
  case (2 early s l y e r)
  then have "ReadSlice maxFeedLineSize early s = (l, BufferFull, r)" by simp
  then show ?case using ReadSlice_shrinks [of maxFeedLineSize early s l BufferFull r] by simp
qed simp

declare drain.simps [simp del]


lemma drain_length: "drain early s = (e, r) \<Longrightarrow> length r \<le> length s"
proof (induction early s rule: drain.induct)
  case (1 early s)
  obtain l e' r' where rs: "ReadSlice maxFeedLineSize early s = (l, e', r')" by (cases "ReadSlice maxFeedLineSize early s") auto
  have "length r' \<le> length s" using rs by (auto simp: ReadSlice_def Let_def split: if_splits)
  with 1(1) [of l "(e', r')" e' r'] 1(2) rs show ?case by (cases e') (simp_all add: drain.simps [of early s])
qed

text \<open>
  The loop of \<open>parseReader\<close>. The result is the blocklist, the number of lines handed to
  \<open>Add\<close>, and the error of the reader when it did not end with \<open>io.EOF\<close>.
\<close>

function parse_loop ::
  "bool \<Rightarrow> read_end \<Rightarrow> string \<Rightarrow> nat \<Rightarrow> Blocklist option \<Rightarrow> Blocklist option \<times> nat \<times> read_end" where
  "parse_loop early fin s count b =
     (case ReadSlice maxFeedLineSize early s of
        (line, err, r) \<Rightarrow>
          if err = BufferFull then
            (case drain early r of
               (err', r') \<Rightarrow> if err' \<noteq> NoErr then (b, count, fin) else parse_loop early fin r' count b)
          else if err = Ended \<and> fin \<noteq> EOF then (b, count, fin)
          else
            (let lineStr = TrimSpace line
             in if lineStr = [] \<or> HasPrefix lineStr ''#'' then
                  (if err = Ended then (b, count, EOF) else parse_loop early fin r count b)
                else
                  (if err = Ended then (Add lineStr b, count + 1, EOF)
                   else parse_loop early fin r (count + 1) (Add lineStr b))))"
  by pat_completeness auto
termination
proof (relation "measure (\<lambda>(early, fin, s, count, b). length s)", goal_cases)
  case (2 early fin s count b line y err r err' r')
  then have "ReadSlice maxFeedLineSize early s = (line, BufferFull, r)" "drain early r = (err', r')" by simp_all
  then show ?case using ReadSlice_shrinks [of maxFeedLineSize early s line BufferFull r] drain_length [of early r err' r'] by simp
next
  case (3 early fin s count b line y err r lineStr)
  then have "ReadSlice maxFeedLineSize early s = (line, err, r)" "err \<noteq> Ended" by simp_all
  then show ?case using ReadSlice_shrinks [of maxFeedLineSize early s line err r] by simp
next
  case (4 early fin s count b line y err r lineStr)
  then have "ReadSlice maxFeedLineSize early s = (line, err, r)" "err \<noteq> Ended" by simp_all
  then show ?case using ReadSlice_shrinks [of maxFeedLineSize early s line err r] by simp
qed simp

declare parse_loop.simps [simp del]

definition parseReader :: "reader \<Rightarrow> Blocklist option \<Rightarrow> Blocklist option \<times> nat \<times> read_end" where
  "parseReader r b = parse_loop (rd_early r) (rd_end r) (rd_bytes r) 0 b"

text \<open>
  What \<open>http.Client.Get\<close> gives for a URL is not part of the program: an error, or a
  status code and a body.
\<close>

datatype http_result = GetErr | Response int reader

datatype fetch_err = FetchFailed | BadStatus int | BodyErr

definition FetchFromURL :: "http_result \<Rightarrow> Blocklist option \<Rightarrow> Blocklist option \<times> nat \<times> fetch_err option" where
  "FetchFromURL got b =
     (case got of
        GetErr \<Rightarrow> (b, 0, Some FetchFailed)
      | Response status body \<Rightarrow>
          if status < 200 \<or> status \<ge> 300 then (b, 0, Some (BadStatus status))
          else (case parseReader (LimitReader maxFeedResponseSize body) b of
                  (b', count, fin) \<Rightarrow> (b', count, if fin = EOF then None else Some BodyErr)))"

section \<open>The refresher\<close>

definition minInterval :: duration where
  "minInterval = 100 * 1000000"

text \<open>What the \<open>select\<close> of the goroutine can receive: a stop signal or a tick, at which every URL is fetched in turn.\<close>

datatype refresh_event = StopSignal | RefreshTick "string \<Rightarrow> http_result"

definition refresh_tick :: "string list \<Rightarrow> (string \<Rightarrow> http_result) \<Rightarrow> Blocklist option \<Rightarrow> Blocklist option" where
  "refresh_tick urls web b = fold (\<lambda>url b. fst (FetchFromURL (web url) b)) urls b"

fun refresh_loop :: "string list \<Rightarrow> refresh_event list \<Rightarrow> Blocklist option \<Rightarrow> Blocklist option" where
  "refresh_loop urls [] b = b"
| "refresh_loop urls (StopSignal # evs) b = b"
| "refresh_loop urls (RefreshTick web # evs) b = refresh_loop urls evs (refresh_tick urls web b)"

text \<open>\<open>StartRefresher\<close>: no goroutine at all, or one with this ticker interval.\<close>

definition StartRefresher :: "Blocklist option \<Rightarrow> string list \<Rightarrow> duration \<Rightarrow> duration option" where
  "StartRefresher b urls interval =
     (if b = None \<or> urls = [] then None
      else Some (if interval < minInterval then minInterval else interval))"


section \<open>The blocklist as a set of canonical entries\<close>

text \<open>The canonical text of an entry: what it is stored under. \<open>None\<close> for text that is no entry.\<close>

definition entry_key :: "string \<Rightarrow> string option" where
  "entry_key e =
     (if Contains_char CHR ''/'' e then map_option IPNet_String (ParseCIDR e) else map_option ip_key (ParseIP e))"

definition entries :: "Blocklist \<Rightarrow> string set" where
  "entries bl = gm_keys (ips bl) \<union> IPNet_String ` set (nets bl)"

definition net_ok :: "IPNet \<Rightarrow> bool" where
  "net_ok n \<longleftrightarrow> (\<exists>a k. cidr_ok a k \<and> n = cidr_net a k)"

definition ip_entry :: "string \<Rightarrow> bool" where
  "ip_entry k \<longleftrightarrow> (\<exists>ip. length ip = 16 \<and> k = ip_key ip)"

definition bl_inv :: "Blocklist \<Rightarrow> bool" where
  "bl_inv bl \<longleftrightarrow>
     gm_wf (ips bl) \<and> gm_wf (netKeys bl) \<and> (\<forall>k \<in> gm_keys (ips bl). ip_entry k) \<and>
     (\<forall>n \<in> set (nets bl). net_ok n) \<and> distinct (map IPNet_String (nets bl)) \<and>
     gm_keys (netKeys bl) = IPNet_String ` set (nets bl) \<and>
     length (nets bl) \<le> maxCIDRNetworks \<and> length (ips bl) + length (nets bl) \<le> maxBlocklistEntries"

text \<open>\<open>Add\<close> refuses a new entry when the list is full, and a new network when the networks are.\<close>

definition bl_full :: "string \<Rightarrow> Blocklist \<Rightarrow> bool" where
  "bl_full e bl \<longleftrightarrow>
     length (ips bl) + length (nets bl) \<ge> maxBlocklistEntries \<or>
     Contains_char CHR ''/'' e \<and> length (nets bl) \<ge> maxCIDRNetworks"

lemma ip_key_String: "length ip = 16 \<Longrightarrow> ip_key ip = IP_String ip"
  by (auto simp: ip_key_def IP_String_def [of ip] IP_String_v4 dest: To4_length split: option.splits)

lemma ip_key_inj: "length a = 16 \<Longrightarrow> length b = 16 \<Longrightarrow> ip_key a = ip_key b \<longleftrightarrow> a = b"
  by (metis ip_key_String ParseIP_IP_String option.inject)

lemma ip_entry_no_slash: "ip_entry k \<Longrightarrow> CHR ''/'' \<notin> set k"
  using IP_String_no_slash by (auto simp: ip_entry_def ip_key_String)

lemma net_ok_slash: "net_ok n \<Longrightarrow> CHR ''/'' \<in> set (IPNet_String n)"
proof -
  assume "net_ok n"
  then obtain a k where ok: "cidr_ok a k" "n = cidr_net a k" by (auto simp: net_ok_def)
  then show ?thesis by (cases "net_canon a k") (simp add: IPNet_String_cidr)
qed

lemma net_ok_ParseCIDR: "ParseCIDR e = Some n \<Longrightarrow> net_ok n"
  unfolding net_ok_def by (erule ParseCIDR_SomeE) blast

lemma ip_entry_ParseIP: "ParseIP e = Some ip \<Longrightarrow> ip_entry (ip_key ip)"
  using ParseIP_length by (auto simp: ip_entry_def)

lemma net_ok_key_Contains: "net_ok n \<Longrightarrow> net_ok m \<Longrightarrow> IPNet_String n = IPNet_String m \<Longrightarrow> IPNet_Contains n ip = IPNet_Contains m ip"
  unfolding net_ok_def using IPNet_String_Contains by blast

lemma bl_inv_New [simp]: "bl_inv NewBlocklist"
  by (simp add: bl_inv_def NewBlocklist_def)

subsection \<open>Add\<close>

text \<open>The four outcomes of \<open>Add\<close>.\<close>

lemma Add1_cases:
  obtains (same) "Add1 e bl = bl"
      "entry_key e = None \<or> length (ips bl) + length (nets bl) \<ge> maxBlocklistEntries \<or>
       (\<exists>n. Contains_char CHR ''/'' e \<and> ParseCIDR e = Some n \<and>
         (IPNet_String n \<in> gm_keys (netKeys bl) \<or> length (nets bl) \<ge> maxCIDRNetworks))"
  | (net) n where "Contains_char CHR ''/'' e" "ParseCIDR e = Some n" "IPNet_String n \<notin> gm_keys (netKeys bl)"
      "length (nets bl) < maxCIDRNetworks" "length (ips bl) + length (nets bl) < maxBlocklistEntries"
      "Add1 e bl = bl\<lparr>netKeys := AList.update (IPNet_String n) () (netKeys bl), nets := nets bl @ [n]\<rparr>"
  | (ip) ip where "\<not> Contains_char CHR ''/'' e" "ParseIP e = Some ip"
      "length (ips bl) + length (nets bl) < maxBlocklistEntries"
      "Add1 e bl = bl\<lparr>ips := AList.update (ip_key ip) () (ips bl)\<rparr>"
proof -
  note defs = Add1_def entry_key_def Let_def gm_lookup_None_iff
  consider (full) "length (ips bl) + length (nets bl) \<ge> maxBlocklistEntries"
    | (room) "length (ips bl) + length (nets bl) < maxBlocklistEntries" by linarith
  then show thesis
  proof cases
    case full
    then show ?thesis by (intro same) (simp_all add: Add1_def)
  next
    case room
    then have ge: "\<not> maxBlocklistEntries \<le> length (ips bl) + length (nets bl)" by simp
    show ?thesis
    proof (cases "Contains_char CHR ''/'' e")
      case True
      show ?thesis
      proof (cases "ParseCIDR e")
        case None
        with True show ?thesis by (intro same) (simp_all add: defs)
      next
        case (Some n)
        with True ge same net [of n] room show ?thesis unfolding defs
          by (cases "IPNet_String n \<in> gm_keys (netKeys bl)"; cases "maxCIDRNetworks \<le> length (nets bl)") (auto simp: not_le)
      qed
    next
      case False
      with ge same ip room show ?thesis unfolding defs by (cases "ParseIP e") simp_all
    qed
  qed
qed

lemma Add1_inv:
  assumes inv: "bl_inv bl"
  shows "bl_inv (Add1 e bl)"
proof (cases e bl rule: Add1_cases)
  case same
  with inv show ?thesis by simp
next
  case (net n)
  with inv net_ok_ParseCIDR [of e n] show ?thesis by (auto simp: bl_inv_def gm_keys_update)
next
  case (ip ip)
  with inv ip_entry_ParseIP [of e ip] show ?thesis
    by (auto simp: bl_inv_def gm_keys_update gm_length_update)
qed

lemma entries_Add1:
  assumes inv: "bl_inv bl"
  shows "entries (Add1 e bl) =
    (case entry_key e of None \<Rightarrow> entries bl | Some k \<Rightarrow> if bl_full e bl then entries bl else insert k (entries bl))"
proof (cases e bl rule: Add1_cases)
  case same
  with inv show ?thesis
    by (auto simp: bl_full_def entries_def bl_inv_def entry_key_def insert_absorb split: option.splits)
next
  case (net n)
  then show ?thesis by (auto simp: entries_def entry_key_def bl_full_def)
next
  case (ip ip)
  then show ?thesis by (auto simp: entries_def entry_key_def bl_full_def gm_keys_update)
qed


subsection \<open>Remove\<close>

lemma remove_net_None: "remove_net key ns = None \<longleftrightarrow> key \<notin> IPNet_String ` set ns"
  by (induction ns) auto

lemma filter_key_absent: "k \<notin> f ` set xs \<Longrightarrow> filter (\<lambda>x. f x \<noteq> k) xs = xs"
  by (induction xs) auto

lemma remove_net_filter:
  "distinct (map IPNet_String ns) \<Longrightarrow> key \<in> IPNet_String ` set ns \<Longrightarrow>
    remove_net key ns = Some (filter (\<lambda>n. IPNet_String n \<noteq> key) ns)"
proof (induction ns)
  case (Cons n ns)
  show ?case
  proof (cases "IPNet_String n = key")
    case True
    with Cons.prems(1) have "filter (\<lambda>n. IPNet_String n \<noteq> key) ns = ns" by (intro filter_key_absent) simp
    with True show ?thesis by simp
  next
    case False
    with Cons show ?thesis by auto
  qed
qed simp

lemma delete_absent: "k \<notin> gm_keys m \<Longrightarrow> AList.delete k m = m"
  by (force simp: AList.delete_eq filter_id_conv)

lemma update_absent: "k \<notin> gm_keys m \<Longrightarrow> AList.update k v m = m @ [(k, v)]"
  by (induction m) auto

lemma delete_snoc: "k \<notin> gm_keys m \<Longrightarrow> AList.delete k (m @ [(k, v)]) = m"
  by (force simp: AList.delete_eq filter_id_conv)

lemma Remove1_eq:
  assumes inv: "bl_inv bl"
  shows "Remove1 e bl =
    (case entry_key e of
       None \<Rightarrow> bl
     | Some k \<Rightarrow>
         if Contains_char CHR ''/'' e
         then bl\<lparr>nets := filter (\<lambda>n. IPNet_String n \<noteq> k) (nets bl), netKeys := AList.delete k (netKeys bl)\<rparr>
         else bl\<lparr>ips := AList.delete k (ips bl)\<rparr>)"
proof (cases "Contains_char CHR ''/'' e")
  case True
  show ?thesis
  proof (cases "ParseCIDR e")
    case (Some n)
    have d: "distinct (map IPNet_String (nets bl))" and k: "gm_keys (netKeys bl) = IPNet_String ` set (nets bl)"
      using inv by (simp_all add: bl_inv_def)
    show ?thesis
    proof (cases "IPNet_String n \<in> IPNet_String ` set (nets bl)")
      case present: True
      with Some True d show ?thesis by (simp add: Remove1_def entry_key_def Let_def remove_net_filter)
    next
      case absent: False
      then have "remove_net (IPNet_String n) (nets bl) = None" by (simp only: remove_net_None) simp
      moreover have "filter (\<lambda>m. IPNet_String m \<noteq> IPNet_String n) (nets bl) = nets bl"
        using absent by (rule filter_key_absent)
      moreover have "AList.delete (IPNet_String n) (netKeys bl) = netKeys bl"
        using absent k by (intro delete_absent) simp
      ultimately show ?thesis using Some True by (simp add: Remove1_def entry_key_def Let_def)
    qed
  qed (use True in \<open>simp add: Remove1_def entry_key_def\<close>)
next
  case False
  then show ?thesis by (simp add: Remove1_def entry_key_def split: option.split)
qed

lemma Remove1_inv:
  assumes inv: "bl_inv bl"
  shows "bl_inv (Remove1 e bl)"
proof -
  have len: "length (filter P (nets bl)) \<le> length (nets bl)" "length (AList.delete k (ips bl)) \<le> length (ips bl)" for P k
    by (simp_all add: AList.delete_eq)
  have ips: "bl_inv (bl\<lparr>ips := AList.delete k (ips bl)\<rparr>)" for k
    using inv len(2) [of k] by (auto simp: bl_inv_def) (auto simp: AList.delete_eq)
  have nets: "bl_inv (bl\<lparr>nets := filter (\<lambda>n. IPNet_String n \<noteq> k) (nets bl), netKeys := AList.delete k (netKeys bl)\<rparr>)" for k
    using inv le_trans [OF len(1)] le_trans [OF add_left_mono [OF len(1)]]
    by (auto simp: bl_inv_def gm_keys_delete distinct_map_filter)
  show ?thesis using inv ips nets by (auto simp: Remove1_eq split: option.split)
qed

lemma entry_key_slash: "entry_key e = Some k \<Longrightarrow> CHR ''/'' \<in> set k \<longleftrightarrow> Contains_char CHR ''/'' e"
  using ip_entry_no_slash ip_entry_ParseIP net_ok_slash net_ok_ParseCIDR
  by (auto simp: entry_key_def split: if_splits)

lemma ips_no_slash: "bl_inv bl \<Longrightarrow> k \<in> gm_keys (ips bl) \<Longrightarrow> CHR ''/'' \<notin> set k"
  using ip_entry_no_slash by (auto simp: bl_inv_def)

lemma nets_slash: "bl_inv bl \<Longrightarrow> n \<in> set (nets bl) \<Longrightarrow> CHR ''/'' \<in> set (IPNet_String n)"
  using net_ok_slash by (auto simp: bl_inv_def)

lemma entries_Remove1:
  assumes inv: "bl_inv bl"
  shows "entries (Remove1 e bl) = (case entry_key e of None \<Rightarrow> entries bl | Some k \<Rightarrow> entries bl - {k})"
proof (cases "entry_key e")
  case (Some k)
  show ?thesis
  proof (cases "Contains_char CHR ''/'' e")
    case True
    then have "k \<notin> gm_keys (ips bl)" using entry_key_slash [OF Some] ips_no_slash [OF inv] by blast
    with Some True show ?thesis by (auto simp: Remove1_eq [OF inv] entries_def)
  next
    case False
    then have "k \<notin> IPNet_String ` set (nets bl)" using entry_key_slash [OF Some] nets_slash [OF inv] by blast
    with Some False show ?thesis by (auto simp: Remove1_eq [OF inv] entries_def gm_keys_delete)
  qed
qed (simp add: Remove1_eq [OF inv])

lemma entries_card:
  assumes inv: "bl_inv bl"
  shows "card (entries bl) = length (ips bl) + length (nets bl)"
proof -
  have "gm_keys (ips bl) \<inter> IPNet_String ` set (nets bl) = {}"
    unfolding disjoint_iff using ips_no_slash [OF inv] nets_slash [OF inv] by (metis imageE)
  moreover have "card (IPNet_String ` set (nets bl)) = length (nets bl)"
    using inv distinct_card [of "map IPNet_String (nets bl)"] by (simp add: bl_inv_def)
  moreover have "card (gm_keys (ips bl)) = length (ips bl)" using inv by (simp add: bl_inv_def gm_length_keys)
  ultimately show ?thesis by (simp add: entries_def card_Un_disjoint)
qed

lemma fold_update_keys: "gm_keys (fold (\<lambda>x m. AList.update (f x) True m) xs m) = gm_keys m \<union> f ` set xs"
  by (induction xs arbitrary: m) (auto simp: gm_keys_update)

lemma DataForOPA_keys: "map_option gm_keys (DataForOPA (Some bl)) = Some (entries bl)"
  using fold_update_keys [of IPNet_String] fold_update_keys [of id "map fst (ips bl)" "[]"]
  by (simp add: DataForOPA_def entries_def image_image)

lemma Remove1_Add1:
  assumes inv: "bl_inv bl" and new: "\<forall>k. entry_key e = Some k \<longrightarrow> k \<notin> entries bl"
  shows "Remove1 e (Add1 e bl) = bl"
proof (cases e bl rule: Add1_cases)
  case same
  have "Remove1 e bl = bl"
  proof (cases "entry_key e")
    case (Some k)
    with new have "k \<notin> gm_keys (ips bl)" "k \<notin> IPNet_String ` set (nets bl)" by (auto simp: entries_def)
    moreover from this have "filter (\<lambda>n. IPNet_String n \<noteq> k) (nets bl) = nets bl" by (intro filter_key_absent)
    moreover have "k \<notin> gm_keys (netKeys bl)" using calculation inv by (simp add: bl_inv_def)
    ultimately show ?thesis using Some by (simp add: Remove1_eq [OF inv] delete_absent)
  qed (simp add: Remove1_eq [OF inv])
  with same show ?thesis by simp
next
  case (net n)
  have "IPNet_String n \<notin> IPNet_String ` set (nets bl)" using net(3) inv by (simp add: bl_inv_def)
  then have "filter (\<lambda>m. IPNet_String m \<noteq> IPNet_String n) (nets bl) = nets bl" by (intro filter_key_absent)
  then show ?thesis
    using net Add1_inv [OF inv, of e] by (simp add: Remove1_eq entry_key_def update_absent delete_snoc)
next
  case (ip ip)
  have "ip_key ip \<notin> gm_keys (ips bl)" using ip new by (auto simp: entry_key_def entries_def)
  then show ?thesis
    using ip Add1_inv [OF inv, of e] by (simp add: Remove1_eq entry_key_def update_absent delete_snoc)
qed


subsection \<open>Contains\<close>

lemma IPNet_Contains_To4: "IPNet_Contains n (case To4 ip of Some v \<Rightarrow> v | None \<Rightarrow> ip) = IPNet_Contains n ip"
proof (cases "To4 ip")
  case (Some v)
  then have "To4 v = Some v" by (simp add: To4_def [of v] To4_length)
  with Some show ?thesis by (simp add: IPNet_Contains_def)
qed simp

lemma BL_Contains_iff:
  assumes "ParseIP s = Some ip"
  shows "BL_Contains (Some bl) s \<longleftrightarrow> ip_key ip \<in> gm_keys (ips bl) \<or> (\<exists>n \<in> set (nets bl). IPNet_Contains n ip)"
proof -
  have "ip_key ip = IP_String (case To4 ip of Some v \<Rightarrow> v | None \<Rightarrow> ip)" by (simp add: ip_key_def split: option.split)
  with assms show ?thesis
    unfolding BL_Contains_def Let_def by (simp add: IPNet_Contains_To4 gm_lookup_None_iff list_ex_iff)
qed

lemma BL_Contains_parse: "BL_Contains b s \<Longrightarrow> \<exists>ip. ParseIP s = Some ip"
  by (auto simp: BL_Contains_def split: option.splits)

text \<open>The addresses an entry stands for: one address, or the addresses that share its prefix.\<close>

definition entry_net :: "string \<Rightarrow> (IP \<times> nat) option" where
  "entry_net e =
     (case Cut CHR ''/'' e of
        None \<Rightarrow> None
      | Some (addr, len_str) \<Rightarrow>
          (case (ParseAddr addr, dtoi len_str) of
             (Some a, Some n) \<Rightarrow> if n \<le> 8 * length a then Some (a, n) else None
           | _ \<Rightarrow> None))"

definition entry_matches :: "string \<Rightarrow> IP \<Rightarrow> bool" where
  "entry_matches e ip =
     (if Contains_char CHR ''/'' e then (case entry_net e of None \<Rightarrow> False | Some (a, n) \<Rightarrow> in_cidr a n ip)
      else ParseIP e = Some ip)"

lemma ParseCIDR_entry_net: "ParseCIDR e = map_option (\<lambda>(a, n). cidr_net a n) (entry_net e)"
  by (auto simp: ParseCIDR_def entry_net_def cidr_net_def Let_def split: option.splits)

lemma entry_net_ok: "entry_net e = Some (a, n) \<Longrightarrow> cidr_ok a n"
  by (auto simp: entry_net_def cidr_ok_def dest: ParseAddr_length split: option.splits if_splits)

lemma ParseCIDR_matches:
  "ParseCIDR e = Some n \<Longrightarrow> Contains_char CHR ''/'' e \<Longrightarrow> length ip = 16 \<Longrightarrow> IPNet_Contains n ip = entry_matches e ip"
  using entry_net_ok IPNet_Contains_in_cidr
  by (cases "entry_net e") (auto simp: ParseCIDR_entry_net entry_matches_def)

lemma Contains_Add1:
  assumes inv: "bl_inv bl" and s: "ParseIP s = Some ip" and room: "\<not> bl_full e bl"
  shows "BL_Contains (Some (Add1 e bl)) s \<longleftrightarrow> BL_Contains (Some bl) s \<or> entry_matches e ip"
proof (cases e bl rule: Add1_cases)
  case same
  consider (bad) "entry_key e = None"
    | (dup) n where "Contains_char CHR ''/'' e" "ParseCIDR e = Some n" "IPNet_String n \<in> gm_keys (netKeys bl)"
    using same(2) room by (auto simp: bl_full_def)
  then show ?thesis
  proof cases
    case bad
    then have "\<not> entry_matches e ip"
      by (auto simp: entry_key_def entry_matches_def ParseCIDR_entry_net split: if_splits option.splits)
    with same show ?thesis by simp
  next
    case (dup n)
    then obtain m where m: "m \<in> set (nets bl)" "IPNet_String m = IPNet_String n"
      using inv by (auto simp: bl_inv_def)
    have "net_ok m" "net_ok n" using m inv net_ok_ParseCIDR dup by (auto simp: bl_inv_def)
    then have "IPNet_Contains m ip = entry_matches e ip"
      using m ParseCIDR_matches [OF dup(2,1) ParseIP_length [OF s]] net_ok_key_Contains by metis
    with m same show ?thesis by (auto simp: BL_Contains_iff [OF s])
  qed
next
  case (net n)
  with ParseCIDR_matches [OF net(2,1) ParseIP_length [OF s]] show ?thesis by (auto simp: BL_Contains_iff [OF s])
next
  case (ip ip')
  have "ip_key ip = ip_key ip' \<longleftrightarrow> ip = ip'" using ip_key_inj ParseIP_length s ip(2) by blast
  with ip show ?thesis unfolding BL_Contains_iff [OF s] by (auto simp: gm_keys_update entry_matches_def)
qed

lemma Contains_mono: "BL_Contains b s \<Longrightarrow> BL_Contains (Add e b) s"
proof (cases b)
  case (Some bl)
  assume "BL_Contains b s"
  with Some show ?thesis
    using BL_Contains_parse [of b s]
    by (cases e bl rule: Add1_cases) (auto simp: Add_def BL_Contains_iff gm_keys_update)
qed (simp add: BL_Contains_def)

section \<open>Feeds, by their lines\<close>

definition plausible_lines :: "bool \<Rightarrow> read_end \<Rightarrow> string \<Rightarrow> string list" where
  "plausible_lines early fin s =
     (case split_lines s of
        (ls, t) \<Rightarrow>
          filter (\<lambda>l. length l < maxFeedLineSize) ls @
          (if fin = EOF \<and> (length t < maxFeedLineSize \<or> early \<and> length t = maxFeedLineSize) then [t] else []))"

definition feed_entries :: "reader \<Rightarrow> string list" where
  "feed_entries r =
     filter (\<lambda>l. l \<noteq> [] \<and> \<not> HasPrefix l ''#'')
       (map TrimSpace (plausible_lines (rd_early r) (rd_end r) (rd_bytes r)))"

lemma takeWhile_line: "nl \<notin> set l \<Longrightarrow> takeWhile (\<lambda>c. c \<noteq> nl) (l @ nl # r) = l"
  by (induction l) auto

lemma ReadSlice_line:
  "nl \<notin> set l \<Longrightarrow> ReadSlice n early (l @ nl # r) =
    (if length l < n then (l @ [nl], NoErr, r) else (take n l, BufferFull, drop n l @ nl # r))"
  by (auto simp: ReadSlice_def takeWhile_line take_Cons' dest: in_set_takeD)

lemma ReadSlice_tail:
  "nl \<notin> set t \<Longrightarrow> ReadSlice n early t =
    (if length t < n \<or> early \<and> length t = n then (t, Ended, []) else (take n t, BufferFull, drop n t))"
  by (auto simp: ReadSlice_def dest: in_set_takeD)

lemma not_in_drop: "x \<notin> set l \<Longrightarrow> x \<notin> set (drop n l)"
  by (auto dest: in_set_dropD)

lemma drain_line: "nl \<notin> set l \<Longrightarrow> drain early (l @ nl # r) = (NoErr, r)"
proof (induction "length l" arbitrary: l rule: less_induct)
  case less
  show ?case
  proof (cases "length l < maxFeedLineSize")
    case True
    with less show ?thesis by (simp add: drain.simps [of early "l @ _"] ReadSlice_line)
  next
    case False
    then have "length (drop maxFeedLineSize l) < length l" by (cases l) auto
    with less.hyps [of "drop maxFeedLineSize l"] less.prems False show ?thesis
      by (simp add: drain.simps [of early "l @ _"] ReadSlice_line not_in_drop)
  qed
qed

lemma drain_tail: "nl \<notin> set t \<Longrightarrow> fst (drain early t) = Ended"
proof (induction "length t" arbitrary: t rule: less_induct)
  case less
  show ?case
  proof (cases "length t < maxFeedLineSize \<or> early \<and> length t = maxFeedLineSize")
    case True
    with less show ?thesis by (auto simp: drain.simps [of early t] ReadSlice_tail)
  next
    case False
    then have "length (drop maxFeedLineSize t) < length t" by (cases t) auto
    with less.hyps [of "drop maxFeedLineSize t"] less.prems False show ?thesis
      by (auto simp: drain.simps [of early t] ReadSlice_tail not_in_drop)
  qed
qed


text \<open>The lines the loop still has to handle, after one line and at the end.\<close>

definition rest_entries :: "bool \<Rightarrow> read_end \<Rightarrow> string \<Rightarrow> string list" where
  "rest_entries early fin s = feed_entries \<lparr>rd_bytes = s, rd_end = fin, rd_early = early\<rparr>"

definition entry_of_line :: "string \<Rightarrow> string list" where
  "entry_of_line l = filter (\<lambda>l. l \<noteq> [] \<and> \<not> HasPrefix l ''#'') [TrimSpace l]"

lemma rest_entries_line:
  "nl \<notin> set l \<Longrightarrow> rest_entries early fin (l @ nl # r) =
    (if length l < maxFeedLineSize then entry_of_line l else []) @ rest_entries early fin r"
  by (cases "split_lines r") (auto simp: rest_entries_def feed_entries_def plausible_lines_def split_lines_line entry_of_line_def)

lemma rest_entries_tail:
  "nl \<notin> set t \<Longrightarrow> rest_entries early fin t =
    (if fin = EOF \<and> (length t < maxFeedLineSize \<or> early \<and> length t = maxFeedLineSize) then entry_of_line t else [])"
  by (simp add: rest_entries_def feed_entries_def plausible_lines_def split_lines_tail entry_of_line_def)

lemma parse_loop_rest:
  "parse_loop early fin s count b = (fold Add (rest_entries early fin s) b, count + length (rest_entries early fin s), fin)"
proof (induction "length s" arbitrary: s count b rule: less_induct)
  case less
  show ?case
  proof (cases "nl \<in> set s")
    case True
    then obtain l r where s: "s = l @ nl # r" "nl \<notin> set l" by (metis split_list_first)
    then have IH: "parse_loop early fin r c b' = (fold Add (rest_entries early fin r) b', c + length (rest_entries early fin r), fin)" for c b'
      using less by simp
    show ?thesis
    proof (cases "length l < maxFeedLineSize")
      case True
      with s IH show ?thesis
        by (simp add: parse_loop.simps [of _ _ "l @ _"] ReadSlice_line TrimSpace_nl rest_entries_line entry_of_line_def)
    next
      case False
      with s IH show ?thesis
        by (simp add: parse_loop.simps [of _ _ "l @ _"] ReadSlice_line rest_entries_line drain_line not_in_drop)
    qed
  next
    case False
    have "fst (drain early (drop maxFeedLineSize s)) = Ended" using False by (intro drain_tail not_in_drop)
    with False show ?thesis
      by (cases fin) (auto simp: parse_loop.simps [of _ _ s] ReadSlice_tail rest_entries_tail entry_of_line_def split: prod.split)
  qed
qed

lemma parseReader_entries:
  "parseReader r b = (fold Add (feed_entries r) b, length (feed_entries r), rd_end r)"
  by (cases r) (simp add: parseReader_def parse_loop_rest rest_entries_def)

subsection \<open>What a feed may do to its list\<close>

text \<open>
  The feed parser and the refresher rely on two laws of \<open>Add\<close>: it keeps the list's
  invariant and it never unblocks an address.
\<close>

locale feed_sink =
  fixes sink_inv :: "'s \<Rightarrow> bool" and sink_add :: "string \<Rightarrow> 's \<Rightarrow> 's" and sink_has :: "'s \<Rightarrow> string \<Rightarrow> bool"
  assumes add_inv: "sink_inv b \<Longrightarrow> sink_inv (sink_add e b)"
    and add_mono: "sink_has b s \<Longrightarrow> sink_has (sink_add e b) s"
begin

lemma feed_inv: "sink_inv b \<Longrightarrow> sink_inv (fold sink_add es b)"
  by (induction es arbitrary: b) (simp_all add: add_inv)

lemma feed_mono: "sink_has b s \<Longrightarrow> sink_has (fold sink_add es b) s"
  by (induction es arbitrary: b) (simp_all add: add_mono)

end

definition bl_ok :: "Blocklist option \<Rightarrow> bool" where
  "bl_ok b = (case b of None \<Rightarrow> True | Some bl \<Rightarrow> bl_inv bl)"

interpretation blocklist: feed_sink bl_ok Add BL_Contains
  by unfold_locales (auto simp: bl_ok_def Add_def Add1_inv Contains_mono [unfolded Add_def] split: option.splits)

lemma FetchFromURL_fold: "\<exists>es. fst (FetchFromURL got b) = fold Add es b"
proof (cases got)
  case (Response status body)
  then show ?thesis by (auto simp: FetchFromURL_def parseReader_entries intro: exI [of _ "[]"])
qed (auto simp: FetchFromURL_def intro: exI [of _ "[]"])

lemma refresh_tick_fold: "\<exists>es. refresh_tick urls web b = fold Add es b"
proof (induction urls arbitrary: b)
  case (Cons url urls)
  obtain es where es: "fst (FetchFromURL (web url) b) = fold Add es b" using FetchFromURL_fold by blast
  obtain es' where "refresh_tick urls web (fold Add es b) = fold Add es' (fold Add es b)" using Cons.IH by blast
  then have "refresh_tick (url # urls) web b = fold Add (es @ es') b" using es by (simp add: refresh_tick_def)
  then show ?case by blast
qed (auto simp: refresh_tick_def intro: exI [of _ "[]"])

lemma refresh_loop_fold: "\<exists>es. refresh_loop urls evs b = fold Add es b"
proof (induction urls evs b rule: refresh_loop.induct)
  case (3 urls web evs b)
  obtain es where es: "refresh_tick urls web b = fold Add es b" using refresh_tick_fold by blast
  with 3 obtain es' where "refresh_loop urls evs (fold Add es b) = fold Add es' (fold Add es b)" by auto
  then have "refresh_loop urls (RefreshTick web # evs) b = fold Add (es @ es') b" using es by simp
  then show ?case by blast
qed (auto intro: exI [of _ "[]"])


section \<open>Properties\<close>

text \<open>
  C10. The blocklist implements a bounded set of canonical entries: \<open>Add\<close> and
  \<open>Remove\<close> keep its invariant (no duplicate network, at most 65536 networks and 500000
  entries in all), \<open>Add\<close> inserts the entry's canonical text unless the text is no entry or
  there is no room, \<open>Remove\<close> deletes it, \<open>Len\<close> is the size of the set and
  \<open>DataForOPA\<close> has exactly its elements as keys.\<close>

theorem blocklist_refines_set:
  assumes "bl_inv bl"
  shows "bl_inv (Add1 e bl) \<and> bl_inv (Remove1 e bl) \<and>
    entries (Add1 e bl) =
      (case entry_key e of None \<Rightarrow> entries bl | Some k \<Rightarrow> if bl_full e bl then entries bl else insert k (entries bl)) \<and>
    entries (Remove1 e bl) = (case entry_key e of None \<Rightarrow> entries bl | Some k \<Rightarrow> entries bl - {k}) \<and>
    Len (Some bl) = card (entries bl) \<and> Len (Some bl) \<le> maxBlocklistEntries \<and>
    map_option gm_keys (DataForOPA (Some bl)) = Some (entries bl)"
proof -
  have "length (ips bl) + length (nets bl) \<le> maxBlocklistEntries" using assms by (simp add: bl_inv_def)
  then show ?thesis
    using assms Add1_inv Remove1_inv entries_Add1 entries_Remove1 entries_card DataForOPA_keys by (simp add: Len_def)
qed

theorem blocklist_refines_set_witness:
  "bl_inv NewBlocklist \<and> entries (Add1 ''10.0.0.1'' NewBlocklist) = {''10.0.0.1''} \<and>
   entries (Remove1 ''10.0.0.1'' (Add1 ''10.0.0.1'' NewBlocklist)) = {}"
proof -
  have k: "entry_key ''10.0.0.1'' = Some ''10.0.0.1''" 
    using normalizeIP_parsed [of "''10.0.0.1''"] sample_addresses(1,5) ParseIP_length [of "''10.0.0.1''"]
    by (auto simp: entry_key_def Contains_char_def ip_key_String)
  have room: "\<not> bl_full ''10.0.0.1'' NewBlocklist" "entries NewBlocklist = {}"
    by (simp_all add: bl_full_def NewBlocklist_def maxBlocklistEntries_def Contains_char_def entries_def)
  note A = blocklist_refines_set [OF bl_inv_New, of "''10.0.0.1''"]
  have "bl_inv (Add1 ''10.0.0.1'' NewBlocklist)" using A by blast
  from blocklist_refines_set [OF this, of "''10.0.0.1''"] A k room show ?thesis by simp
qed

text \<open>
  After \<open>Add\<close> with room for it, the addresses that \<open>Contains\<close> reports are the
  ones reported before and the ones the entry stands for: the address itself, whichever of its
  spellings is used, or every address of the same family that agrees with the network on its
  prefix bits (a mapped IPv6 network of at least 96 bits is an IPv4 network).\<close>

theorem Contains_after_Add:
  assumes "bl_inv bl" and "ParseIP s = Some ip" and "\<not> bl_full e bl"
  shows "BL_Contains (Add e (Some bl)) s \<longleftrightarrow> BL_Contains (Some bl) s \<or> entry_matches e ip"
  using Contains_Add1 [OF assms] by (simp add: Add_def)

theorem Contains_after_Add_witness:
  "BL_Contains (Add ''10.0.0.0/30'' (Some NewBlocklist)) ''10.0.0.1'' \<and>
   \<not> BL_Contains (Add ''10.0.0.0/30'' (Some NewBlocklist)) ''10.0.0.9''"
proof -
  have "bl_full ''10.0.0.0/30'' NewBlocklist = False"
    by (simp add: bl_full_def NewBlocklist_def maxBlocklistEntries_def maxCIDRNetworks_def)
  then have r: "\<not> bl_full ''10.0.0.0/30'' NewBlocklist" by simp
  have p: "ParseIP ''10.0.0.1'' = Some (v4InV6Prefix @ [10, 0, 0, 1])" "ParseIP ''10.0.0.9'' = Some (v4InV6Prefix @ [10, 0, 0, 9])"
    by (simp_all add: sample_strings ParseIP_dotted)
  have z: "''10.0.0.0'' = string4 [10, 0, 0, 0]"
    by (simp add: string4_def dec_def ndigits.simps digit_char_def char_of_def bit_0)
  have "ParseAddr ''10.0.0.0'' = Some [10, 0, 0, 0]" unfolding z by (rule ParseAddr_string4) simp
  moreover have "dtoi ''30'' = Some 30" by (simp add: dtoi_def dec_val_def)
  moreover have "Cut CHR ''/'' ''10.0.0.0/30'' = Some (''10.0.0.0'', ''30'')" by (simp add: Cut_def)
  ultimately have n: "entry_net ''10.0.0.0/30'' = Some ([10, 0, 0, 0], 30)" by (simp add: entry_net_def)
  have "in_cidr [10, 0, 0, 0] 30 (v4InV6Prefix @ [10, 0, 0, 1])" "\<not> in_cidr [10, 0, 0, 0] 30 (v4InV6Prefix @ [10, 0, 0, 9])"
    by code_simp+
  then have m: "entry_matches ''10.0.0.0/30'' (v4InV6Prefix @ [10, 0, 0, 1])"
      "\<not> entry_matches ''10.0.0.0/30'' (v4InV6Prefix @ [10, 0, 0, 9])"
    by (simp_all add: entry_matches_def n Contains_char_def)
  have "\<not> BL_Contains (Some NewBlocklist) ''10.0.0.9''" by (simp add: BL_Contains_def NewBlocklist_def p Let_def)
  with Contains_after_Add [OF bl_inv_New p(1) r] Contains_after_Add [OF bl_inv_New p(2) r] m show ?thesis by blast
qed

text \<open>
  \<open>Remove\<close> undoes \<open>Add\<close>: adding an entry that is not yet in the list, in any
  spelling, and removing it again gives back the list as it was. This holds too when the list
  was full and the entry was never added.\<close>

theorem Remove_undoes_Add:
  assumes "bl_inv bl" and "\<forall>k. entry_key e = Some k \<longrightarrow> k \<notin> entries bl"
  shows "Remove e (Add e (Some bl)) = Some bl"
  using Remove1_Add1 [OF assms] by (simp add: Remove_def Add_def)

theorem Remove_undoes_Add_witness:
  "Remove ''10.0.0.0/30'' (Add ''10.0.0.0/30'' (Some NewBlocklist)) = Some NewBlocklist"
  using Remove_undoes_Add [OF bl_inv_New, of "''10.0.0.0/30''"] by (simp add: entries_def NewBlocklist_def)

text \<open>
  C28. Reading a feed always ends and adds, in order, exactly the trimmed lines of the body that
  are neither empty nor a comment. A line that does not fit the one-megabyte buffer is skipped
  and the lines after it are still read; a body cut off by a read error loses only its last,
  unfinished line. The count returned is the number of those lines.\<close>

theorem parseReader_adds_the_lines:
  "parseReader r b = (fold Add (feed_entries r) b, length (feed_entries r), rd_end r)"
  by (rule parseReader_entries)

text \<open>
  However many refreshes run and whatever the feeds answer, the refresher keeps the list's
  invariant and never unblocks an address.\<close>

theorem refresher_only_adds:
  "(bl_ok b \<longrightarrow> bl_ok (refresh_loop urls evs b)) \<and> (BL_Contains b s \<longrightarrow> BL_Contains (refresh_loop urls evs b) s)"
proof -
  obtain es where "refresh_loop urls evs b = fold Add es b" using refresh_loop_fold by blast
  then show ?thesis using blocklist.feed_inv blocklist.feed_mono by simp
qed

theorem refresher_only_adds_witness:
  "bl_ok (refresh_loop [''u''] [RefreshTick (\<lambda>u. GetErr), StopSignal] (Some NewBlocklist)) \<and>
   BL_Contains (refresh_loop [''u''] [RefreshTick (\<lambda>u. GetErr), StopSignal] (Add ''10.0.0.1'' (Some NewBlocklist))) ''10.0.0.1''"
proof -
  have "BL_Contains (Add ''10.0.0.1'' (Some NewBlocklist)) ''10.0.0.1''"
    using sample_addresses(5)
    by (auto simp: BL_Contains_iff Add_def Add1_def NewBlocklist_def Contains_char_def maxBlocklistEntries_def)
  then show ?thesis
    using refresher_only_adds [of "Some NewBlocklist" "[''u'']" "[RefreshTick (\<lambda>u. GetErr), StopSignal]"]
      refresher_only_adds [of "Add ''10.0.0.1'' (Some NewBlocklist)" "[''u'']" "[RefreshTick (\<lambda>u. GetErr), StopSignal]" "''10.0.0.1''"]
    by (simp add: bl_ok_def)
qed

lemma TrimSpace_Nil: "TrimSpace [] = []"
  by code_simp

lemma rest_entries_append:
  "rest_entries early fin (s @ nl # t) = rest_entries False EOF (s @ [nl]) @ rest_entries early fin t"
proof (induction "length s" arbitrary: s rule: less_induct)
  case less
  show ?case
  proof (cases "nl \<in> set s")
    case True
    then obtain l r where s: "s = l @ nl # r" "nl \<notin> set l" by (metis split_list_first)
    with less [of r] show ?thesis by (simp add: rest_entries_line)
  next
    case False
    have "rest_entries False EOF [] = []" by (simp add: rest_entries_tail entry_of_line_def TrimSpace_Nil)
    with False show ?thesis by (simp add: rest_entries_line)
  qed
qed

text \<open>The list after the lines before the cut.\<close>

definition before_cut :: "string \<Rightarrow> Blocklist option \<Rightarrow> Blocklist option" where
  "before_cut front b = fold Add (feed_entries \<lparr>rd_bytes = front @ [nl], rd_end = EOF, rd_early = False\<rparr>) b"

lemma FetchFromURL_cut:
  assumes "rd_bytes body = front @ nl # kept @ rest" "length (front @ nl # kept) = maxFeedResponseSize"
    and "nl \<notin> set kept" "length kept < maxFeedLineSize" "200 \<le> status" "status < 300" "rest \<noteq> []"
  shows "fst (FetchFromURL (Response status body) b) = fold Add (entry_of_line kept) (before_cut front b) \<and>
    snd (snd (FetchFromURL (Response status body) b)) = None"
proof -
  let ?r = "LimitReader maxFeedResponseSize body"
  have "maxFeedResponseSize < length (rd_bytes body)" using assms(1,2,7) by (cases rest) auto
  then have "?r = \<lparr>rd_bytes = take maxFeedResponseSize (rd_bytes body), rd_end = EOF, rd_early = False\<rparr>"
    by (simp add: LimitReader_def)
  moreover have "take maxFeedResponseSize (rd_bytes body) = front @ nl # kept"
    unfolding assms(1) assms(2) [symmetric] by simp
  ultimately have "rd_bytes ?r = front @ nl # kept" "rd_end ?r = EOF" by simp_all
  then have "feed_entries ?r = rest_entries (rd_early ?r) EOF (front @ nl # kept)"
    unfolding rest_entries_def by (cases ?r) simp
  also have "\<dots> = rest_entries False EOF (front @ [nl]) @ entry_of_line kept"
    unfolding rest_entries_append [of _ _ front kept] using assms(3,4) by (simp add: rest_entries_tail)
  finally show ?thesis
    using assms(5,6) \<open>rd_end ?r = EOF\<close> by (simp add: FetchFromURL_def parseReader_entries before_cut_def rest_entries_def)
qed

text \<open>
  C36. A body of more than 50 MB is cut inside the line that crosses the limit, without an error, and
  what is left of that line is taken as an entry. Whatever the lines before it and whatever the rest
  of the line: if the part before the limit trims to an entry and the list has room for it, then
  afterwards every address that this part stands for is blocked. So the network
  \<open>10.0.0.0/24\<close> cut before its last digit blocks \<open>10.0.0.0/2\<close>, a quarter of the IPv4 addresses.\<close>

theorem truncated_feed_widens:
  assumes "rd_bytes body = front @ nl # kept @ rest" "length (front @ nl # kept) = maxFeedResponseSize" "rest \<noteq> []"
    and "nl \<notin> set kept" "length kept < maxFeedLineSize" "entry_of_line kept = [e]" "200 \<le> status" "status < 300"
    and "bl_inv bl0" "before_cut front (Some bl0) = Some bl" "\<not> bl_full e bl"
  shows "fst (FetchFromURL (Response status body) (Some bl0)) = Add e (Some bl) \<and>
    snd (snd (FetchFromURL (Response status body) (Some bl0))) = None \<and>
    (\<forall>s ip. ParseIP s = Some ip \<and> entry_matches e ip \<longrightarrow> BL_Contains (fst (FetchFromURL (Response status body) (Some bl0))) s)"
proof -
  have f: "fst (FetchFromURL (Response status body) (Some bl0)) = Add e (Some bl)"
      "snd (snd (FetchFromURL (Response status body) (Some bl0))) = None"
    using FetchFromURL_cut [OF assms(1,2,4,5,7,8,3), of "Some bl0"] by (simp_all add: assms(6,10))
  have "bl_ok (before_cut front (Some bl0))"
    unfolding before_cut_def by (rule blocklist.feed_inv) (simp add: bl_ok_def assms(9))
  then have "bl_inv bl" by (simp add: assms(10) bl_ok_def)
  then show ?thesis using f Contains_Add1 [OF _ _ assms(11)] by (auto simp: Add_def)
qed

theorem truncated_feed_widens_witness:
  "BL_Contains (fst (FetchFromURL (Response 200
       \<lparr>rd_bytes = replicate (maxFeedResponseSize - 11) CHR ''#'' @ nl # ''10.0.0.0/24'', rd_end = EOF, rd_early = False\<rparr>)
       (Some NewBlocklist))) ''1.2.3.4'' \<and>
   \<not> entry_matches ''10.0.0.0/24'' (v4InV6Prefix @ [1, 2, 3, 4])"
proof -
  define l where "l = replicate (maxFeedResponseSize - 11) CHR ''#''"
  have len: "length l = maxFeedResponseSize - 11" and nl: "nl \<notin> set l" by (simp_all add: l_def nl_def)
  have sz: "length (l @ nl # ''10.0.0.0/2'') = maxFeedResponseSize" "maxFeedLineSize \<le> length l"
    unfolding len length_append by (simp_all add: len maxFeedResponseSize_def maxFeedLineSize_def)
  have "TrimSpace ''10.0.0.0/2'' = ''10.0.0.0/2''" by code_simp
  then have e: "entry_of_line ''10.0.0.0/2'' = [''10.0.0.0/2'']" by (simp add: entry_of_line_def)
  have "rest_entries False EOF (l @ [nl]) = []"
    using rest_entries_line [OF nl, of False EOF "[]"] sz(2) by (simp add: rest_entries_tail entry_of_line_def TrimSpace_Nil)
  then have b: "before_cut l (Some NewBlocklist) = Some NewBlocklist" by (simp add: before_cut_def rest_entries_def)
  have r: "\<not> bl_full ''10.0.0.0/2'' NewBlocklist" by (simp add: bl_full_def NewBlocklist_def maxBlocklistEntries_def maxCIDRNetworks_def)
  have z: "''10.0.0.0'' = string4 [10, 0, 0, 0]" "''1.2.3.4'' = string4 [1, 2, 3, 4]"
    by (simp_all add: string4_def dec_def ndigits.simps digit_char_def char_of_def bit_0)
  have p: "ParseIP ''1.2.3.4'' = Some (v4InV6Prefix @ [1, 2, 3, 4])" unfolding z by (rule ParseIP_dotted) simp
  have "ParseAddr ''10.0.0.0'' = Some [10, 0, 0, 0]" unfolding z by (rule ParseAddr_string4) simp
  then have n: "entry_net ''10.0.0.0/2'' = Some ([10, 0, 0, 0], 2)" "entry_net ''10.0.0.0/24'' = Some ([10, 0, 0, 0], 24)"
    by (simp_all add: entry_net_def Cut_def dtoi_def dec_val_def)
  have "in_cidr [10, 0, 0, 0] 2 (v4InV6Prefix @ [1, 2, 3, 4])" "\<not> in_cidr [10, 0, 0, 0] 24 (v4InV6Prefix @ [1, 2, 3, 4])"
    by code_simp+
  then have m: "entry_matches ''10.0.0.0/2'' (v4InV6Prefix @ [1, 2, 3, 4])" "\<not> entry_matches ''10.0.0.0/24'' (v4InV6Prefix @ [1, 2, 3, 4])"
    by (simp_all add: entry_matches_def n Contains_char_def)
  have "nl \<notin> set ''10.0.0.0/2''" "length ''10.0.0.0/2'' < maxFeedLineSize" by (simp_all add: nl_def maxFeedLineSize_def)
  from truncated_feed_widens [of "\<lparr>rd_bytes = l @ nl # ''10.0.0.0/24'', rd_end = EOF, rd_early = False\<rparr>" l "''10.0.0.0/2''" "''4''" "''10.0.0.0/2''" 200,
      OF _ sz(1) _ this e _ _ bl_inv_New b r]
  have "\<forall>s ip. ParseIP s = Some ip \<and> entry_matches ''10.0.0.0/2'' ip \<longrightarrow>
      BL_Contains (fst (FetchFromURL (Response 200 \<lparr>rd_bytes = l @ nl # ''10.0.0.0/24'', rd_end = EOF, rd_early = False\<rparr>) (Some NewBlocklist))) s"
    by auto
  with p m show ?thesis unfolding l_def by blast
qed

end
