(* ===== verification/Alert.thy ===== *)
theory Alert
  imports Prelude
begin

text \<open>
  internal/alert/alert.go: the webhook alert router with its cooldown per alert type. What
  \<open>fire\<close> does with an event in its own goroutine is represented by the payload it builds; the
  theory AlertPost has the bytes and the POST.
\<close>

section \<open>Data\<close>

text \<open>A Go integer: the five named values, and any other one.\<close>

datatype AlertType = AlertBlockRate | AlertPortScan | AlertConnLimit | AlertOPAError | AlertRateLimit | OtherAlert int

fun AlertType_String :: "AlertType \<Rightarrow> string" where
  "AlertType_String AlertBlockRate = ''block_rate''"
| "AlertType_String AlertPortScan = ''port_scan''"
| "AlertType_String AlertConnLimit = ''connection_limit''"
| "AlertType_String AlertOPAError = ''opa_error''"
| "AlertType_String AlertRateLimit = ''rate_limit''"
| "AlertType_String (OtherAlert n) = ''unknown''"

record AlertEvent =
  al_Type :: AlertType
  al_Message :: string
  al_Source :: string
  al_Timestamp :: time

record al_Config =
  WebhookURL :: string
  Cooldown :: duration

record Router =
  al_cfg :: al_Config
  lastSent :: "(AlertType, time) gomap"

definition NewRouter :: "al_Config \<Rightarrow> Router" where
  "NewRouter c = \<lparr>al_cfg = (if Cooldown c \<le> 0 then c\<lparr>Cooldown := seconds 30\<rparr> else c), lastSent = []\<rparr>"

text \<open>
  The document \<open>fire\<close> posts, with the clock reading whose RFC 3339 text AlertPost gives.
\<close>

record payload =
  pl_type :: string
  pl_message :: string
  pl_source :: string
  pl_timestamp :: time
  pl_event_type :: string

definition fire :: "AlertEvent \<Rightarrow> payload" where
  "fire e = \<lparr>pl_type = AlertType_String (al_Type e), pl_message = al_Message e, pl_source = al_Source e,
     pl_timestamp = al_Timestamp e, pl_event_type = ''l3_firewall_alert''\<rparr>"

text \<open>\<open>Send\<close> at clock reading \<open>now\<close>: what is fired, if anything, and the router afterwards.\<close>

definition Send :: "time \<Rightarrow> AlertEvent \<Rightarrow> Router option \<Rightarrow> payload option \<times> Router option" where
  "Send now e ro =
     (case ro of
        None \<Rightarrow> (None, None)
      | Some r \<Rightarrow>
          if WebhookURL (al_cfg r) = [] then (None, Some r)
          else if (case map_of (lastSent r) (al_Type e) of
                     None \<Rightarrow> False
                   | Some prev \<Rightarrow> time_sub now prev < Cooldown (al_cfg r)) then (None, Some r)
          else (Some (fire e), Some (r\<lparr>lastSent := AList.update (al_Type e) now (lastSent r)\<rparr>)))"

section \<open>The cooldown\<close>

text \<open>A run of the router: the events with their clock readings, and the ones that were fired, latest first.\<close>

fun send_all :: "(time \<times> AlertEvent) list \<Rightarrow> Router option \<Rightarrow> (time \<times> AlertEvent) list \<Rightarrow> (time \<times> AlertEvent) list \<times> Router option" where
  "send_all [] ro fired = (fired, ro)"
| "send_all ((now, e) # evs) ro fired =
     (case Send now e ro of
        (None, ro') \<Rightarrow> send_all evs ro' fired
      | (Some _, ro') \<Rightarrow> send_all evs ro' ((now, e) # fired))"

definition fired_of :: "AlertType \<Rightarrow> (time \<times> AlertEvent) list \<Rightarrow> time list" where
  "fired_of ty fired = map fst (filter (\<lambda>(now, e). al_Type e = ty) fired)"

text \<open>Consecutive alerts of one type, latest first, are at least the cooldown apart.\<close>

fun cooled :: "duration \<Rightarrow> time list \<Rightarrow> bool" where
  "cooled c (now # prev # ts) \<longleftrightarrow> c \<le> time_sub now prev \<and> cooled c (prev # ts)"
| "cooled c _ \<longleftrightarrow> True"

definition router_tracks :: "Router \<Rightarrow> (time \<times> AlertEvent) list \<Rightarrow> bool" where
  "router_tracks r fired \<longleftrightarrow>
     (\<forall>ty. cooled (Cooldown (al_cfg r)) (fired_of ty fired) \<and>
       map_of (lastSent r) ty = (case fired_of ty fired of [] \<Rightarrow> None | now # _ \<Rightarrow> Some now))"

lemma fired_of_Cons: "fired_of ty ((now, e) # fired) = (if al_Type e = ty then now # fired_of ty fired else fired_of ty fired)"
  by (simp add: fired_of_def)

lemma Send_tracks:
  assumes "router_tracks r fired" "Send now e (Some r) = (p, Some r')"
  shows "al_cfg r' = al_cfg r \<and> router_tracks r' (if p = None then fired else (now, e) # fired)"
proof (cases p)
  case None
  with assms show ?thesis by (auto simp: Send_def split: if_splits)
next
  case (Some d)
  then have r': "r' = r\<lparr>lastSent := AList.update (al_Type e) now (lastSent r)\<rparr>"
    and cool: "\<forall>prev. map_of (lastSent r) (al_Type e) = Some prev \<longrightarrow> Cooldown (al_cfg r) \<le> time_sub now prev"
    using assms(2) by (auto simp: Send_def split: if_splits option.splits)
  have "cooled (Cooldown (al_cfg r)) (now # fired_of (al_Type e) fired)"
    using assms(1) [unfolded router_tracks_def, rule_format, of "al_Type e"] cool
    by (cases "fired_of (al_Type e) fired") simp_all
  with Some assms(1) r' show ?thesis by (auto simp: router_tracks_def fired_of_Cons gm_lookup_update)
qed

lemma Send_Some: "\<exists>p r'. Send now e (Some r) = (p, Some r')"
  by (simp add: Send_def)

lemma send_all_tracks:
  "router_tracks r fired \<Longrightarrow> \<exists>fired' r'. send_all evs (Some r) fired = (fired', Some r') \<and>
    al_cfg r' = al_cfg r \<and> router_tracks r' fired'"
proof (induction evs arbitrary: r fired)
  case (Cons x evs)
  obtain now e where x: "x = (now, e)" by fastforce
  obtain p r1 where s: "Send now e (Some r) = (p, Some r1)" using Send_Some by blast
  with Send_tracks [OF Cons.prems s] Cons.IH [of r1 "if p = None then fired else (now, e) # fired"] show ?case
    by (cases p) (auto simp: x)
qed auto

text \<open>
  C31. The router never storms: whatever events arrive in whatever order, two alerts of the same
  type that are actually sent are at least the configured cooldown apart, and the cooldown is
  positive even when none is configured.\<close>

theorem alerts_respect_cooldown:
  "\<exists>fired r. send_all evs (Some (NewRouter c)) [] = (fired, Some r) \<and> 0 < Cooldown (al_cfg r) \<and>
     (\<forall>ty. cooled (Cooldown (al_cfg r)) (fired_of ty fired))"
proof -
  have "router_tracks (NewRouter c) []" by (simp add: router_tracks_def NewRouter_def fired_of_def)
  from send_all_tracks [OF this, of evs] show ?thesis
    by (auto simp: router_tracks_def NewRouter_def seconds_def split: if_splits)
qed

end
