(* ===== verification/GeoIP.thy ===== *)
theory GeoIP
  imports GoNet Files
begin

text \<open>
  internal/geoip/geoip.go: the country of an address. The MaxMind database is a parameter:
  for an address in its 4-byte or 16-byte form it gives the ISO code of the record, or
  nothing when the address is not found or its record does not decode. Opening a database from
  the bytes of its file (\<open>maxminddb.OpenBytes\<close>) is a parameter as well.
\<close>

type_synonym mmdb = "IP \<Rightarrow> string option"

text \<open>\<open>strings.ToUpper\<close> on ASCII text, which the two-letter codes are.\<close>

definition ToUpper_char :: "char \<Rightarrow> char" where
  "ToUpper_char c = (let n = of_char c :: nat in if 97 \<le> n \<and> n \<le> 122 then char_of (n - 32) else c)"

definition ToUpper :: "string \<Rightarrow> string" where
  "ToUpper s = map ToUpper_char s"

text \<open>\<open>netip.Addr.Unmap\<close> of an address given as a slice.\<close>

definition Unmap :: "IP \<Rightarrow> IP" where
  "Unmap ip = (case To4 ip of Some v4 \<Rightarrow> v4 | None \<Rightarrow> ip)"

text \<open>\<open>LookupCountry\<close>; a nil reader is \<^term>\<open>None\<close>.\<close>

definition LookupCountry :: "mmdb option \<Rightarrow> string \<Rightarrow> string" where
  "LookupCountry r ipStr =
     (case r of
        None \<Rightarrow> []
      | Some db \<Rightarrow>
          (case ParseIP ipStr of
             None \<Rightarrow> []
           | Some ip \<Rightarrow> (case db (Unmap ip) of None \<Rightarrow> [] | Some code \<Rightarrow> ToUpper code)))"

lemma LookupCountry_spelling: "ParseIP a = ParseIP b \<Longrightarrow> LookupCountry r a = LookupCountry r b"
  by (cases r) (simp_all add: LookupCountry_def)

section \<open>Opening the database\<close>

definition maxGeoIPFileSize :: nat where
  "maxGeoIPFileSize = 512 * 1024 * 1024"

datatype geo_err =
    GeoPath path_err
  | GeoOpen
  | GeoStat
  | GeoNotRegular
  | GeoTooLarge nat
  | GeoRead
  | GeoFormat

definition NewReader :: "(string \<Rightarrow> mmdb option) \<Rightarrow> files \<Rightarrow> string \<Rightarrow> geo_err + mmdb option" where
  "NewReader openBytes fs path =
     (if path = [] then Inr None
      else (case RejectSymlinkComponents (os_lstat fs) (Dir path) of
        Some err \<Rightarrow> Inl (GeoPath err)
      | None \<Rightarrow>
     (case os_open fs path of
        OpenNotExist \<Rightarrow> Inl GeoOpen
      | OpenError \<Rightarrow> Inl GeoOpen
      | Opened f \<Rightarrow>
     (case fd_stat f of
        None \<Rightarrow> Inl GeoStat
      | Some fi \<Rightarrow>
          if \<not> st_regular fi then Inl GeoNotRegular
          else if st_size fi > maxGeoIPFileSize then Inl (GeoTooLarge (st_size fi))
          else (case ReadAll (LimitReader (maxGeoIPFileSize + 1) (fd_content f)) of
                  None \<Rightarrow> Inl GeoRead
                | Some data \<Rightarrow> (case openBytes data of None \<Rightarrow> Inl GeoFormat | Some db \<Rightarrow> Inr (Some db)))))))"

text \<open>\<open>Close\<close> of a reader: an error only if closing the database gives one.\<close>

definition Close :: "(mmdb \<Rightarrow> bool) \<Rightarrow> mmdb option \<Rightarrow> bool" where
  "Close close_fails r = (case r of None \<Rightarrow> False | Some db \<Rightarrow> close_fails db)"

text \<open>A database in use was read from a regular file reached without any symbolic link.\<close>

lemma NewReader_verified:
  assumes "NewReader openBytes fs path = Inr (Some db)" "nofollow fs"
  shows "symlink_free fs path \<and> (\<exists>f fi. os_open fs path = Opened f \<and> fd_stat f = Some fi \<and> st_regular fi \<and>
    openBytes (take (maxGeoIPFileSize + 1) (rd_bytes (fd_content f))) = Some db)"
proof -
  obtain f fi data where o: "RejectSymlinkComponents (os_lstat fs) (Dir path) = None" "os_open fs path = Opened f"
      "fd_stat f = Some fi" "st_regular fi" "ReadAll (LimitReader (maxGeoIPFileSize + 1) (fd_content f)) = Some data" "openBytes data = Some db"
    using assms(1) by (auto simp: NewReader_def split: option.splits open_result.splits if_splits)
  from ReadAll_LimitReader [OF o(5)] o opened_symlink_free [OF assms(2) o(1,2)] show ?thesis by auto
qed

end
