(* ===== verification/Engine.thy ===== *)
theory Engine
  imports Conntrack Ratelimit L2Filter ThreatIntel Opa Alert GeoIP
begin

text \<open>
  internal/engine: the pipeline that decides a packet, the queue callback that delivers the
  verdict, the block log and the periodic maintenance. The components are the models of
  their own theories. What a packet's evaluation reads from outside (clock, random bytes,
  map iteration order, the policy's answer, the capture writer) is the record \<open>env\<close>; what
  it sends out (audit events, alerts) is appended to lists of the engine.
\<close>

section \<open>Data\<close>

definition maxRecentBlocks :: nat where "maxRecentBlocks = 100"
definition maxBlockStatsReasons :: nat where "maxBlockStatsReasons = 256"
definition maxReasonLength :: nat where "maxReasonLength = 1024"
definition traceIDLength :: nat where "traceIDLength = 4"

type_synonym int64 = "64 word"

record BlockLogEntry =
  bl_Timestamp :: time
  bl_SrcIP :: string
  bl_DstIP :: string
  bl_Protocol :: string
  bl_SrcPort :: uint16
  bl_DstPort :: uint16
  bl_Reason :: string
  bl_PacketSize :: int
  bl_TraceID :: string

record AuditEvent =
  au_Timestamp :: time
  au_Type :: string
  au_TraceID :: string
  au_SrcIP :: string
  au_DstIP :: string
  au_Protocol :: string
  au_SrcPort :: uint16
  au_DstPort :: uint16
  au_PacketSize :: int
  au_Reason :: string

text \<open>
  The policy evaluator behind the \<open>opa.Evaluator\<close> interface: a result, an error, or a
  panic (a nil result with a nil error panics at its first use).
\<close>

datatype eval_outcome = Evaluated Result | EvalError string | EvalPanic string

record Engine =
  eval :: "(Input \<Rightarrow> eval_outcome) option"
  conntrack :: Table
  ratelimit :: Limiter
  auditOnly :: bool
  failClosed :: bool
  auditLogger :: bool
  alertRouter :: "Router option"
  geoipReader :: "mmdb option"
  threatIntel :: "Blocklist option"
  pcapWriter :: bool
  statePath :: string
  l2Filter :: "Filter option"
  packetsProcessed :: int64
  packetsAllowed :: int64
  packetsBlocked :: int64
  blockStats :: "(string, int64) gomap"
  recentBlocks :: "BlockLogEntry list"
  running :: bool
  has_cancel :: bool
  ctx_done :: bool
  audited :: "AuditEvent list"
  alerted :: "payload list"

definition New ::
  "(Input \<Rightarrow> eval_outcome) option \<Rightarrow> Table \<Rightarrow> Limiter \<Rightarrow> bool \<Rightarrow> bool \<Rightarrow> bool \<Rightarrow> Router option \<Rightarrow> mmdb option \<Rightarrow>
   Blocklist option \<Rightarrow> bool \<Rightarrow> string \<Rightarrow> Filter option \<Rightarrow> Engine" where
  "New evl ct rl failC auditO al ar gr ti pw stateFile l2 =
     \<lparr>eval = evl, conntrack = ct, ratelimit = rl, auditOnly = auditO, failClosed = failC, auditLogger = al,
      alertRouter = ar, geoipReader = gr, threatIntel = ti, pcapWriter = pw, statePath = stateFile, l2Filter = l2,
      packetsProcessed = 0, packetsAllowed = 0, packetsBlocked = 0, blockStats = [], recentBlocks = [],
      running = False, has_cancel = False, ctx_done = False, audited = [], alerted = []\<rparr>"

text \<open>What one packet's evaluation reads from outside, one field per call.\<close>

datatype pcap_outcome = PcapOk | PcapErr | PcapPanic

record env =
  rand_bytes :: "byte list option"
  ct_times :: call_times
  flow_order :: "(flowKey, Flow) gomap \<Rightarrow> flowKey list"
  bucket_order :: "(rateKey, rateBucket) gomap \<Rightarrow> rateKey list"
  at_allow :: time
  at_port :: time
  at_connrate :: time
  at_input :: time
  at_block :: time
  at_audit :: time
  at_alert :: time
  at_send :: time
  pcap_write :: pcap_outcome

datatype 'a outcome = Ret 'a | Panic string

section \<open>Trace identifiers, counters, logs\<close>

text \<open>\<open>newTraceID\<close>: hexadecimal text of the random bytes; a failing source panics.\<close>

definition newTraceID :: "env \<Rightarrow> string outcome" where
  "newTraceID v =
     (case rand_bytes v of
        None \<Rightarrow> Panic ''crypto/rand: unavailable''
      | Some bs \<Rightarrow> Ret (concat (map hex2 (take traceIDLength bs))))"

definition add_processed :: "Engine \<Rightarrow> Engine" where
  "add_processed e = e\<lparr>packetsProcessed := packetsProcessed e + 1\<rparr>"

definition add_allowed :: "Engine \<Rightarrow> Engine" where
  "add_allowed e = e\<lparr>packetsAllowed := packetsAllowed e + 1\<rparr>"

definition add_blocked :: "Engine \<Rightarrow> Engine" where
  "add_blocked e = e\<lparr>packetsBlocked := packetsBlocked e + 1\<rparr>"

definition truncate_reason :: "string \<Rightarrow> string" where
  "truncate_reason r = (if length r > maxReasonLength then take maxReasonLength r else r)"

definition recordBlock :: "env \<Rightarrow> PacketInfo \<Rightarrow> string \<Rightarrow> string \<Rightarrow> Engine \<Rightarrow> Engine" where
  "recordBlock v pkt reason0 traceID e =
     (let reason = truncate_reason reason0;
          entry = \<lparr>bl_Timestamp = at_block v, bl_SrcIP = SrcIP pkt, bl_DstIP = DstIP pkt, bl_Protocol = Protocol pkt,
            bl_SrcPort = SrcPort pkt, bl_DstPort = DstPort pkt, bl_Reason = reason, bl_PacketSize = PacketSize pkt,
            bl_TraceID = traceID\<rparr>;
          kept = (if length (recentBlocks e) \<ge> maxRecentBlocks then tl (recentBlocks e) else recentBlocks e)
      in e\<lparr>recentBlocks := kept @ [entry],
           blockStats := (if length (blockStats e) < maxBlockStatsReasons
                          then AList.update reason (gm_get 0 (blockStats e) reason + 1) (blockStats e)
                          else blockStats e)\<rparr>)"

definition logAudit :: "env \<Rightarrow> string \<Rightarrow> string \<Rightarrow> PacketInfo \<Rightarrow> string \<Rightarrow> Engine \<Rightarrow> Engine" where
  "logAudit v eventType traceID pkt reason e =
     (if \<not> auditLogger e then e
      else e\<lparr>audited := audited e @
        [\<lparr>au_Timestamp = at_audit v, au_Type = eventType, au_TraceID = traceID, au_SrcIP = SrcIP pkt,
          au_DstIP = DstIP pkt, au_Protocol = Protocol pkt, au_SrcPort = SrcPort pkt, au_DstPort = DstPort pkt,
          au_PacketSize = PacketSize pkt, au_Reason = reason\<rparr>]\<rparr>)"

definition fireAlert :: "env \<Rightarrow> AlertType \<Rightarrow> string \<Rightarrow> Engine \<Rightarrow> Engine" where
  "fireAlert v alertType message e =
     (case alertRouter e of
        None \<Rightarrow> e
      | Some r \<Rightarrow>
          (case Send (at_send v) \<lparr>al_Type = alertType, al_Message = message, al_Source = ''engine'', al_Timestamp = at_alert v\<rparr> (Some r) of
             (p, ro) \<Rightarrow> e\<lparr>alertRouter := ro, alerted := alerted e @ (case p of None \<Rightarrow> [] | Some d \<Rightarrow> [d])\<rparr>))"

text \<open>The block every deny branch starts with: count, record, audit.\<close>

definition block_packet :: "env \<Rightarrow> PacketInfo \<Rightarrow> string \<Rightarrow> string \<Rightarrow> Engine \<Rightarrow> Engine" where
  "block_packet v pkt reason tid e = logAudit v ''packet_block'' tid pkt reason (recordBlock v pkt reason tid (add_blocked e))"

definition deny :: "string \<Rightarrow> Result" where
  "deny reason = \<lparr>Allowed = False, Reason = reason\<rparr>"

section \<open>The pipeline\<close>

text \<open>The dash of the messages is U+2014, three bytes.\<close>

definition dash :: string where
  "dash = [CHR 0xE2, CHR 0x80, CHR 0x94]"

definition conn_limit_reason :: string where
  "conn_limit_reason = ''connection limit exceeded for source IP''"

definition threat_reason :: string where
  "threat_reason = ''source IP in threat intelligence blocklist''"

definition no_evaluator_reason :: string where
  "no_evaluator_reason = ''evaluator unavailable '' @ dash @ '' blocked for safety''"

definition opa_error_reason :: "string \<Rightarrow> string" where
  "opa_error_reason err = ''OPA error: '' @ err @ '' '' @ dash @ '' blocked for safety''"

text \<open>\<open>%.0f\<close> of a non-negative number.\<close>

definition fmt_f0 :: "float64 \<Rightarrow> string" where
  "fmt_f0 x = dec (nat (round_half_even x))"

definition rate_reason :: "float64 \<Rightarrow> float64 \<Rightarrow> string" where
  "rate_reason p b = ''per-IP rate limit exceeded: '' @ fmt_f0 p @ '' pps / '' @ fmt_f0 b @ '' bps''"

definition track_flow :: "env \<Rightarrow> PacketInfo \<Rightarrow> Engine \<Rightarrow> Flow option \<times> Engine" where
  "track_flow v pkt e =
     (let ord = flow_order v (flows (conntrack e));
          (flow, ct) =
            (if Protocol pkt = ''TCP''
             then UpdateTCPState (ct_times v) ord (SrcIP pkt) (DstIP pkt) (Protocol pkt) (SrcPort pkt) (DstPort pkt)
                    (SYN (Flags pkt)) (ACK (Flags pkt)) (RST (Flags pkt)) (FIN (Flags pkt)) (conntrack e)
             else LookupOrCreate (ct_times v) ord (SrcIP pkt) (DstIP pkt) (Protocol pkt) (SrcPort pkt) (DstPort pkt) (conntrack e))
      in (flow, e\<lparr>conntrack := ct\<rparr>))"

definition track_port :: "PacketInfo \<Rightarrow> Engine \<Rightarrow> Engine" where
  "track_port pkt e =
     (if Protocol pkt = ''TCP'' \<or> Protocol pkt = ''UDP''
      then e\<lparr>conntrack := RecordDestPort (SrcIP pkt) (DstPort pkt) (conntrack e)\<rparr> else e)"

definition track_rates :: "env \<Rightarrow> PacketInfo \<Rightarrow> int \<Rightarrow> Engine \<Rightarrow> (float64 \<times> float64) \<times> (float64 \<times> float64) \<times> Engine" where
  "track_rates v pkt packetSize e =
     (let (r1, l1) = Allow (bucket_order v (buckets (ratelimit e))) (at_allow v) (SrcIP pkt) packetSize (ratelimit e);
          (r2, l2) = AllowPort (bucket_order v (buckets l1)) (at_port v) (SrcIP pkt) (DstPort pkt) packetSize l1
      in (r1, r2, e\<lparr>ratelimit := l2\<rparr>))"

definition packet_input :: "env \<Rightarrow> PacketInfo \<Rightarrow> Flow \<Rightarrow> float64 \<times> float64 \<Rightarrow> float64 \<times> float64 \<Rightarrow> Engine \<Rightarrow> Input" where
  "packet_input v pkt flow r1 r2 e =
     (let newConnRate = NewConnectionRate (at_connrate v) (conntrack e) (SrcIP pkt);
          recentPorts = GetRecentDestPorts (conntrack e) (SrcIP pkt);
          tcpState = (if Protocol pkt = ''TCP'' then TCPState_String (f_TCPState flow) else []);
          input = BuildInput (at_input v) pkt (fst r1) (snd r1) (Established flow) tcpState (fst r2) (snd r2) newConnRate recentPorts
      in if geoipReader e = None then input
         else input\<lparr>in_Geo := \<lparr>in_SrcCountry = LookupCountry (geoipReader e) (SrcIP pkt),
                               in_DstCountry = LookupCountry (geoipReader e) (DstIP pkt)\<rparr>\<rparr>)"

text \<open>The policy stage: no evaluator, an error, a refusal in audit-only mode, or the decision.\<close>

definition decide :: "env \<Rightarrow> PacketInfo \<Rightarrow> string \<Rightarrow> Input \<Rightarrow> Engine \<Rightarrow> Result outcome \<times> Engine" where
  "decide v pkt tid input e =
     (case eval e of
        None \<Rightarrow>
          if failClosed e then (Ret (deny no_evaluator_reason), block_packet v pkt no_evaluator_reason tid e)
          else (Ret \<lparr>Allowed = True, Reason = []\<rparr>, logAudit v ''packet_allow'' tid pkt [] (add_allowed e))
      | Some evl \<Rightarrow>
          (case evl input of
             EvalPanic msg \<Rightarrow> (Panic msg, e)
           | EvalError err \<Rightarrow>
               (let reason = opa_error_reason err
                in (Ret (deny reason), fireAlert v AlertOPAError reason (block_packet v pkt reason tid e)))
           | Evaluated r \<Rightarrow>
               if \<not> Allowed r \<and> auditOnly e
               then (Ret \<lparr>Allowed = True, Reason = []\<rparr>, logAudit v ''audit_block'' tid pkt (Reason r) (add_allowed e))
               else if Allowed r then (Ret r, logAudit v ''packet_allow'' tid pkt [] (add_allowed e))
               else (let reason = truncate_reason (Reason r)
                     in (Ret (r\<lparr>Reason := reason\<rparr>), block_packet v pkt reason tid e))))"

definition evaluate_body :: "env \<Rightarrow> PacketInfo \<Rightarrow> int \<Rightarrow> Engine \<Rightarrow> Result outcome \<times> Engine" where
  "evaluate_body v pkt packetSize e0 =
     (case newTraceID v of
        Panic msg \<Rightarrow> (Panic msg, add_processed e0)
      | Ret tid \<Rightarrow>
          (case track_flow v pkt (add_processed e0) of
             (None, e1) \<Rightarrow>
               (Ret (deny conn_limit_reason),
                fireAlert v AlertConnLimit (conn_limit_reason @ '' src='' @ SrcIP pkt) (block_packet v pkt conn_limit_reason tid e1))
           | (Some flow, e1) \<Rightarrow>
               (let e2 = track_port pkt e1
                in case MACAllowed (l2Filter e2) (SrcMAC pkt) of
                     (False, reason) \<Rightarrow> (Ret (deny reason), block_packet v pkt reason tid e2)
                   | (True, _) \<Rightarrow>
                       (case track_rates v pkt packetSize e2 of
                          (r1, r2, e3) \<Rightarrow>
                            if ExceedsLimit (ratelimit e3) (fst r1) (snd r1)
                            then (let reason = rate_reason (fst r1) (snd r1) in (Ret (deny reason), block_packet v pkt reason tid e3))
                            else if BL_Contains (threatIntel e3) (SrcIP pkt)
                            then (Ret (deny threat_reason), block_packet v pkt threat_reason tid e3)
                            else decide v pkt tid (packet_input v pkt flow r1 r2 e3) e3))))"

text \<open>\<open>evaluatePacket\<close> with its deferred recovery.\<close>

definition evaluatePacket :: "env \<Rightarrow> PacketInfo \<Rightarrow> int \<Rightarrow> Engine \<Rightarrow> Result \<times> Engine" where
  "evaluatePacket v pkt packetSize e =
     (case evaluate_body v pkt packetSize e of
        (Ret r, e') \<Rightarrow> (r, e')
      | (Panic msg, e') \<Rightarrow> (deny (''internal error: '' @ msg), add_blocked (add_processed e')))"


section \<open>The queue\<close>

record attribute =
  PacketID :: "32 word option"
  Payload :: "byte list option"

datatype verdict = NfDrop | NfAccept

text \<open>\<open>packetHandler\<close> with its deferred recovery: 0 accepts, 1 drops.\<close>

definition packetHandler :: "gopacket \<Rightarrow> env \<Rightarrow> attribute \<Rightarrow> Engine \<Rightarrow> nat \<times> Engine" where
  "packetHandler gp v attr e =
     (case Payload attr of
        None \<Rightarrow> (1, add_blocked (add_processed e))
      | Some raw \<Rightarrow>
          (case ParsePacket gp raw of
             Panicked \<Rightarrow> (1, add_allowed (add_processed e))
           | ParseError err \<Rightarrow> (1, add_blocked (add_processed e))
           | Parsed pkt \<Rightarrow>
               (case evaluatePacket v pkt (int (length raw)) e of
                  (r, e') \<Rightarrow>
                    if Allowed r then (0, e')
                    else if pcapWriter e' \<and> pcap_write v = PcapPanic then (1, add_allowed (add_processed e'))
                    else (1, e'))))"

text \<open>
  \<open>handleQueuePacket\<close>: the verdict handed to \<open>SetVerdict\<close>, the value that controls the
  receive loop, and the engine. \<open>sends\<close> tells whether \<open>SetVerdict\<close> succeeds.
\<close>

definition handleQueuePacket ::
  "gopacket \<Rightarrow> env \<Rightarrow> (32 word \<Rightarrow> verdict \<Rightarrow> bool) \<Rightarrow> attribute \<Rightarrow> Engine \<Rightarrow> (32 word \<times> verdict) option \<times> nat \<times> Engine" where
  "handleQueuePacket gp v sends attr e =
     (case PacketID attr of
        None \<Rightarrow> (None, 1, e)
      | Some pid \<Rightarrow>
          (case packetHandler gp v attr e of
             (ret, e') \<Rightarrow>
               (let vd = (if ret \<noteq> 0 then NfDrop else NfAccept)
                in (Some (pid, vd), if sends pid vd then 0 else 1, e'))))"

section \<open>State, maintenance, lifecycle\<close>

text \<open>\<open>saveState\<close>: the block counters handed to \<open>persist.SaveState\<close>, if any.\<close>

definition saveState :: "Engine \<Rightarrow> (string \<times> (string, int64) gomap) option" where
  "saveState e = (if statePath e = [] then None else Some (statePath e, blockStats e))"

text \<open>What \<open>persist.LoadState\<close> gives: an error, no state, or counters.\<close>

datatype load_result = LoadErr | NoState | Loaded "(string, int64) gomap"

definition restore_entry :: "string \<times> int64 \<Rightarrow> (string, int64) gomap \<Rightarrow> (string, int64) gomap" where
  "restore_entry kv m = (if length m < maxBlockStatsReasons then AList.update (fst kv) (snd kv) m else m)"

definition restoreState :: "load_result \<Rightarrow> Engine \<Rightarrow> Engine" where
  "restoreState loaded e =
     (if statePath e = [] then e
      else case loaded of
        LoadErr \<Rightarrow> e
      | NoState \<Rightarrow> e
      | Loaded m \<Rightarrow> e\<lparr>blockStats := fold restore_entry m (blockStats e)\<rparr>)"

definition maintain :: "env \<Rightarrow> time \<Rightarrow> time \<Rightarrow> Engine \<Rightarrow> Engine" where
  "maintain v at_expire at_cleanup e =
     (let ct = snd (Expire at_expire (flow_order v (flows (conntrack e))) (conntrack e));
          rl = snd (Cleanup at_cleanup (bucket_order v (buckets (ratelimit e))) (seconds 300) (ratelimit e))
      in e\<lparr>conntrack := ct, ratelimit := rl\<rparr>)"

text \<open>
  A round of the maintenance goroutine: the ticker fired (with the clock readings of the two
  calls), or the run context was cancelled, which ends the goroutine.
\<close>

datatype wake = Tick time time | Done

definition housekeep :: "env \<Rightarrow> wake \<Rightarrow> Engine \<Rightarrow> Engine \<times> (string \<times> (string, int64) gomap) option" where
  "housekeep v w e =
     (case w of
        Done \<Rightarrow> (e, saveState e)
      | Tick at_expire at_cleanup \<Rightarrow> (let e' = maintain v at_expire at_cleanup e in (e', saveState e')))"

text \<open>The accessors of the admin API; \<open>RecentBlocks\<close> gives nil for an empty log.\<close>

record PacketStats =
  PacketsProcessed :: int64
  PacketsAllowed :: int64
  PacketsBlocked :: int64

definition Engine_Stats :: "Engine \<Rightarrow> PacketStats" where
  "Engine_Stats e =
     \<lparr>PacketsProcessed = packetsProcessed e, PacketsAllowed = packetsAllowed e, PacketsBlocked = packetsBlocked e\<rparr>"

definition Running :: "Engine \<Rightarrow> bool" where
  "Running e = running e"

definition ConntrackStats :: "Engine \<Rightarrow> Stats" where
  "ConntrackStats e = stats (conntrack e)"

definition BlockStats_copy :: "string list \<Rightarrow> Engine \<Rightarrow> (string, int64) gomap" where
  "BlockStats_copy ord e = fold (\<lambda>k m. AList.update k (the (map_of (blockStats e) k)) m) ord []"

definition RecentBlocks :: "Engine \<Rightarrow> BlockLogEntry list option" where
  "RecentBlocks e = (if recentBlocks e = [] then None else Some (recentBlocks e))"

datatype run_error = OpenFailed | RegisterFailed

text \<open>\<open>Run\<close> up to the point where it waits, given whether the queue opens and the callback registers.\<close>

definition run_begin :: "load_result \<Rightarrow> bool \<Rightarrow> bool \<Rightarrow> Engine \<Rightarrow> run_error option \<times> Engine" where
  "run_begin loaded opens registers e =
     (let e1 = (restoreState loaded e)\<lparr>has_cancel := True, ctx_done := False\<rparr>
      in if \<not> opens then (Some OpenFailed, e1\<lparr>ctx_done := True\<rparr>)
         else if \<not> registers then (Some RegisterFailed, e1\<lparr>running := False, ctx_done := True\<rparr>)
         else (None, e1\<lparr>running := True\<rparr>))"

definition Stop :: "Engine \<Rightarrow> Engine" where
  "Stop e = (if has_cancel e then e\<lparr>ctx_done := True\<rparr> else e)"

definition run_end :: "Engine \<Rightarrow> Engine" where
  "run_end e = (if ctx_done e then e\<lparr>running := False\<rparr> else e)"

text \<open>The error callback: timeouts and temporary netlink errors keep the receive loop alive.\<close>

datatype receive_error = NetlinkOpError bool bool | OtherReceiveError

fun on_receive_error :: "receive_error \<Rightarrow> nat" where
  "on_receive_error (NetlinkOpError timeout temporary) = (if timeout \<or> temporary then 0 else 1)"
| "on_receive_error OtherReceiveError = 1"

section \<open>Fail modes\<close>

datatype FailMode = FailOpen | FailClosed | FailLog

fun FailMode_String :: "FailMode \<Rightarrow> string" where
  "FailMode_String FailOpen = ''open''"
| "FailMode_String FailClosed = ''closed''"
| "FailMode_String FailLog = ''log''"

definition ParseFailMode :: "string \<Rightarrow> FailMode" where
  "ParseFailMode s =
     (if s = ''open'' then FailOpen else if s = ''closed'' then FailClosed
      else if s = ''log'' then FailLog else FailClosed)"

lemma ParseFailMode_String: "ParseFailMode (FailMode_String m) = m"
  by (cases m) (simp_all add: ParseFailMode_def)

section \<open>What each part leaves alone\<close>

lemmas log_defs = add_processed_def add_allowed_def add_blocked_def logAudit_def recordBlock_def block_packet_def

text \<open>The parts of the engine that deciding a packet reads.\<close>

definition same_parts :: "Engine \<Rightarrow> Engine \<Rightarrow> bool" where
  "same_parts e e' \<longleftrightarrow> eval e' = eval e \<and> auditOnly e' = auditOnly e \<and> failClosed e' = failClosed e \<and>
     auditLogger e' = auditLogger e \<and> geoipReader e' = geoipReader e \<and> threatIntel e' = threatIntel e \<and>
     pcapWriter e' = pcapWriter e \<and> statePath e' = statePath e \<and> l2Filter e' = l2Filter e"

lemma same_parts_refl [simp]: "same_parts e e"
  by (simp add: same_parts_def)

lemma same_parts_trans: "same_parts a b \<Longrightarrow> same_parts b c \<Longrightarrow> same_parts a c"
  by (simp add: same_parts_def)

lemma same_parts_logs:
  "same_parts e (add_processed e)" "same_parts e (add_allowed e)" "same_parts e (add_blocked e)"
  "same_parts e (logAudit v ty tid pkt r e)" "same_parts e (recordBlock v pkt r tid e)" "same_parts e (block_packet v pkt r tid e)"
  by (simp_all add: same_parts_def log_defs Let_def)

lemma same_parts_alert: "same_parts e (fireAlert v ty msg e)"
  by (simp add: same_parts_def fireAlert_def split: option.split prod.split)

lemma same_parts_track:
  "track_flow v pkt e = (f, e') \<Longrightarrow> same_parts e e'" "same_parts e (track_port pkt e)"
  "track_rates v pkt n e = (r1, r2, e') \<Longrightarrow> same_parts e e'"
  by (auto simp: same_parts_def track_flow_def track_port_def track_rates_def Let_def split: prod.splits)

lemma log_tables [simp]:
  "conntrack (add_processed e) = conntrack e" "conntrack (add_allowed e) = conntrack e" "conntrack (add_blocked e) = conntrack e"
  "conntrack (logAudit v ty tid pkt r e) = conntrack e" "conntrack (block_packet v pkt r tid e) = conntrack e"
  "ratelimit (add_processed e) = ratelimit e" "ratelimit (add_allowed e) = ratelimit e" "ratelimit (add_blocked e) = ratelimit e"
  "ratelimit (logAudit v ty tid pkt r e) = ratelimit e" "ratelimit (block_packet v pkt r tid e) = ratelimit e"
  "conntrack (fireAlert v a m e) = conntrack e" "ratelimit (fireAlert v a m e) = ratelimit e"
  by (simp_all add: log_defs fireAlert_def Let_def split: option.split prod.split)


section \<open>The stages of one packet\<close>

definition packet_flow :: "env \<Rightarrow> PacketInfo \<Rightarrow> Engine \<Rightarrow> Flow option" where
  "packet_flow v pkt e = fst (track_flow v pkt (add_processed e))"

definition after_flow :: "env \<Rightarrow> PacketInfo \<Rightarrow> Engine \<Rightarrow> Engine" where
  "after_flow v pkt e = snd (track_flow v pkt (add_processed e))"

definition after_port :: "env \<Rightarrow> PacketInfo \<Rightarrow> Engine \<Rightarrow> Engine" where
  "after_port v pkt e = track_port pkt (after_flow v pkt e)"

definition src_rates :: "env \<Rightarrow> PacketInfo \<Rightarrow> int \<Rightarrow> Engine \<Rightarrow> float64 \<times> float64" where
  "src_rates v pkt n e = fst (track_rates v pkt n (after_port v pkt e))"

definition after_rates :: "env \<Rightarrow> PacketInfo \<Rightarrow> int \<Rightarrow> Engine \<Rightarrow> Engine" where
  "after_rates v pkt n e = snd (snd (track_rates v pkt n (after_port v pkt e)))"

definition policy_input :: "env \<Rightarrow> PacketInfo \<Rightarrow> int \<Rightarrow> Engine \<Rightarrow> Input" where
  "policy_input v pkt n e =
     packet_input v pkt (the (packet_flow v pkt e)) (src_rates v pkt n e)
       (fst (snd (track_rates v pkt n (after_port v pkt e)))) (after_rates v pkt n e)"

lemma same_parts_stages:
  "same_parts e (after_flow v pkt e)" "same_parts e (after_port v pkt e)" "same_parts e (after_rates v pkt n e)"
proof -
  show f: "same_parts e (after_flow v pkt e)"
    using same_parts_trans [OF same_parts_logs(1) same_parts_track(1)] by (metis after_flow_def prod.collapse)
  then show p: "same_parts e (after_port v pkt e)"
    using same_parts_trans same_parts_track(2) by (metis after_port_def)
  then show "same_parts e (after_rates v pkt n e)"
    using same_parts_trans same_parts_track(3) by (metis after_rates_def prod.collapse)
qed

lemma stage_parts [simp]:
  "l2Filter (after_port v pkt e) = l2Filter e" "threatIntel (after_rates v pkt n e) = threatIntel e"
  "eval (after_rates v pkt n e) = eval e" "auditOnly (after_rates v pkt n e) = auditOnly e"
  "failClosed (after_rates v pkt n e) = failClosed e" "auditLogger (after_rates v pkt n e) = auditLogger e"
  "auditLogger (after_flow v pkt e) = auditLogger e" "auditLogger (after_port v pkt e) = auditLogger e"
  using same_parts_stages [of e v pkt] by (auto simp: same_parts_def)

lemma evaluate_body_cases:
  obtains (no_trace) msg where "newTraceID v = Panic msg" "evaluate_body v pkt n e = (Panic msg, add_processed e)"
  | (conn_limit) tid where "newTraceID v = Ret tid" "packet_flow v pkt e = None"
      "evaluate_body v pkt n e = (Ret (deny conn_limit_reason),
         fireAlert v AlertConnLimit (conn_limit_reason @ '' src='' @ SrcIP pkt)
           (block_packet v pkt conn_limit_reason tid (after_flow v pkt e)))"
  | (mac) tid reason where "newTraceID v = Ret tid" "packet_flow v pkt e \<noteq> None"
      "MACAllowed (l2Filter e) (SrcMAC pkt) = (False, reason)"
      "evaluate_body v pkt n e = (Ret (deny reason), block_packet v pkt reason tid (after_port v pkt e))"
  | (rate) tid reason where "newTraceID v = Ret tid" "packet_flow v pkt e \<noteq> None"
      "fst (MACAllowed (l2Filter e) (SrcMAC pkt))"
      "ExceedsLimit (ratelimit (after_rates v pkt n e)) (fst (src_rates v pkt n e)) (snd (src_rates v pkt n e))"
      "reason = rate_reason (fst (src_rates v pkt n e)) (snd (src_rates v pkt n e))"
      "evaluate_body v pkt n e = (Ret (deny reason), block_packet v pkt reason tid (after_rates v pkt n e))"
  | (threat) tid where "newTraceID v = Ret tid" "packet_flow v pkt e \<noteq> None"
      "fst (MACAllowed (l2Filter e) (SrcMAC pkt))"
      "\<not> ExceedsLimit (ratelimit (after_rates v pkt n e)) (fst (src_rates v pkt n e)) (snd (src_rates v pkt n e))"
      "BL_Contains (threatIntel e) (SrcIP pkt)"
      "evaluate_body v pkt n e = (Ret (deny threat_reason), block_packet v pkt threat_reason tid (after_rates v pkt n e))"
  | (policy) tid where "newTraceID v = Ret tid" "packet_flow v pkt e \<noteq> None"
      "fst (MACAllowed (l2Filter e) (SrcMAC pkt))"
      "\<not> ExceedsLimit (ratelimit (after_rates v pkt n e)) (fst (src_rates v pkt n e)) (snd (src_rates v pkt n e))"
      "\<not> BL_Contains (threatIntel e) (SrcIP pkt)"
      "evaluate_body v pkt n e = decide v pkt tid (policy_input v pkt n e) (after_rates v pkt n e)"
proof (cases "newTraceID v")
  case (Panic msg)
  then show thesis by (intro no_trace) (simp_all add: evaluate_body_def)
next
  case (Ret tid)
  have fl: "track_flow v pkt (add_processed e) = (packet_flow v pkt e, after_flow v pkt e)"
    by (simp add: packet_flow_def after_flow_def)
  obtain r2 where rt: "track_rates v pkt n (after_port v pkt e) = (src_rates v pkt n e, r2, after_rates v pkt n e)"
    by (metis src_rates_def after_rates_def prod.collapse)
  obtain ok reason where m: "MACAllowed (l2Filter e) (SrcMAC pkt) = (ok, reason)" by fastforce
  show thesis
  proof (cases "packet_flow v pkt e")
    case None
    with Ret fl show ?thesis by (intro conn_limit) (simp_all add: evaluate_body_def)
  next
    case (Some flow)
    then have body: "evaluate_body v pkt n e =
        (case (ok, reason) of
           (False, reason) \<Rightarrow> (Ret (deny reason), block_packet v pkt reason tid (after_port v pkt e))
         | (True, _) \<Rightarrow>
             if ExceedsLimit (ratelimit (after_rates v pkt n e)) (fst (src_rates v pkt n e)) (snd (src_rates v pkt n e))
             then (let reason = rate_reason (fst (src_rates v pkt n e)) (snd (src_rates v pkt n e))
                   in (Ret (deny reason), block_packet v pkt reason tid (after_rates v pkt n e)))
             else if BL_Contains (threatIntel e) (SrcIP pkt)
             then (Ret (deny threat_reason), block_packet v pkt threat_reason tid (after_rates v pkt n e))
             else decide v pkt tid (policy_input v pkt n e) (after_rates v pkt n e))"
      using Ret fl rt m by (cases ok) (simp_all add: evaluate_body_def Let_def after_port_def [symmetric] policy_input_def)
    show ?thesis
      using that(3-6) Ret Some m body by (cases ok) (auto simp: Let_def split: if_splits)
  qed
qed

definition accepts :: "env \<Rightarrow> PacketInfo \<Rightarrow> int \<Rightarrow> Engine \<Rightarrow> bool" where
  "accepts v pkt n e \<longleftrightarrow>
     rand_bytes v \<noteq> None \<and> packet_flow v pkt e \<noteq> None \<and> fst (MACAllowed (l2Filter e) (SrcMAC pkt)) \<and>
     \<not> ExceedsLimit (ratelimit (after_rates v pkt n e)) (fst (src_rates v pkt n e)) (snd (src_rates v pkt n e)) \<and>
     \<not> BL_Contains (threatIntel e) (SrcIP pkt) \<and>
     (case eval e of
        None \<Rightarrow> \<not> failClosed e
      | Some f \<Rightarrow>
          (case f (policy_input v pkt n e) of
             Evaluated r \<Rightarrow> Allowed r \<or> auditOnly e
           | EvalError err \<Rightarrow> False
           | EvalPanic msg \<Rightarrow> False))"


lemma decide_cases:
  obtains (allow) ty reason r where "decide v pkt tid i e = (Ret r, logAudit v ty tid pkt reason (add_allowed e))" "Allowed r"
      "case eval e of None \<Rightarrow> \<not> failClosed e | Some f \<Rightarrow> \<exists>q. f i = Evaluated q \<and> (Allowed q \<or> auditOnly e)"
  | (block) reason r where "decide v pkt tid i e = (Ret r, block_packet v pkt reason tid e)"
      "\<not> Allowed r" "Reason r = reason"
      "case eval e of None \<Rightarrow> failClosed e | Some f \<Rightarrow> \<exists>q. f i = Evaluated q \<and> \<not> Allowed q \<and> \<not> auditOnly e"
  | (error) f err where "eval e = Some f" "f i = EvalError err"
      "decide v pkt tid i e = (Ret (deny (opa_error_reason err)),
         fireAlert v AlertOPAError (opa_error_reason err) (block_packet v pkt (opa_error_reason err) tid e))"
  | (panic) f msg where "eval e = Some f" "f i = EvalPanic msg" "decide v pkt tid i e = (Panic msg, e)"
proof (cases "eval e")
  case None
  with that(1,2) show ?thesis by (cases "failClosed e") (auto simp: decide_def deny_def)
next
  case (Some f)
  with that show ?thesis
    by (cases "f i"; cases "Allowed (case f i of Evaluated r \<Rightarrow> r)"; cases "auditOnly e")
      (auto simp: decide_def Let_def)
qed

lemma trace_iff: "rand_bytes v \<noteq> None \<longleftrightarrow> (\<exists>tid. newTraceID v = Ret tid)"
  by (auto simp: newTraceID_def split: option.split)

lemma deny_simps [simp]: "\<not> Allowed (deny reason)" "Reason (deny reason) = reason"
  by (simp_all add: deny_def)

lemma evaluatePacket_accepts: "Allowed (fst (evaluatePacket v pkt n e)) \<longleftrightarrow> accepts v pkt n e"
proof (cases v pkt n e rule: evaluate_body_cases)
  case (policy tid)
  let ?i = "policy_input v pkt n e" and ?e = "after_rates v pkt n e"
  have acc: "accepts v pkt n e \<longleftrightarrow>
     (case eval e of None \<Rightarrow> \<not> failClosed e
      | Some f \<Rightarrow> (case f ?i of Evaluated r \<Rightarrow> Allowed r \<or> auditOnly e | EvalError err \<Rightarrow> False | EvalPanic msg \<Rightarrow> False))"
    using policy(1-5) trace_iff [of v] by (auto simp: accepts_def)
  show ?thesis
    by (cases rule: decide_cases [where v = v and pkt = pkt and tid = tid and i = ?i and e = ?e])
      (auto simp: acc evaluatePacket_def policy(6) split: option.splits)
qed (use trace_iff [of v] in \<open>auto simp: accepts_def evaluatePacket_def\<close>)

section \<open>Counters\<close>

lemma track_flow_eq: "snd (track_flow v pkt e) = e\<lparr>conntrack := conntrack (snd (track_flow v pkt e))\<rparr>"
  by (simp add: track_flow_def Let_def split: prod.split)

lemma track_port_eq: "track_port pkt e = e\<lparr>conntrack := conntrack (track_port pkt e)\<rparr>"
  by (simp add: track_port_def)

lemma track_rates_eq: "snd (snd (track_rates v pkt n e)) = e\<lparr>ratelimit := ratelimit (snd (snd (track_rates v pkt n e)))\<rparr>"
  by (simp add: track_rates_def Let_def split: prod.split)

text \<open>Up to the policy stage only the flow table, the buckets and the packet count change.\<close>

lemma stage_eqs:
  "after_flow v pkt e = (add_processed e)\<lparr>conntrack := conntrack (after_flow v pkt e)\<rparr>"
  "after_port v pkt e = (add_processed e)\<lparr>conntrack := conntrack (after_port v pkt e)\<rparr>"
  "after_rates v pkt n e = (add_processed e)\<lparr>conntrack := conntrack (after_port v pkt e), ratelimit := ratelimit (after_rates v pkt n e)\<rparr>"
proof -
  show f: "after_flow v pkt e = (add_processed e)\<lparr>conntrack := conntrack (after_flow v pkt e)\<rparr>"
    unfolding after_flow_def by (rule track_flow_eq)
  have "after_port v pkt e = (after_flow v pkt e)\<lparr>conntrack := conntrack (after_port v pkt e)\<rparr>"
    unfolding after_port_def by (rule track_port_eq)
  then show p: "after_port v pkt e = (add_processed e)\<lparr>conntrack := conntrack (after_port v pkt e)\<rparr>"
    by (subst (asm) f) simp
  have "after_rates v pkt n e = (after_port v pkt e)\<lparr>ratelimit := ratelimit (after_rates v pkt n e)\<rparr>"
    unfolding after_rates_def by (rule track_rates_eq)
  then show "after_rates v pkt n e = (add_processed e)\<lparr>conntrack := conntrack (after_port v pkt e), ratelimit := ratelimit (after_rates v pkt n e)\<rparr>"
    by (subst (asm) p) simp
qed


lemma stage_simps [simp]:
  "packetsProcessed (after_flow v pkt e) = packetsProcessed e + 1" "packetsProcessed (after_port v pkt e) = packetsProcessed e + 1"
  "packetsProcessed (after_rates v pkt n e) = packetsProcessed e + 1"
  "packetsAllowed (after_flow v pkt e) = packetsAllowed e" "packetsAllowed (after_port v pkt e) = packetsAllowed e"
  "packetsAllowed (after_rates v pkt n e) = packetsAllowed e"
  "packetsBlocked (after_flow v pkt e) = packetsBlocked e" "packetsBlocked (after_port v pkt e) = packetsBlocked e"
  "packetsBlocked (after_rates v pkt n e) = packetsBlocked e"
  "recentBlocks (after_flow v pkt e) = recentBlocks e" "recentBlocks (after_port v pkt e) = recentBlocks e"
  "recentBlocks (after_rates v pkt n e) = recentBlocks e"
  "blockStats (after_flow v pkt e) = blockStats e" "blockStats (after_port v pkt e) = blockStats e"
  "blockStats (after_rates v pkt n e) = blockStats e"
  "audited (after_flow v pkt e) = audited e" "audited (after_port v pkt e) = audited e" "audited (after_rates v pkt n e) = audited e"
  by (subst stage_eqs, simp add: add_processed_def)+

lemma log_counts [simp]:
  "packetsProcessed (add_processed e) = packetsProcessed e + 1" "packetsProcessed (add_allowed e) = packetsProcessed e"
  "packetsProcessed (add_blocked e) = packetsProcessed e" "packetsProcessed (logAudit v ty tid pkt r e) = packetsProcessed e"
  "packetsProcessed (block_packet v pkt r tid e) = packetsProcessed e" "packetsProcessed (fireAlert v a m e) = packetsProcessed e"
  "packetsAllowed (add_processed e) = packetsAllowed e" "packetsAllowed (add_allowed e) = packetsAllowed e + 1"
  "packetsAllowed (add_blocked e) = packetsAllowed e" "packetsAllowed (logAudit v ty tid pkt r e) = packetsAllowed e"
  "packetsAllowed (block_packet v pkt r tid e) = packetsAllowed e" "packetsAllowed (fireAlert v a m e) = packetsAllowed e"
  "packetsBlocked (add_processed e) = packetsBlocked e" "packetsBlocked (add_allowed e) = packetsBlocked e"
  "packetsBlocked (add_blocked e) = packetsBlocked e + 1" "packetsBlocked (logAudit v ty tid pkt r e) = packetsBlocked e"
  "packetsBlocked (block_packet v pkt r tid e) = packetsBlocked e + 1" "packetsBlocked (fireAlert v a m e) = packetsBlocked e"
  by (simp_all add: log_defs fireAlert_def Let_def split: option.split prod.split)

lemma evaluate_body_counts:
  "evaluate_body v pkt n e = (o', e') \<Longrightarrow>
     packetsProcessed e' = packetsProcessed e + 1 \<and>
     packetsAllowed e' = packetsAllowed e + (case o' of Ret r \<Rightarrow> if Allowed r then 1 else 0 | Panic _ \<Rightarrow> 0) \<and>
     packetsBlocked e' = packetsBlocked e + (case o' of Ret r \<Rightarrow> if Allowed r then 0 else 1 | Panic _ \<Rightarrow> 0)"
proof (cases v pkt n e rule: evaluate_body_cases)
  case (policy tid)
  assume "evaluate_body v pkt n e = (o', e')"
  with policy(6) have "decide v pkt tid (policy_input v pkt n e) (after_rates v pkt n e) = (o', e')" by simp
  then show ?thesis
    by (cases rule: decide_cases [where v = v and pkt = pkt and tid = tid and i = "policy_input v pkt n e" and e = "after_rates v pkt n e"]) auto
qed auto


section \<open>The invariant\<close>

definition env_ok :: "env \<Rightarrow> bool" where
  "env_ok v \<longleftrightarrow> (\<forall>m. gm_wf m \<longrightarrow> gm_enum (flow_order v m) m) \<and> (\<forall>m. gm_wf m \<longrightarrow> gm_enum (bucket_order v m) m)"

definition logs_ok :: "Engine \<Rightarrow> bool" where
  "logs_ok e \<longleftrightarrow> length (recentBlocks e) \<le> maxRecentBlocks \<and>
     (\<forall>b \<in> set (recentBlocks e). length (bl_Reason b) \<le> maxReasonLength) \<and>
     gm_wf (blockStats e) \<and> length (blockStats e) \<le> maxBlockStatsReasons"

definition engine_inv :: "Engine \<Rightarrow> bool" where
  "engine_inv e \<longleftrightarrow> table_inv (conntrack e) \<and> limiter_inv (ratelimit e) \<and> bl_ok (threatIntel e) \<and> logs_ok e"

lemma table_inv_wf: "table_inv t \<Longrightarrow> gm_wf (flows t)"
  by (simp add: table_inv_def flows_ok_def)

lemma track_flow_inv: "env_ok v \<Longrightarrow> table_inv (conntrack e) \<Longrightarrow> table_inv (conntrack (snd (track_flow v pkt e)))"
  using table_inv_wf [of "conntrack e"] UpdateTCPState_inv [of "conntrack e" "flow_order v (flows (conntrack e))"]
    LookupOrCreate_inv [of "conntrack e" "flow_order v (flows (conntrack e))"]
  by (auto simp: track_flow_def env_ok_def Let_def split: prod.splits) (metis snd_conv)+

lemma limiter_inv_wf: "limiter_inv l \<Longrightarrow> gm_wf (buckets l)"
  by (simp add: limiter_inv_def)

lemma track_rates_inv:
  assumes v: "env_ok v" and inv: "limiter_inv (ratelimit e)" and n: "0 \<le> n"
  shows "limiter_inv (ratelimit (snd (snd (track_rates v pkt n e))))"
proof -
  obtain r1 l1 where a: "Allow (bucket_order v (buckets (ratelimit e))) (at_allow v) (SrcIP pkt) n (ratelimit e) = (r1, l1)" by fastforce
  have l1: "limiter_inv l1"
    using allow_key_inv [OF inv _ n, of "bucket_order v (buckets (ratelimit e))" "ipKey (SrcIP pkt)" "at_allow v"]
      v limiter_inv_wf [OF inv] a by (simp add: env_ok_def Allow_def)
  then have "limiter_inv (snd (AllowPort (bucket_order v (buckets l1)) (at_port v) (SrcIP pkt) (DstPort pkt) n l1))"
    using allow_key_inv [OF l1 _ n, of "bucket_order v (buckets l1)" "portKey (SrcIP pkt) (DstPort pkt)" "at_port v"]
      v limiter_inv_wf [OF l1] by (simp add: env_ok_def AllowPort_def)
  then show ?thesis using a by (auto simp: track_rates_def Let_def split: prod.split)
qed

lemma stages_inv:
  assumes v: "env_ok v" and inv: "engine_inv e" and n: "0 \<le> n"
  shows "table_inv (conntrack (after_flow v pkt e))" "table_inv (conntrack (after_port v pkt e))"
    "limiter_inv (ratelimit (after_rates v pkt n e))"
proof -
  show f: "table_inv (conntrack (after_flow v pkt e))"
    using track_flow_inv [OF v] inv by (simp add: after_flow_def engine_inv_def)
  then show "table_inv (conntrack (after_port v pkt e))"
    by (simp add: after_port_def track_port_def RecordDestPort_inv)
  have "ratelimit (after_port v pkt e) = ratelimit e" by (subst stage_eqs(2)) simp
  then show "limiter_inv (ratelimit (after_rates v pkt n e))"
    using track_rates_inv [OF v _ n] inv unfolding after_rates_def engine_inv_def by simp
qed

lemma logs_ok_stages [simp]:
  "logs_ok (after_flow v pkt e) = logs_ok e" "logs_ok (after_port v pkt e) = logs_ok e"
  "logs_ok (after_rates v pkt n e) = logs_ok e"
  by (simp_all add: logs_ok_def)

lemma truncate_reason_length: "length (truncate_reason r) \<le> maxReasonLength"
  by (simp add: truncate_reason_def)

lemma recordBlock_ok: "logs_ok e \<Longrightarrow> logs_ok (recordBlock v pkt r tid e)"
  by (auto simp: logs_ok_def recordBlock_def Let_def truncate_reason_length gm_length_update maxRecentBlocks_def
      dest: list.set_sel(2) [rotated])

lemma logs_ok_logs:
  "logs_ok (add_processed e) = logs_ok e" "logs_ok (add_allowed e) = logs_ok e" "logs_ok (add_blocked e) = logs_ok e"
  "logs_ok (logAudit v ty tid pkt r e) = logs_ok e" "logs_ok (fireAlert v a m e) = logs_ok e"
  "logs_ok e \<Longrightarrow> logs_ok (block_packet v pkt r tid e)"
  using recordBlock_ok [of "add_blocked e" v pkt r tid]
  by (auto simp: logs_ok_def add_processed_def add_allowed_def add_blocked_def logAudit_def fireAlert_def block_packet_def
      split: option.split prod.split)

text \<open>An engine that differs from a stage only in counters and logs.\<close>

lemma engine_inv_stage:
  assumes "engine_inv e" "table_inv (conntrack s)" "limiter_inv (ratelimit s)" "same_parts e s" "logs_ok s"
  shows "engine_inv s"
  using assms by (simp add: engine_inv_def same_parts_def)

lemma engine_inv_logs:
  assumes "engine_inv e"
  shows "engine_inv (add_processed e)" "engine_inv (add_allowed e)" "engine_inv (add_blocked e)"
    "engine_inv (logAudit v ty tid pkt r e)" "engine_inv (fireAlert v a m e)" "engine_inv (block_packet v pkt r tid e)"
proof -
  have parts: "table_inv (conntrack e)" "limiter_inv (ratelimit e)" "logs_ok e" using assms by (simp_all add: engine_inv_def)
  show "engine_inv (add_processed e)" "engine_inv (add_allowed e)" "engine_inv (add_blocked e)"
    "engine_inv (logAudit v ty tid pkt r e)" "engine_inv (fireAlert v a m e)" "engine_inv (block_packet v pkt r tid e)"
    by (rule engine_inv_stage [OF assms]; simp add: parts same_parts_logs same_parts_alert logs_ok_logs)+
qed

lemma engine_inv_stages:
  assumes "env_ok v" "engine_inv e" "0 \<le> n"
  shows "engine_inv (after_flow v pkt e)" "engine_inv (after_port v pkt e)" "engine_inv (after_rates v pkt n e)"
proof -
  have rl: "ratelimit (after_flow v pkt e) = ratelimit e" "ratelimit (after_port v pkt e) = ratelimit e"
    by (subst stage_eqs, simp)+
  have parts: "limiter_inv (ratelimit e)" "logs_ok e" using assms(2) by (simp_all add: engine_inv_def)
  have ct: "conntrack (after_rates v pkt n e) = conntrack (after_port v pkt e)" by (subst stage_eqs(3)) simp
  show "engine_inv (after_flow v pkt e)" "engine_inv (after_port v pkt e)" "engine_inv (after_rates v pkt n e)"
    by (rule engine_inv_stage [OF assms(2)]; simp add: stages_inv [OF assms] same_parts_stages rl ct parts)+
qed

lemma evaluate_body_inv:
  assumes "env_ok v" "engine_inv e" "0 \<le> n" "evaluate_body v pkt n e = (o', e')"
  shows "engine_inv e'"
proof -
  note st = engine_inv_stages [OF assms(1-3)]
  show ?thesis
  proof (cases v pkt n e rule: evaluate_body_cases)
    case (policy tid)
    with assms(4) have "decide v pkt tid (policy_input v pkt n e) (after_rates v pkt n e) = (o', e')" by simp
    then show ?thesis
      by (cases rule: decide_cases [where v = v and pkt = pkt and tid = tid and i = "policy_input v pkt n e" and e = "after_rates v pkt n e"])
        (auto intro!: engine_inv_logs st)
  qed (use assms in \<open>auto intro!: engine_inv_logs st\<close>)
qed

lemma evaluatePacket_inv:
  assumes "env_ok v" "engine_inv e" "0 \<le> n"
  shows "engine_inv (snd (evaluatePacket v pkt n e))"
  using evaluate_body_inv [OF assms]
  by (auto simp: evaluatePacket_def intro!: engine_inv_logs split: prod.splits outcome.splits)

lemma packetHandler_inv:
  assumes "env_ok v" "engine_inv e"
  shows "engine_inv (snd (packetHandler gp v attr e))"
  using assms evaluatePacket_inv [OF assms]
  by (auto simp: packetHandler_def intro!: engine_inv_logs split: option.splits parse_result.splits prod.splits)
    (metis of_nat_0_le_iff snd_conv)+


section \<open>Reachable engines\<close>

inductive engine_reachable :: "Engine \<Rightarrow> bool" where
  start: "bl_ok ti \<Longrightarrow>
    engine_reachable (New evl (NewTable c) (NewLimiter pl bl) fc ao al ar gr ti pw sf l2)"
| packet: "engine_reachable e \<Longrightarrow> env_ok v \<Longrightarrow> handleQueuePacket gp v sends attr e = (sent, ret, e') \<Longrightarrow> engine_reachable e'"
| tick: "engine_reachable e \<Longrightarrow> env_ok v \<Longrightarrow> engine_reachable (maintain v t1 t2 e)"
| reload: "engine_reachable e \<Longrightarrow> engine_reachable (e\<lparr>eval := evl\<rparr>)"
| refresh: "engine_reachable e \<Longrightarrow> engine_reachable (e\<lparr>threatIntel := refresh_loop urls evs (threatIntel e)\<rparr>)"
| run: "engine_reachable e \<Longrightarrow> run_begin loaded opens registers e = (err, e') \<Longrightarrow> engine_reachable e'"
| stop: "engine_reachable e \<Longrightarrow> engine_reachable (Stop e)"
| ended: "engine_reachable e \<Longrightarrow> engine_reachable (run_end e)"

lemma engine_inv_update [simp]:
  "engine_inv (e\<lparr>eval := x\<rparr>) = engine_inv e" "engine_inv (e\<lparr>running := b\<rparr>) = engine_inv e"
  "engine_inv (e\<lparr>has_cancel := b\<rparr>) = engine_inv e" "engine_inv (e\<lparr>ctx_done := b\<rparr>) = engine_inv e"
  by (simp_all add: engine_inv_def logs_ok_def)

lemma restore_entries_ok:
  "gm_wf m \<Longrightarrow> length m \<le> maxBlockStatsReasons \<Longrightarrow>
    gm_wf (fold restore_entry kvs m) \<and> length (fold restore_entry kvs m) \<le> maxBlockStatsReasons"
  by (induction kvs arbitrary: m) (auto simp: restore_entry_def gm_length_update)

lemma restoreState_inv: "engine_inv e \<Longrightarrow> engine_inv (restoreState loaded e)"
  using restore_entries_ok [of "blockStats e"]
  by (auto simp: restoreState_def engine_inv_def logs_ok_def split: load_result.split)

lemma maintain_inv: "engine_inv e \<Longrightarrow> env_ok v \<Longrightarrow> engine_inv (maintain v t1 t2 e)"
  using table_inv_wf [of "conntrack e"]
  by (auto simp: maintain_def engine_inv_def logs_ok_def env_ok_def Let_def intro!: Expire_inv Cleanup_inv)

lemma refresh_ok: "bl_ok b \<Longrightarrow> bl_ok (refresh_loop urls evs b)"
  using refresh_loop_fold [of urls evs b] blocklist.feed_inv by auto

lemma engine_reachable_inv: "engine_reachable e \<Longrightarrow> engine_inv e"
proof (induction rule: engine_reachable.induct)
  case (start ti evl c pl bl fc ao al ar gr pw sf l2)
  then show ?case
    by (simp add: New_def engine_inv_def NewTable_inv NewLimiter_inv logs_ok_def)
next
  case (packet e v gp sends attr sent ret e')
  then show ?case using packetHandler_inv [of v e gp attr]
    by (auto simp: handleQueuePacket_def Let_def split: option.splits prod.splits)
next
  case (refresh e urls evs)
  then show ?case using refresh_ok by (simp add: engine_inv_def logs_ok_def)
next
  case (run e loaded opens registers err e')
  then show ?case using restoreState_inv [of e loaded] by (auto simp: run_begin_def Let_def split: if_splits)
qed (simp_all add: maintain_inv Stop_def run_end_def)

definition no_panic :: "env \<Rightarrow> Engine \<Rightarrow> bool" where
  "no_panic v e \<longleftrightarrow> rand_bytes v \<noteq> None \<and> pcap_write v \<noteq> PcapPanic \<and>
     (case eval e of None \<Rightarrow> True | Some f \<Rightarrow> \<forall>i msg. f i \<noteq> EvalPanic msg)"

lemma no_panic_body:
  assumes "no_panic v e" "evaluate_body v pkt n e = (o', e')"
  shows "\<exists>r. o' = Ret r"
proof (cases v pkt n e rule: evaluate_body_cases)
  case (no_trace msg)
  with assms(1) show ?thesis by (auto simp: no_panic_def newTraceID_def split: option.splits)
next
  case (policy tid)
  with assms(2) have "decide v pkt tid (policy_input v pkt n e) (after_rates v pkt n e) = (o', e')" by simp
  then show ?thesis using assms(1)
    by (cases rule: decide_cases [where v = v and pkt = pkt and tid = tid and i = "policy_input v pkt n e" and e = "after_rates v pkt n e"])
      (auto simp: no_panic_def)
qed (use assms in auto)

section \<open>Properties\<close>


text \<open>
  Every packet with an identifier gets exactly one verdict, and the receive loop goes on as
  long as verdicts can be delivered.\<close>

theorem every_packet_gets_a_verdict:
  assumes "PacketID attr = Some pid"
  shows "\<exists>vd. fst (handleQueuePacket gp v sends attr e) = Some (pid, vd) \<and>
    (fst (snd (handleQueuePacket gp v sends attr e)) = 0 \<longleftrightarrow> sends pid vd)"
  using assms by (auto simp: handleQueuePacket_def Let_def split: prod.split)

text \<open>
  C3. In every reachable engine, after any packets, maintenance ticks, policy reloads, threat-feed
  refreshes and restarts, the flow table, the rate limiter and the blocklist keep their
  invariants, the block log holds at most 100 entries with reasons of at most 1024 bytes, and
  at most 256 reasons are counted.\<close>

theorem engine_invariant:
  assumes "engine_reachable e"
  shows "table_inv (conntrack e) \<and> limiter_inv (ratelimit e) \<and> bl_ok (threatIntel e) \<and>
    length (recentBlocks e) \<le> 100 \<and> (\<forall>b \<in> set (recentBlocks e). length (bl_Reason b) \<le> 1024) \<and>
    gm_wf (blockStats e) \<and> length (blockStats e) \<le> 256"
  using engine_reachable_inv [OF assms]
  by (simp add: engine_inv_def logs_ok_def maxRecentBlocks_def maxReasonLength_def maxBlockStatsReasons_def)


text \<open>
  C25. When nothing panics, a packet is counted once as processed and once as allowed or blocked,
  and the counter agrees with the verdict that is sent.\<close>

theorem counters_match_verdicts:
  assumes "no_panic v e" and "PacketID attr = Some pid"
    and "handleQueuePacket gp v sends attr e = (Some (pid, vd), ret, e')"
  shows "packetsProcessed e' = packetsProcessed e + 1 \<and>
    packetsAllowed e' = packetsAllowed e + (if vd = NfAccept then 1 else 0) \<and>
    packetsBlocked e' = packetsBlocked e + (if vd = NfDrop then 1 else 0)"
proof -
  obtain r1 where h: "packetHandler gp v attr e = (r1, e')" "vd = (if r1 \<noteq> 0 then NfDrop else NfAccept)"
    using assms(2,3) by (auto simp: handleQueuePacket_def Let_def split: prod.splits)
  show ?thesis
  proof (cases "\<exists>raw pkt. Payload attr = Some raw \<and> ParsePacket gp raw = Parsed pkt")
    case True
    then obtain raw pkt where p: "Payload attr = Some raw" "ParsePacket gp raw = Parsed pkt" by blast
    obtain o' e1 where b: "evaluate_body v pkt (int (length raw)) e = (o', e1)" by fastforce
    obtain r where r: "o' = Ret r" using no_panic_body [OF assms(1) b] by blast
    have "pcap_write v \<noteq> PcapPanic" using assms(1) by (simp add: no_panic_def)
    with h p b r have "e' = e1" "r1 = (if Allowed r then 0 else 1)"
      by (auto simp: packetHandler_def evaluatePacket_def split: if_splits)
    with h(2) evaluate_body_counts [OF b] r show ?thesis by simp
  next
    case False
    with h ParsePacket_total [of gp] show ?thesis
      by (auto simp: packetHandler_def split: option.splits parse_result.splits)
  qed
qed

lemma same_parts_logs_iff:
  "same_parts e (add_processed s) = same_parts e s" "same_parts e (add_allowed s) = same_parts e s"
  "same_parts e (add_blocked s) = same_parts e s" "same_parts e (logAudit v ty tid pkt r s) = same_parts e s"
  "same_parts e (block_packet v pkt r tid s) = same_parts e s" "same_parts e (fireAlert v a m s) = same_parts e s"
  by (simp_all add: same_parts_def log_defs fireAlert_def Let_def split: option.split prod.split)

lemma evaluate_body_same:
  assumes "evaluate_body v pkt n e = (o', e')"
  shows "same_parts e e'"
proof (cases v pkt n e rule: evaluate_body_cases)
  case (policy tid)
  with assms have d: "decide v pkt tid (policy_input v pkt n e) (after_rates v pkt n e) = (o', e')" by simp
  show ?thesis
    by (cases rule: decide_cases [where v = v and pkt = pkt and tid = tid and i = "policy_input v pkt n e" and e = "after_rates v pkt n e"])
      (use d in \<open>auto simp: same_parts_logs_iff same_parts_stages\<close>)
qed (use assms in \<open>auto simp: same_parts_logs_iff same_parts_stages\<close>)

text \<open>
  A panic of the capture writer is counted wrongly: the packet is dropped, yet it is counted
  twice as processed, once as blocked and once as allowed.\<close>

theorem capture_panic_counts_a_drop_as_allowed:
  assumes "Payload attr = Some raw" and "ParsePacket gp raw = Parsed pkt"
    and "no_panic (v\<lparr>pcap_write := PcapOk\<rparr>) e" and "pcapWriter e" and "pcap_write v = PcapPanic"
    and "\<not> accepts v pkt (int (length raw)) e"
  shows "fst (packetHandler gp v attr e) = 1 \<and>
    packetsProcessed (snd (packetHandler gp v attr e)) = packetsProcessed e + 2 \<and>
    packetsBlocked (snd (packetHandler gp v attr e)) = packetsBlocked e + 1 \<and>
    packetsAllowed (snd (packetHandler gp v attr e)) = packetsAllowed e + 1"
proof -
  obtain o' e1 where b: "evaluate_body v pkt (int (length raw)) e = (o', e1)" by fastforce
  have "\<exists>r. o' = Ret r"
  proof (cases v pkt "int (length raw)" e rule: evaluate_body_cases)
    case (no_trace msg)
    with assms(3) show ?thesis by (auto simp: no_panic_def newTraceID_def split: option.splits)
  next
    case (policy tid)
    with b have "decide v pkt tid (policy_input v pkt (int (length raw)) e) (after_rates v pkt (int (length raw)) e) = (o', e1)" by simp
    then show ?thesis using assms(3)
      by (cases rule: decide_cases [where v = v and pkt = pkt and tid = tid and i = "policy_input v pkt (int (length raw)) e" and e = "after_rates v pkt (int (length raw)) e"])
        (auto simp: no_panic_def)
  qed (use b in auto)
  then obtain r where r: "o' = Ret r" by blast
  have na: "\<not> Allowed r" using assms(6) b r evaluatePacket_accepts [of v pkt "int (length raw)" e] by (simp add: evaluatePacket_def)
  have "pcapWriter e1" using evaluate_body_same [OF b] assms(4) by (simp add: same_parts_def)
  with na assms b r evaluate_body_counts [OF b] show ?thesis by (simp add: packetHandler_def evaluatePacket_def)
qed

text \<open>What a deny branch leaves in the logs, for a packet and its reason.\<close>

definition logged :: "Engine \<Rightarrow> PacketInfo \<Rightarrow> string \<Rightarrow> Engine \<Rightarrow> bool" where
  "logged e pkt reason e' \<longleftrightarrow>
     (\<exists>b. recentBlocks e' = (if length (recentBlocks e) \<ge> maxRecentBlocks then tl (recentBlocks e) else recentBlocks e) @ [b] \<and>
        bl_Reason b = truncate_reason reason \<and> bl_SrcIP b = SrcIP pkt \<and> bl_DstIP b = DstIP pkt \<and>
        bl_Protocol b = Protocol pkt \<and> bl_SrcPort b = SrcPort pkt \<and> bl_DstPort b = DstPort pkt) \<and>
     (auditLogger e \<longrightarrow>
       (\<exists>a. audited e' = audited e @ [a] \<and> au_Type a = ''packet_block'' \<and> au_Reason a = reason \<and>
          au_SrcIP a = SrcIP pkt \<and> au_DstIP a = DstIP pkt))"

lemma logged_block: "logged e pkt reason (block_packet v pkt reason tid e)"
  by (simp add: logged_def log_defs Let_def)

lemma logged_alert [simp]: "logged e pkt reason (fireAlert v a m s) = logged e pkt reason s"
  by (simp add: logged_def fireAlert_def split: option.split prod.split)

lemma logged_stage:
  "recentBlocks s = recentBlocks e \<Longrightarrow> audited s = audited e \<Longrightarrow> auditLogger s = auditLogger e \<Longrightarrow>
    logged e pkt reason (block_packet v pkt reason tid s)"
  using logged_block [of s pkt reason v tid] unfolding logged_def by metis

lemma evaluate_body_logged:
  assumes "evaluate_body v pkt n e = (Ret r, e')" "\<not> Allowed r"
  shows "logged e pkt (Reason r) e'"
proof (cases v pkt n e rule: evaluate_body_cases)
  case (policy tid)
  with assms have d: "decide v pkt tid (policy_input v pkt n e) (after_rates v pkt n e) = (Ret r, e')" by simp
  show ?thesis
    by (cases rule: decide_cases [where v = v and pkt = pkt and tid = tid and i = "policy_input v pkt n e" and e = "after_rates v pkt n e"])
      (use d assms(2) in \<open>auto intro: logged_stage\<close>)
qed (use assms in \<open>auto intro: logged_stage\<close>)

text \<open>
  No block is silent: when nothing panics, a packet that is refused appends an entry with its
  addresses, ports and (shortened) reason to the block log, dropping the oldest entry of a
  full log, and a \<open>packet_block\<close> event with the same reason to the audit log.\<close>

theorem blocked_packets_are_logged:
  assumes "no_panic v e" and "evaluatePacket v pkt n e = (r, e')" and "\<not> Allowed r"
  shows "logged e pkt (Reason r) e'"
proof -
  obtain o' e1 where b: "evaluate_body v pkt n e = (o', e1)" by fastforce
  with no_panic_body [OF assms(1) b] assms(2) have "evaluate_body v pkt n e = (Ret r, e')"
    by (auto simp: evaluatePacket_def)
  then show ?thesis using evaluate_body_logged assms(3) by blast
qed

text \<open>
  Once 256 different reasons have been counted, no counter moves any more: a further block
  leaves every per-reason counter as it is, also for a reason that has a counter.\<close>

theorem block_counters_freeze:
  assumes "length (blockStats e) = 256"
  shows "blockStats (recordBlock v pkt reason tid e) = blockStats e"
  using assms by (simp add: recordBlock_def maxBlockStatsReasons_def Let_def)

text \<open>
  C17. A source on the threat list is cut off: once an entry has been added to the engine's
  blocklist with room for it, no packet from an address the entry stands for is accepted,
  whatever the policy says and even in audit-only mode, in any spelling of the entry.\<close>

theorem listed_source_is_dropped:
  assumes "threatIntel e = Some bl" and "bl_inv bl" and "\<not> bl_full entry bl"
    and "ParsePacket gp raw = Parsed pkt" and "ParseIP (SrcIP pkt) = Some ip" and "entry_matches entry ip"
    and "PacketID attr = Some pid" and "Payload attr = Some raw"
  shows "fst (handleQueuePacket gp v sends attr (e\<lparr>threatIntel := Add entry (threatIntel e)\<rparr>)) = Some (pid, NfDrop)"
proof -
  let ?e = "e\<lparr>threatIntel := Add entry (threatIntel e)\<rparr>"
  have "BL_Contains (threatIntel ?e) (SrcIP pkt)"
    using Contains_Add1 [OF assms(2,5,3)] assms(1,6) by (simp add: Add_def)
  then have "\<not> Allowed (fst (evaluatePacket v pkt (int (length raw)) ?e))"
    by (simp add: evaluatePacket_accepts accepts_def)
  with assms(4,7,8) show ?thesis
    by (auto simp: handleQueuePacket_def packetHandler_def Let_def split: prod.split)
qed

lemma rst_closes:
  "fst (UpdateTCPState ct ord s d p sp dp syn ack True fin t) = Some f \<Longrightarrow> \<not> Established f \<and> f_TCPState f = TCPClosed"
  by (auto simp: UpdateTCPState_def Let_def tcp_switch_def server_side_def close_flow_def split: option.splits if_splits)

text \<open>
  C37. The policy never sees the connection a reset belongs to: for every TCP packet with RST set,
  whatever state its flow was in, the input document says that the connection is not
  established and its state is \<open>CLOSED\<close>.\<close>

theorem reset_hides_its_connection:
  assumes "Protocol pkt = ''TCP''" and "RST (Flags pkt)" and "packet_flow v pkt e \<noteq> None"
  shows "\<not> in_Established (in_Connection (policy_input v pkt n e)) \<and>
    in_TCPState (in_Connection (policy_input v pkt n e)) = ''CLOSED''"
proof -
  obtain f where f: "packet_flow v pkt e = Some f" using assms(3) by blast
  then have "\<not> Established f \<and> f_TCPState f = TCPClosed"
    using assms(1,2) rst_closes by (auto simp: packet_flow_def track_flow_def Let_def split: prod.splits) (metis fst_conv)+
  with f assms(1) show ?thesis by (simp add: policy_input_def packet_input_def BuildInput_def Let_def)
qed

section \<open>Witnesses\<close>

definition sample_env :: env where
  "sample_env = \<lparr>rand_bytes = Some [1, 2, 3, 4], ct_times = sample_times, flow_order = map fst, bucket_order = map fst,
     at_allow = 5000000003, at_port = 5000000004, at_connrate = 5000000005, at_input = 5000000006, at_block = 5000000007,
     at_audit = 5000000008, at_alert = 5000000009, at_send = 5000000010, pcap_write = PcapOk\<rparr>"

text \<open>A firewall without an evaluator that fails closed, with an audit log and packet capture.\<close>

definition sample_engine :: Engine where
  "sample_engine = New None (NewTable DefaultConfig) (NewLimiter 0 0) True False True None None (Some NewBlocklist) True [] None"

definition sample_attr :: attribute where
  "sample_attr = \<lparr>PacketID = Some 7, Payload = Some sample_head4\<rparr>"

lemma sample_env_ok: "env_ok sample_env"
  by (simp add: env_ok_def sample_env_def gm_enum_keys)

lemma sample_no_panic: "no_panic sample_env sample_engine"
  by (simp add: no_panic_def sample_env_def sample_engine_def New_def)

lemma sample_engine_reachable: "engine_reachable sample_engine"
  unfolding sample_engine_def by (rule engine_reachable.start) (simp add: bl_ok_def)

lemma sample_refused: "\<not> accepts v pkt n sample_engine"
  by (simp add: accepts_def sample_engine_def New_def)

lemma sample_packet: "\<exists>pkt. ParsePacket gp_wire sample_head4 = Parsed pkt \<and> SrcIP pkt = ''10.0.0.1''"
proof -
  obtain m4 where "ParsePacket gp_wire sample_head4 =
    Parsed (l4_write (blank_info m4 (take 4 (drop 12 sample_head4)) (take 4 (drop 16 sample_head4)) (length sample_head4)
      (ipv4_frag (ipv4_wire sample_head4)) []) (ipv4_l4 (ipv4_wire sample_head4) sample_head4))"
    by (rule ParsePacket_v4_wire [OF gp_wire_contract sample4(2,3)])
  moreover have "take 4 (drop 12 sample_head4) = [10, 0, 0, 1]" by (simp add: sample_head4_def)
  ultimately show ?thesis by (simp add: l4_write_def blank_info_def IP_String_v4 sample_strings)
qed

theorem every_packet_gets_a_verdict_witness:
  "\<exists>vd. fst (handleQueuePacket gp_wire sample_env (\<lambda>i d. True) sample_attr sample_engine) = Some (7, vd) \<and>
    fst (snd (handleQueuePacket gp_wire sample_env (\<lambda>i d. True) sample_attr sample_engine)) = 0"
  using every_packet_gets_a_verdict [of sample_attr 7 gp_wire sample_env "\<lambda>i d. True" sample_engine] by (auto simp: sample_attr_def)

lemma sample_handled: "\<exists>e'. handleQueuePacket gp_wire sample_env (\<lambda>i d. True) sample_attr sample_engine = (Some (7, NfDrop), 0, e')"
proof -
  obtain pkt where "ParsePacket gp_wire sample_head4 = Parsed pkt" using sample_packet by blast
  then show ?thesis
    using sample_refused [of sample_env pkt "int (length sample_head4)"] evaluatePacket_accepts [of sample_env pkt "int (length sample_head4)" sample_engine]
    by (auto simp: handleQueuePacket_def packetHandler_def sample_attr_def sample_env_def Let_def split: prod.split)
qed

theorem counters_match_verdicts_witness:
  "\<exists>e'. handleQueuePacket gp_wire sample_env (\<lambda>i d. True) sample_attr sample_engine = (Some (7, NfDrop), 0, e') \<and>
     packetsProcessed e' = 1 \<and> packetsBlocked e' = 1 \<and> packetsAllowed e' = 0"
proof -
  obtain e' where h: "handleQueuePacket gp_wire sample_env (\<lambda>i d. True) sample_attr sample_engine = (Some (7, NfDrop), 0, e')"
    using sample_handled by blast
  from counters_match_verdicts [OF sample_no_panic _ h] h show ?thesis
    by (auto simp: sample_attr_def sample_engine_def New_def)
qed

theorem engine_invariant_witness:
  "\<exists>e'. handleQueuePacket gp_wire sample_env (\<lambda>i d. True) sample_attr sample_engine = (Some (7, NfDrop), 0, e') \<and>
     table_inv (conntrack e') \<and> length (recentBlocks e') \<le> 100"
proof -
  obtain e' where h: "handleQueuePacket gp_wire sample_env (\<lambda>i d. True) sample_attr sample_engine = (Some (7, NfDrop), 0, e')"
    using sample_handled by blast
  from engine_invariant [OF engine_reachable.packet [OF sample_engine_reachable sample_env_ok h]] h show ?thesis by blast
qed

theorem capture_panic_counts_a_drop_as_allowed_witness:
  "\<exists>e'. packetHandler gp_wire (sample_env\<lparr>pcap_write := PcapPanic\<rparr>) sample_attr sample_engine = (1, e') \<and>
     packetsProcessed e' = 2 \<and> packetsBlocked e' = 1 \<and> packetsAllowed e' = 1"
proof -
  obtain pkt where p: "ParsePacket gp_wire sample_head4 = Parsed pkt" using sample_packet by blast
  let ?v = "sample_env\<lparr>pcap_write := PcapPanic\<rparr>"
  have "no_panic (?v\<lparr>pcap_write := PcapOk\<rparr>) sample_engine" "pcapWriter sample_engine"
    using sample_no_panic by (simp_all add: no_panic_def sample_engine_def New_def)
  from capture_panic_counts_a_drop_as_allowed [OF _ p this _ sample_refused, of sample_attr] show ?thesis
    by (cases "packetHandler gp_wire ?v sample_attr sample_engine") (simp add: sample_attr_def sample_engine_def New_def)
qed

theorem blocked_packets_are_logged_witness:
  "\<forall>pkt. \<exists>r e'. evaluatePacket sample_env pkt 60 sample_engine = (r, e') \<and> logged sample_engine pkt (Reason r) e'"
proof
  fix pkt
  obtain r e' where ev: "evaluatePacket sample_env pkt 60 sample_engine = (r, e')" by fastforce
  then have "\<not> Allowed r" using sample_refused [of sample_env pkt 60] evaluatePacket_accepts [of sample_env pkt 60 sample_engine] by simp
  from blocked_packets_are_logged [OF sample_no_panic ev this] ev
  show "\<exists>r e'. evaluatePacket sample_env pkt 60 sample_engine = (r, e') \<and> logged sample_engine pkt (Reason r) e'" by blast
qed

theorem block_counters_freeze_witness:
  "\<forall>pkt. blockStats (recordBlock sample_env pkt ''x'' ''t''
     (sample_engine\<lparr>blockStats := map (\<lambda>i. (dec i, 1)) [0..<256]\<rparr>)) = map (\<lambda>i. (dec i, 1)) [0..<256]"
  using block_counters_freeze [of "sample_engine\<lparr>blockStats := map (\<lambda>i. (dec i, 1)) [0..<256]\<rparr>"] by simp

theorem listed_source_is_dropped_witness:
  "fst (handleQueuePacket gp_wire sample_env (\<lambda>i d. True) sample_attr
     (sample_engine\<lparr>eval := Some (\<lambda>i. Evaluated \<lparr>Allowed = True, Reason = []\<rparr>), threatIntel := Add ''10.0.0.1'' (Some NewBlocklist)\<rparr>))
   = Some (7, NfDrop)"
proof -
  let ?e = "sample_engine\<lparr>eval := Some (\<lambda>i. Evaluated \<lparr>Allowed = True, Reason = []\<rparr>)\<rparr>"
  obtain pkt where p: "ParsePacket gp_wire sample_head4 = Parsed pkt" "SrcIP pkt = ''10.0.0.1''" using sample_packet by blast
  obtain ip where ip: "ParseIP ''10.0.0.1'' = Some ip" using sample_addresses(5) by blast
  have "threatIntel ?e = Some NewBlocklist" by (simp add: sample_engine_def New_def)
  moreover have "\<not> bl_full ''10.0.0.1'' NewBlocklist"
    by (simp add: bl_full_def NewBlocklist_def maxBlocklistEntries_def Contains_char_def)
  moreover have "entry_matches ''10.0.0.1'' ip" using ip by (simp add: entry_matches_def Contains_char_def)
  ultimately show ?thesis
    using listed_source_is_dropped [of ?e NewBlocklist "''10.0.0.1''" gp_wire sample_head4 pkt ip sample_attr 7] p ip
    by (simp add: sample_attr_def)
qed

definition sample_reset :: PacketInfo where
  "sample_reset = \<lparr>SrcMAC = [], DstMAC = [], SrcIP = ''10.0.0.1'', DstIP = ''10.0.0.2'', Protocol = ''TCP'', SrcPort = 40000,
     DstPort = 22, Flags = \<lparr>SYN = False, ACK = True, RST = True, FIN = False\<rparr>, ICMPType = None, ICMPCode = None,
     Fragment = \<lparr>IsFragment = False, MoreFragments = False, Offset = 0, L4Incomplete = False\<rparr>, PacketSize = 40, IPv6ExtHeaders = []\<rparr>"

theorem reset_hides_its_connection_witness:
  "\<not> in_Established (in_Connection (policy_input sample_env sample_reset 40 sample_engine))"
proof -
  have "packet_flow sample_env sample_reset sample_engine \<noteq> None"
    by (simp add: packet_flow_def track_flow_def sample_reset_def sample_env_def sample_engine_def New_def add_processed_def
        UpdateTCPState_def NewTable_def Let_def reachedFlowLimitLocked_def DefaultConfig_def effective_config_def split: prod.split)
  from reset_hides_its_connection [OF _ _ this] show ?thesis by (simp add: sample_reset_def)
qed

end
