(* ===== verification/Rotation.thy ===== *)
theory Rotation
  imports GoText Prelude "HOL-Library.List_Lexorder" "HOL-Library.Char_ord" "HOL-Library.Multiset"
begin

text \<open>
  What the two rotating writers (audit log, packet captures) share: zero-padded numbers and
  their order as strings, a directory as a map from entry names to contents, and the
  retention contract of their bounded cleanup scans.
\<close>

section \<open>Zero-padded decimals\<close>

text \<open>\<open>%0wd\<close> of a non-negative number.\<close>

definition pad0 :: "nat \<Rightarrow> nat \<Rightarrow> string" where
  "pad0 w n = replicate (w - length (dec n)) (CHR ''0'') @ dec n"

fun fdigits :: "nat \<Rightarrow> nat \<Rightarrow> nat list" where
  "fdigits 0 n = []"
| "fdigits (Suc w) n = fdigits w (n div 10) @ [n mod 10]"

lemma fdigits_length [simp]: "length (fdigits w n) = w"
  by (induction w arbitrary: n) simp_all

lemma fdigits_zero: "fdigits w 0 = replicate w 0"
  by (induction w) (simp_all add: replicate_append_same)

lemma fdigits_ndigits:
  "0 < w \<Longrightarrow> n < 10 ^ w \<Longrightarrow> fdigits w n = replicate (w - length (ndigits 10 n)) 0 @ ndigits 10 n"
proof (induction w arbitrary: n)
  case (Suc w)
  show ?case
  proof (cases "n < 10")
    case True
    then have "ndigits 10 n = [n]" by (subst ndigits.simps) simp
    with True show ?thesis by (simp add: fdigits_zero)
  next
    case False
    then have nd: "ndigits 10 n = ndigits 10 (n div 10) @ [n mod 10]" by (subst ndigits.simps) simp
    have "0 < w" using False Suc.prems by (cases w) auto
    moreover have "n div 10 < 10 ^ w" using Suc.prems by (simp add: div_less_iff_less_mult)
    ultimately have "fdigits w (n div 10) = replicate (w - length (ndigits 10 (n div 10))) 0 @ ndigits 10 (n div 10)"
      by (rule Suc.IH)
    then show ?thesis by (simp add: nd)
  qed
qed simp

lemma digit_zero: "digit_char 0 = CHR ''0''"
  by code_simp

lemma pad0_fdigits: "0 < w \<Longrightarrow> n < 10 ^ w \<Longrightarrow> pad0 w n = map digit_char (fdigits w n)"
  using digit_zero by (simp add: fdigits_ndigits pad0_def dec_def)

lemma pad0_length: "0 < w \<Longrightarrow> n < 10 ^ w \<Longrightarrow> length (pad0 w n) = w"
  by (simp add: pad0_fdigits)

lemma less_append_same: "length xs = length ys \<Longrightarrow> (xs @ us < ys @ vs) = (xs < ys \<or> xs = ys \<and> us < (vs :: string))"
  by (induction xs ys rule: list_induct2) auto

lemma digit_char_less: "a < b \<Longrightarrow> b < 10 \<Longrightarrow> digit_char a < digit_char b"
  by (simp add: digit_char_def less_char_def of_char_of)

lemma fdigits_mono: "m < n \<Longrightarrow> n < 10 ^ w \<Longrightarrow> map digit_char (fdigits w m) < map digit_char (fdigits w n)"
proof (induction w arbitrary: m n)
  case (Suc w)
  have "m div 10 \<le> n div 10" using Suc.prems(1) by (simp add: div_le_mono)
  moreover have "m mod 10 < n mod 10" if "m div 10 = n div 10"
    using that Suc.prems(1) div_mult_mod_eq [of m 10] div_mult_mod_eq [of n 10] by linarith
  ultimately have "m div 10 < n div 10 \<or> m div 10 = n div 10 \<and> m mod 10 < n mod 10" by linarith
  moreover have "n div 10 < 10 ^ w" using Suc.prems by (simp add: div_less_iff_less_mult)
  ultimately show ?case using Suc.IH [of "m div 10" "n div 10"] by (auto simp: less_append_same digit_char_less)
qed simp

lemma pad0_mono: "m < n \<Longrightarrow> n < 10 ^ w \<Longrightarrow> 0 < w \<Longrightarrow> pad0 w m < pad0 w n"
  by (simp add: pad0_fdigits fdigits_mono)

lemma less_prefix [simp]: "p @ xs < p @ (ys :: string) \<longleftrightarrow> xs < ys"
  by (simp add: less_append_same)

section \<open>Directories\<close>

type_synonym 'c dir = "(string, 'c) gomap"

definition maxCleanupEntries :: nat where
  "maxCleanupEntries = 4096"

text \<open>\<open>Readdirnames(n)\<close> on a directory whose entries come in the order \<open>ord\<close>.\<close>

definition Readdirnames :: "nat \<Rightarrow> string list \<Rightarrow> string list" where
  "Readdirnames n ord = take n ord"

definition remove_all :: "string list \<Rightarrow> 'c dir \<Rightarrow> 'c dir" where
  "remove_all ns d = fold AList.delete ns d"

lemma remove_all_wf [simp]: "gm_wf d \<Longrightarrow> gm_wf (remove_all ns d)"
  unfolding remove_all_def by (induction ns arbitrary: d) simp_all

lemma remove_all_lookup: "map_of (remove_all ns d) n = (if n \<in> set ns then None else map_of d n)"
  unfolding remove_all_def by (induction ns arbitrary: d) (auto simp: gm_lookup_delete)

lemma remove_all_keys: "gm_keys (remove_all ns d) = gm_keys d - set ns"
  unfolding remove_all_def by (induction ns arbitrary: d) (auto simp: gm_keys_delete)

section \<open>Retention\<close>

text \<open>
  The contract of a cleanup that keeps \<open>limit\<close> of the entries that match: other and
  protected entries are untouched, and when the scan sees the whole directory exactly
  \<open>limit\<close> matching entries remain (all, if there are fewer) and what is removed is older, as
  names sort, than every unprotected entry that is kept.
\<close>

locale retention =
  fixes matching :: "string \<Rightarrow> bool" and protected :: "string \<Rightarrow> bool" and limit :: nat
    and cleanup :: "string list \<Rightarrow> 'c dir \<Rightarrow> 'c dir"
  assumes frame: "\<not> matching n \<or> protected n \<Longrightarrow> map_of (cleanup ord d) n = map_of d n"
    and kept_or_gone: "map_of (cleanup ord d) n = None \<or> map_of (cleanup ord d) n = map_of d n"
    and count: "gm_wf d \<Longrightarrow> gm_enum ord d \<Longrightarrow> length d \<le> maxCleanupEntries \<Longrightarrow>
      card {n \<in> gm_keys (cleanup ord d). matching n} = min limit (card {n \<in> gm_keys d. matching n})"
    and oldest: "gm_wf d \<Longrightarrow> gm_enum ord d \<Longrightarrow> length d \<le> maxCleanupEntries \<Longrightarrow>
      n \<in> gm_keys d \<Longrightarrow> n \<notin> gm_keys (cleanup ord d) \<Longrightarrow>
      m \<in> gm_keys (cleanup ord d) \<Longrightarrow> matching m \<Longrightarrow> \<not> protected m \<Longrightarrow> n < m"
begin

lemma cleanup_keys: "gm_keys (cleanup ord d) \<subseteq> gm_keys d"
proof
  fix n assume "n \<in> gm_keys (cleanup ord d)"
  then have "map_of (cleanup ord d) n \<noteq> None" unfolding gm_lookup_None_iff by simp
  then have "map_of d n \<noteq> None" using kept_or_gone [of ord d n] by auto
  then show "n \<in> gm_keys d" by (rule contrapos_np) (rule iffD2 [OF gm_lookup_None_iff])
qed

text \<open>An unprotected entry survives exactly when fewer than \<open>limit\<close> entries are newer, where nothing is protected.\<close>

lemma survives_iff:
  assumes "gm_wf d" "gm_enum ord d" "length d \<le> maxCleanupEntries" "\<forall>m. \<not> protected m"
    and n: "n \<in> gm_keys d" "matching n"
  shows "n \<in> gm_keys (cleanup ord d) \<longleftrightarrow> card {m \<in> gm_keys d. matching m \<and> n < m} < limit"
proof -
  let ?K = "{m \<in> gm_keys (cleanup ord d). matching m}" and ?M = "{m \<in> gm_keys d. matching m}"
  let ?N = "{m \<in> gm_keys d. matching m \<and> n < m}"
  have fin: "finite ?M" "finite ?K" "finite ?N" by simp_all
  have sub: "?K \<subseteq> ?M" using cleanup_keys [of ord d] by auto
  note older = oldest [OF assms(1-3)] and number = count [OF assms(1-3)]
  show ?thesis
  proof
    assume kept: "n \<in> gm_keys (cleanup ord d)"
    have "m \<in> ?K - {n}" if "m \<in> ?N" for m
      using that older [of m n] kept n(2) assms(4) by (auto dest: order_less_asym)
    then have "?N \<subseteq> ?K - {n}" by blast
    then have "card ?N \<le> card (?K - {n})" using fin by (intro card_mono) auto
    also have "\<dots> < card ?K" using kept n(2) fin by (intro psubset_card_mono) auto
    also have "\<dots> \<le> limit" using number by simp
    finally show "card ?N < limit" .
  next
    assume few: "card ?N < limit"
    show "n \<in> gm_keys (cleanup ord d)"
    proof (rule ccontr)
      assume gone: "n \<notin> gm_keys (cleanup ord d)"
      then have "?K \<subset> ?M" using sub n by auto
      then have "card ?K < card ?M" using fin by (simp add: psubset_card_mono)
      then have "card ?K = limit" using number by simp
      moreover have "?K \<subseteq> ?N" using older [OF n(1) gone] assms(4) cleanup_keys [of ord d] by auto
      then have "card ?K \<le> card ?N" using fin by (intro card_mono)
      ultimately show False using few by simp
    qed
  qed
qed

end

text \<open>The names a scan removes: the first ones, sorted, that are not protected.\<close>

definition victims :: "(string \<Rightarrow> bool) \<Rightarrow> nat \<Rightarrow> string list \<Rightarrow> string list" where
  "victims protected limit ms = take (length ms - limit) (filter (\<lambda>n. \<not> protected n) (sort ms))"

lemma victims_subset: "set (victims protected limit ms) \<subseteq> {n \<in> set ms. \<not> protected n}"
  unfolding victims_def using set_take_subset by fastforce

lemma victims_card:
  assumes "distinct ms" "length (filter protected ms) \<le> limit"
  shows "card (set (victims protected limit ms)) = length ms - limit"
proof -
  let ?U = "filter (\<lambda>n. \<not> protected n) (sort ms)"
  have "mset (sort ms) = mset ms" by simp
  then have "length (filter (\<lambda>n. \<not> protected n) (sort ms)) = length (filter (\<lambda>n. \<not> protected n) ms)"
    by (metis mset_filter size_mset)
  moreover have "length (filter protected ms) + length (filter (\<lambda>n. \<not> protected n) ms) = length ms"
    by (rule sum_length_filter_compl)
  ultimately have "length ms - limit \<le> length ?U" using assms(2) by simp
  moreover have "distinct (victims protected limit ms)" using assms(1) by (simp add: victims_def)
  ultimately show ?thesis by (simp add: distinct_card) (simp add: victims_def)
qed

lemma victims_oldest:
  assumes "distinct ms" "n \<in> set (victims protected limit ms)" "m \<in> set ms" "m \<notin> set (victims protected limit ms)" "\<not> protected m"
  shows "n < m"
proof -
  let ?U = "filter (\<lambda>n. \<not> protected n) (sort ms)" and ?k = "length ms - limit"
  have "m \<in> set ?U" using assms by simp
  moreover have "?U = take ?k ?U @ drop ?k ?U" by simp
  ultimately have m: "m \<in> set (drop ?k ?U)" using assms(4) unfolding victims_def by (metis Un_iff set_append)
  have "sorted ?U" using sorted_filter [of id "sort ms"] by simp
  then have "n \<le> m" using assms(2) m sorted_append [of "take ?k ?U" "drop ?k ?U"] by (simp add: victims_def)
  moreover have "n \<noteq> m" using assms by auto
  ultimately show ?thesis by simp
qed

text \<open>Any scan that removes the victims of its matches keeps the contract.\<close>

lemma scan_retention:
  assumes few: "\<And>ns. distinct ns \<Longrightarrow> length (filter protected ns) \<le> limit"
    and scan: "\<And>ord (d :: 'c dir). cleanup ord d = remove_all (victims protected limit (filter matching (Readdirnames maxCleanupEntries ord))) d"
  shows "retention matching protected limit cleanup"
proof
  fix n ord and d :: "'c dir"
  let ?V = "\<lambda>ord. victims protected limit (filter matching (Readdirnames maxCleanupEntries ord))"
  have V: "n \<in> set (?V ord) \<Longrightarrow> matching n \<and> \<not> protected n" for n ord
    using victims_subset [of protected limit "filter matching (Readdirnames maxCleanupEntries ord)"] by auto
  show "map_of (cleanup ord d) n = map_of d n" if "\<not> matching n \<or> protected n"
    using V [of n ord] that by (auto simp: scan remove_all_lookup)
  show "map_of (cleanup ord d) n = None \<or> map_of (cleanup ord d) n = map_of d n"
    by (simp add: scan remove_all_lookup)
  assume wf: "gm_wf d" and enum: "gm_enum ord d" and len: "length d \<le> maxCleanupEntries"
  have "length ord = length d" using wf enum by (metis distinct_card gm_enum_def gm_length_keys)
  then have all: "Readdirnames maxCleanupEntries ord = ord" using len by (simp add: Readdirnames_def)
  let ?ms = "filter matching ord"
  have ms: "distinct ?ms" "set ?ms = {n \<in> gm_keys d. matching n}" using enum by (auto simp: gm_enum_def)
  have keys: "gm_keys (cleanup ord d) = gm_keys d - set (victims protected limit ?ms)"
    by (simp add: scan all remove_all_keys)
  have sub: "set (victims protected limit ?ms) \<subseteq> set ?ms" using victims_subset [of protected limit ?ms] by auto
  have "{n \<in> gm_keys (cleanup ord d). matching n} = set ?ms - set (victims protected limit ?ms)"
    using ms(2) keys by auto
  then have "card {n \<in> gm_keys (cleanup ord d). matching n} = length ?ms - (length ?ms - limit)"
    using sub victims_card [OF ms(1) few [OF ms(1)]] distinct_card [OF ms(1)] by (simp add: card_Diff_subset)
  moreover have "length ?ms = card {n \<in> gm_keys d. matching n}" using ms by (metis distinct_card)
  ultimately show "card {n \<in> gm_keys (cleanup ord d). matching n} = min limit (card {n \<in> gm_keys d. matching n})"
    by simp
  fix m
  assume "n \<in> gm_keys d" "n \<notin> gm_keys (cleanup ord d)" "m \<in> gm_keys (cleanup ord d)" "matching m" "\<not> protected m"
  then show "n < m" using victims_oldest [OF ms(1), of n protected limit m] ms(2) keys by auto
qed

end
