(* ===== verification/GoTime.thy ===== *)
theory GoTime
  imports Rotation
begin

text \<open>
  The UTC calendar of Go's \<open>time\<close> package from 1970 on, and the layout
  \<open>20060102T150405Z\<close> of the names of rotated audit logs: stamps of the years up to 9999 sort as
  strings in the order of the seconds they stand for.
\<close>

definition leap :: "nat \<Rightarrow> bool" where
  "leap y \<longleftrightarrow> 4 dvd y \<and> \<not> 100 dvd y \<or> 400 dvd y"

definition year_len :: "nat \<Rightarrow> nat" where
  "year_len y = (if leap y then 366 else 365)"

lemma year_len_pos [simp]: "0 < year_len y"
  by (simp add: year_len_def)

text \<open>The year and the day of the year that is \<open>d\<close> days after the first of January of \<open>y\<close>.\<close>

function year_of :: "nat \<Rightarrow> nat \<Rightarrow> nat \<times> nat" where
  "year_of y d = (if d < year_len y then (y, d) else year_of (Suc y) (d - year_len y))"
  by pat_completeness auto
termination
proof (relation "measure snd")
  fix y d :: nat
  assume "\<not> d < year_len y"
  then show "((Suc y, d - year_len y), y, d) \<in> measure snd" by (auto simp: year_len_def split: if_splits)
qed simp

declare year_of.simps [simp del]

definition month_lens :: "nat \<Rightarrow> nat list" where
  "month_lens y = [31, if leap y then 29 else 28, 31, 30, 31, 30, 31, 31, 30, 31, 30, 31]"

fun month_of :: "nat \<Rightarrow> nat list \<Rightarrow> nat \<Rightarrow> nat \<times> nat" where
  "month_of m [] d = (m, d)"
| "month_of m (l # ls) d = (if d < l then (m, d) else month_of (Suc m) ls (d - l))"

definition date_of :: "nat \<Rightarrow> nat \<times> nat \<times> nat" where
  "date_of days =
     (case year_of 1970 days of (y, yd) \<Rightarrow> (case month_of 1 (month_lens y) yd of (m, d) \<Rightarrow> (y, m, Suc d)))"

text \<open>\<open>t.UTC().Format("20060102T150405Z")\<close>.\<close>

definition date_stamp :: "nat \<Rightarrow> string" where
  "date_stamp days = (case date_of days of (y, m, d) \<Rightarrow> pad0 4 y @ pad0 2 m @ pad0 2 d)"

definition clock_stamp :: "nat \<Rightarrow> string" where
  "clock_stamp r = pad0 2 (r div 60 div 60) @ pad0 2 (r div 60 mod 60) @ pad0 2 (r mod 60)"

definition stamp :: "time \<Rightarrow> string" where
  "stamp t = (let s = time_unix t in date_stamp (s div 86400) @ ''T'' @ clock_stamp (s mod 86400) @ ''Z'')"

section \<open>Order\<close>

lemma divmod_lex:
  fixes a b k :: nat
  assumes "a < b"
  shows "a div k < b div k \<or> a div k = b div k \<and> a mod k < b mod k"
proof -
  have "a div k \<le> b div k" using assms by (simp add: div_le_mono)
  moreover have "a mod k < b mod k" if "a div k = b div k"
    using that assms div_mult_mod_eq [of a k] div_mult_mod_eq [of b k] by (metis add_less_cancel_left)
  ultimately show ?thesis by linarith
qed

lemma year_of_ge: "y \<le> fst (year_of y d)"
proof (induction y d rule: year_of.induct)
  case (1 y d)
  then show ?case by (subst year_of.simps) auto
qed

lemma year_of_less: "snd (year_of y d) < year_len (fst (year_of y d))"
proof (induction y d rule: year_of.induct)
  case (1 y d)
  then show ?case by (subst (1 2) year_of.simps) auto
qed

lemma year_of_mono:
  "a < b \<Longrightarrow> fst (year_of y a) < fst (year_of y b) \<or> fst (year_of y a) = fst (year_of y b) \<and> snd (year_of y a) < snd (year_of y b)"
proof (induction y a arbitrary: b rule: year_of.induct)
  case (1 y a)
  have ge: "Suc y \<le> fst (year_of (Suc y) (b - year_len y))" by (rule year_of_ge)
  show ?case
  proof (cases "a < year_len y")
    case True
    then show ?thesis using "1.prems" ge by (simp add: year_of.simps [of y])
  next
    case False
    then show ?thesis using "1.IH" [OF False, of "b - year_len y"] "1.prems" by (simp add: year_of.simps [of y])
  qed
qed

lemma month_of_ge: "m \<le> fst (month_of m ls d)"
  by (induction m ls d rule: month_of.induct) auto

lemma month_of_mono:
  "a < b \<Longrightarrow> b < sum_list ls \<Longrightarrow>
   fst (month_of m ls a) < fst (month_of m ls b) \<or> fst (month_of m ls a) = fst (month_of m ls b) \<and> snd (month_of m ls a) < snd (month_of m ls b)"
proof (induction ls arbitrary: m a b)
  case (Cons l ls)
  have "Suc m \<le> fst (month_of (Suc m) ls (b - l))" by (rule month_of_ge)
  then show ?case using Cons.prems Cons.IH [of "a - l" "b - l" "Suc m"] by auto
qed simp

lemma month_of_bound:
  "d < sum_list ls \<Longrightarrow> fst (month_of m ls d) < m + length ls \<and> (\<exists>l \<in> set ls. snd (month_of m ls d) < l)"
proof (induction ls arbitrary: m d)
  case (Cons l ls)
  then show ?case using Cons.IH [of "d - l" "Suc m"] by auto
qed simp

lemma sum_month_lens [simp]: "sum_list (month_lens y) = year_len y"
  by (simp add: month_lens_def year_len_def)

lemma month_lens_bounds: "l \<in> set (month_lens y) \<Longrightarrow> l \<le> 31" "length (month_lens y) = 12"
  by (auto simp: month_lens_def split: if_splits)

lemma month_bounds:
  "d < year_len y \<Longrightarrow> fst (month_of 1 (month_lens y) d) \<le> 12 \<and> snd (month_of 1 (month_lens y) d) < 31"
  using month_of_bound [of d "month_lens y" 1] month_lens_bounds by fastforce

lemma pad0_parts: "a < 10 ^ w \<Longrightarrow> b < 10 ^ w \<Longrightarrow> 0 < w \<Longrightarrow> length (pad0 w a) = length (pad0 w b)"
  by (simp add: pad0_length)

lemma pad0_lex:
  assumes "a < b \<or> a = b \<and> us < vs" "a < 10 ^ w" "b < 10 ^ w" "0 < w"
  shows "pad0 w a @ us < pad0 w b @ vs"
  unfolding less_append_same [OF pad0_parts [OF assms(2-4)]] using assms pad0_mono [of a b w] by blast

lemma date_stamp_mono:
  assumes "a < b" "fst (date_of b) \<le> 9999"
  shows "length (date_stamp a) = length (date_stamp b) \<and> date_stamp a < date_stamp b"
proof -
  obtain ya da yb db where y: "year_of 1970 a = (ya, da)" "year_of 1970 b = (yb, db)" by (metis prod.exhaust)
  have lt: "ya < yb \<or> ya = yb \<and> da < db" and len: "da < year_len ya" "db < year_len yb"
    using year_of_mono [OF assms(1), of 1970] year_of_less [of 1970 a] year_of_less [of 1970 b] y by simp_all
  obtain ma d1 mb d2 where m: "month_of 1 (month_lens ya) da = (ma, d1)" "month_of 1 (month_lens yb) db = (mb, d2)"
    by (metis prod.exhaust)
  have lt': "ya < yb \<or> ya = yb \<and> (ma < mb \<or> ma = mb \<and> d1 < d2)"
    using lt month_of_mono [of da db "month_lens yb" 1] len m by auto
  have bd: "ma \<le> 12" "d1 < 31" "mb \<le> 12" "d2 < 31" using month_bounds [OF len(1)] month_bounds [OF len(2)] m by simp_all
  have yr: "yb \<le> 9999" "ya \<le> 9999" using assms(2) lt y m by (auto simp: date_of_def)
  have "pad0 2 ma @ pad0 2 (Suc d1) < pad0 2 mb @ pad0 2 (Suc d2)" if "ma < mb \<or> ma = mb \<and> d1 < d2"
    using that bd pad0_mono [of "Suc d1" "Suc d2" 2] by (intro pad0_lex) auto
  with lt' yr have "pad0 4 ya @ pad0 2 ma @ pad0 2 (Suc d1) < pad0 4 yb @ pad0 2 mb @ pad0 2 (Suc d2)"
    by (intro pad0_lex) auto
  then show ?thesis using y m bd yr by (simp add: date_stamp_def date_of_def pad0_length)
qed

lemma clock_stamp_mono:
  assumes "a < b" "b < 86400"
  shows "clock_stamp a < clock_stamp b"
proof -
  have lt: "a div 60 < b div 60 \<or> a div 60 = b div 60 \<and> a mod 60 < b mod 60" using assms(1) by (rule divmod_lex)
  have le: "k < 24 \<or> k < 60 \<Longrightarrow> k < 10 ^ 2" for k :: nat by auto
  have sec: "pad0 2 (a mod 60) < pad0 2 (b mod 60)" if "a mod 60 < b mod 60"
    using that by (rule pad0_mono) (simp_all add: le)
  have min: "pad0 2 (a div 60 mod 60) @ pad0 2 (a mod 60) < pad0 2 (b div 60 mod 60) @ pad0 2 (b mod 60)"
    if "a div 60 mod 60 < b div 60 mod 60 \<or> a div 60 mod 60 = b div 60 mod 60 \<and> a mod 60 < b mod 60"
    by (rule pad0_lex) (use that sec in \<open>blast | simp add: le\<close>)+
  have h: "a div 60 div 60 < 24" "b div 60 div 60 < 24" using assms by (simp_all add: less_mult_imp_div_less)
  have hr: "a div 60 div 60 < b div 60 div 60 \<or> a div 60 div 60 = b div 60 div 60 \<and>
      (a div 60 mod 60 < b div 60 mod 60 \<or> a div 60 mod 60 = b div 60 mod 60 \<and> a mod 60 < b mod 60)"
    using lt divmod_lex [of "a div 60" "b div 60" 60] by metis
  show ?thesis
    unfolding clock_stamp_def
  proof (rule pad0_lex)
    show "a div 60 div 60 < b div 60 div 60 \<or> a div 60 div 60 = b div 60 div 60 \<and>
        pad0 2 (a div 60 mod 60) @ pad0 2 (a mod 60) < pad0 2 (b div 60 mod 60) @ pad0 2 (b mod 60)"
      using hr min by blast
  qed (use h in simp_all)
qed

lemma clock_stamp_length: "r < 86400 \<Longrightarrow> length (clock_stamp r) = 6"
  using less_mult_imp_div_less [of "r div 60" 24 60]
  by (simp add: clock_stamp_def pad0_length less_mult_imp_div_less less_trans [of _ 60 "10 ^ 2"] less_trans [of _ 24 "10 ^ 2"])

lemma stamp_mono:
  assumes "time_unix a < time_unix b" "fst (date_of (time_unix b div 86400)) \<le> 9999"
  shows "stamp a < stamp b"
proof -
  let ?a = "time_unix a" and ?b = "time_unix b"
  have "?a div 86400 < ?b div 86400 \<or> ?a div 86400 = ?b div 86400 \<and> ?a mod 86400 < ?b mod 86400"
    using assms(1) by (rule divmod_lex)
  then show ?thesis
    using date_stamp_mono [of "?a div 86400" "?b div 86400"] clock_stamp_mono [of "?a mod 86400" "?b mod 86400"] assms(2)
      clock_stamp_length [of "?a mod 86400"] clock_stamp_length [of "?b mod 86400"]
    by (auto simp: stamp_def Let_def less_append_same)
qed

end
