(* ===== verification/AuditLog.thy ===== *)
theory AuditLog
  imports Engine GoTime Files
begin

text \<open>
  internal/audit/audit.go: the rotating audit log. The directory of the log is a map from entry
  names to the events the file holds (all paths the logger touches are entries of that one
  directory, so their order is that of the names). The outcomes of the system calls are
  inputs; an event that cannot be encoded or written appends nothing.
\<close>

definition DefaultMaxSizeMB :: int where "DefaultMaxSizeMB = 100"

definition DefaultMaxBackups :: int where "DefaultMaxBackups = 5"

record Config =
  Path :: string
  MaxSizeMB :: int
  MaxBackups :: int

record Logger =
  lg_open :: bool
  lg_cfg :: Config
  lg_size :: int
  lg_closed :: bool

type_synonym audit_dir = "AuditEvent list dir"

text \<open>
  \<open>ao_open\<close>: \<open>None\<close> when the open fails, otherwise what fstat on the descriptor gives.
  \<open>ao_stat\<close>: the second fstat of \<open>NewLogger\<close>. \<open>ao_dir\<close>: the order of the
  directory's entries, when it can be opened. \<open>ao_removes\<close>: which removals succeed.
  \<open>ao_formatted\<close>: the length of \<open>Sprintf("%+v\n", e)\<close>.
\<close>

record audit_os =
  ao_lstat :: "string \<Rightarrow> lstat_result"
  ao_mkdir_ok :: bool
  ao_open :: "fstat option option"
  ao_stat :: "fstat option"
  ao_close_ok :: bool
  ao_now :: time
  ao_rename_ok :: bool
  ao_dir :: "string list option"
  ao_removes :: "string \<Rightarrow> bool"
  ao_encodes :: "AuditEvent \<Rightarrow> bool"
  ao_formatted :: "AuditEvent \<Rightarrow> nat"

section \<open>Opening\<close>

datatype audit_err =
    OpenErr
  | StatErr
  | NotRegularErr
  | TraversalErr
  | MkdirErr
  | PathErr path_err
  | CloseErr
  | RenameErr
  | ClosedErr
  | RotateErr audit_err
  | EncodeErr

definition openAuditFile :: "audit_os \<Rightarrow> string \<Rightarrow> audit_dir \<Rightarrow> audit_err option \<times> audit_dir" where
  "openAuditFile os name d =
     (case ao_open os of
        None \<Rightarrow> (Some OpenErr, d)
      | Some st \<Rightarrow>
          (let d' = if name \<in> gm_keys d then d else AList.update name [] d
           in case st of
                None \<Rightarrow> (Some StatErr, d')
              | Some fi \<Rightarrow> if \<not> st_regular fi then (Some NotRegularErr, d') else (None, d')))"

definition NewLogger :: "audit_os \<Rightarrow> Config \<Rightarrow> audit_dir \<Rightarrow> (audit_err + Logger) \<times> audit_dir" where
  "NewLogger os c0 d =
     (let c1 = (if Path c0 = [] then c0\<lparr>Path := ''/tmp/l3-firewall/audit.log''\<rparr> else c0)
      in if Contains_str (Path c1) ''..'' then (Inl TraversalErr, d)
         else
      (let c2 = (if MaxSizeMB c1 \<le> 0 then c1\<lparr>MaxSizeMB := DefaultMaxSizeMB\<rparr> else c1);
           c = (if MaxBackups c2 \<le> 0 then c2\<lparr>MaxBackups := DefaultMaxBackups\<rparr> else c2)
       in if \<not> ao_mkdir_ok os then (Inl MkdirErr, d)
          else (case RejectSymlinkComponents (ao_lstat os) (Dir (Path c)) of
            Some err \<Rightarrow> (Inl (PathErr err), d)
          | None \<Rightarrow>
              (case openAuditFile os (Base (Path c)) d of
                 (Some err, d') \<Rightarrow> (Inl err, d')
               | (None, d') \<Rightarrow>
                   (case ao_stat os of
                      None \<Rightarrow> (Inl StatErr, d')
                    | Some fi \<Rightarrow>
                        (Inr \<lparr>lg_open = True, lg_cfg = c, lg_size = int (st_size fi), lg_closed = False\<rparr>, d'))))))"

section \<open>Rotation\<close>

text \<open>The scan of \<open>cleanupLocked\<close> over the entries in directory order.\<close>

definition cleanup_scan :: "(string \<Rightarrow> bool) \<Rightarrow> string \<Rightarrow> int \<Rightarrow> string list \<Rightarrow> 'c dir \<Rightarrow> 'c dir" where
  "cleanup_scan removes base maxb ord d =
     (let names = Readdirnames maxCleanupEntries ord;
          matches = filter (\<lambda>name. HasPrefix name (base @ ''.'')) names
      in if int (length matches) \<le> maxb then d
         else (let toRemove = int (length matches) - maxb
               in remove_all (filter removes (take (nat toRemove) (sort matches))) d))"

definition cleanupLocked :: "audit_os \<Rightarrow> Logger \<Rightarrow> audit_dir \<Rightarrow> audit_dir" where
  "cleanupLocked os l d =
     (case ao_dir os of
        None \<Rightarrow> d
      | Some ord \<Rightarrow> cleanup_scan (ao_removes os) (Base (Path (lg_cfg l))) (MaxBackups (lg_cfg l)) ord d)"

definition rename :: "string \<Rightarrow> string \<Rightarrow> 'c dir \<Rightarrow> 'c dir" where
  "rename a b d = (case map_of d a of None \<Rightarrow> d | Some c \<Rightarrow> AList.update b c (AList.delete a d))"

definition rotatedName :: "Logger \<Rightarrow> time \<Rightarrow> string" where
  "rotatedName l now = Base (Path (lg_cfg l)) @ ''.'' @ stamp now"

text \<open>Closing a file that is already closed is an error, and a failed close leaves the file closed.\<close>

definition rotateLocked :: "audit_os \<Rightarrow> Logger \<Rightarrow> audit_dir \<Rightarrow> audit_err option \<times> Logger \<times> audit_dir" where
  "rotateLocked os l d =
     (case RejectSymlinkComponents (ao_lstat os) (Dir (Path (lg_cfg l))) of
        Some err \<Rightarrow> (Some (PathErr err), l, d)
      | None \<Rightarrow>
          (let base = Base (Path (lg_cfg l)); l1 = l\<lparr>lg_open := False\<rparr>
           in if \<not> lg_open l \<or> \<not> ao_close_ok os then (Some CloseErr, l1, d)
              else if \<not> ao_rename_ok os \<or> base \<notin> gm_keys d then (Some RenameErr, l1, d)
              else (case openAuditFile os base (rename base (rotatedName l (ao_now os)) d) of
                      (Some err, d2) \<Rightarrow> (Some err, l1, d2)
                    | (None, d2) \<Rightarrow>
                        (let l2 = l1\<lparr>lg_open := True, lg_size := 0\<rparr> in (None, l2, cleanupLocked os l2 d2)))))"

section \<open>Logging\<close>

definition rotate_at :: "Config \<Rightarrow> int" where
  "rotate_at c = sint ((word_of_int (MaxSizeMB c) :: 64 word) * 1024 * 1024)"

definition Log :: "audit_os \<Rightarrow> AuditEvent \<Rightarrow> Logger \<Rightarrow> audit_dir \<Rightarrow> audit_err option \<times> Logger \<times> audit_dir" where
  "Log os e l d =
     (if lg_closed l then (Some ClosedErr, l, d)
      else
     (case (if lg_size l \<ge> rotate_at (lg_cfg l) then rotateLocked os l d else (None, l, d)) of
        (Some err, l1, d1) \<Rightarrow> (Some (RotateErr err), l1, d1)
      | (None, l1, d1) \<Rightarrow>
          if \<not> lg_open l1 \<or> \<not> ao_encodes os e then (Some EncodeErr, l1, d1)
          else (let base = Base (Path (lg_cfg l1))
                in (None, l1\<lparr>lg_size := lg_size l1 + int (ao_formatted os e)\<rparr>,
                    case map_of d1 base of None \<Rightarrow> d1 | Some es \<Rightarrow> AList.update base (es @ [e]) d1))))"

definition Close :: "audit_os \<Rightarrow> Logger \<Rightarrow> audit_err option \<times> Logger" where
  "Close os l =
     (if lg_closed l then (None, l)
      else (if lg_open l \<and> ao_close_ok os then None else Some CloseErr, l\<lparr>lg_closed := True, lg_open := False\<rparr>))"

text \<open>A sequence of calls of \<open>Log\<close>, with the errors they return.\<close>

fun log_all :: "(audit_os \<times> AuditEvent) list \<Rightarrow> Logger \<Rightarrow> audit_dir \<Rightarrow> audit_err option list \<times> Logger \<times> audit_dir" where
  "log_all [] l d = ([], l, d)"
| "log_all ((os, e) # calls) l d =
     (case Log os e l d of
        (r, l1, d1) \<Rightarrow> (case log_all calls l1 d1 of (rs, l2, d2) \<Rightarrow> (r # rs, l2, d2)))"

section \<open>Lemmas\<close>

lemma cleanup_scan_victims:
  assumes "0 \<le> maxb"
  shows "cleanup_scan (\<lambda>_. True) base maxb ord d =
    remove_all (victims (\<lambda>_. False) (nat maxb) (filter (\<lambda>name. HasPrefix name (base @ ''.'')) (Readdirnames maxCleanupEntries ord))) d"
proof -
  let ?ms = "filter (\<lambda>name. HasPrefix name (base @ ''.'')) (Readdirnames maxCleanupEntries ord)"
  have n: "nat (int (length ?ms) - maxb) = length ?ms - nat maxb" using assms by simp
  show ?thesis
  proof (cases "int (length ?ms) \<le> maxb")
    case True
    then have "length ?ms - nat maxb = 0" using assms by simp
    with True show ?thesis by (simp add: cleanup_scan_def victims_def remove_all_def Let_def)
  next
    case False
    with n show ?thesis by (simp add: cleanup_scan_def victims_def Let_def)
  qed
qed

interpretation backups: retention "\<lambda>name. HasPrefix name (base @ ''.'')" "\<lambda>_. False" "nat (max 0 maxb)"
    "cleanup_scan (\<lambda>_. True) base (max 0 maxb) :: string list \<Rightarrow> 'c dir \<Rightarrow> 'c dir" for base maxb
  by (rule scan_retention) (simp_all add: cleanup_scan_victims)

lemma rename_lookup:
  "base \<in> gm_keys d \<Longrightarrow> a \<noteq> base \<Longrightarrow>
   map_of (rename base a d) n = (if n = a then map_of d base else if n = base then None else map_of d n)"
  using gm_lookup_None_iff [of d base] by (auto simp: rename_def gm_lookup_update gm_lookup_delete split: option.splits)

lemma rename_wf: "gm_wf d \<Longrightarrow> gm_wf (rename a b d)"
  by (simp add: rename_def split: option.split)

abbreviation log_name :: "Logger \<Rightarrow> string" where
  "log_name l \<equiv> Base (Path (lg_cfg l))"

abbreviation backup :: "Logger \<Rightarrow> string \<Rightarrow> bool" where
  "backup l name \<equiv> HasPrefix name (log_name l @ ''.'')"

definition rotation_succeeds :: "audit_os \<Rightarrow> Logger \<Rightarrow> audit_dir \<Rightarrow> bool" where
  "rotation_succeeds os l d \<longleftrightarrow>
     RejectSymlinkComponents (ao_lstat os) (Dir (Path (lg_cfg l))) = None \<and> lg_open l \<and> ao_close_ok os \<and>
     ao_rename_ok os \<and> log_name l \<in> gm_keys d \<and> (\<exists>fi. ao_open os = Some (Some fi) \<and> st_regular fi)"

definition rotated_dir :: "Logger \<Rightarrow> time \<Rightarrow> audit_dir \<Rightarrow> audit_dir" where
  "rotated_dir l now d = AList.update (log_name l) [] (rename (log_name l) (rotatedName l now) d)"

lemma rotatedName_backup [simp]: "backup l (rotatedName l now)"
  by (simp add: rotatedName_def HasPrefix_iff)

lemma log_name_no_backup [simp]: "\<not> backup l (log_name l)"
  by (auto simp: HasPrefix_iff)

lemma rotatedName_neq [simp]: "rotatedName l now \<noteq> log_name l" "log_name l \<noteq> rotatedName l now"
  by (simp_all add: rotatedName_def)

lemma rotated_lookup:
  assumes "log_name l \<in> gm_keys d"
  shows "map_of (rotated_dir l now d) n =
    (if n = log_name l then Some [] else if n = rotatedName l now then map_of d (log_name l) else map_of d n)"
  by (simp add: rotated_dir_def gm_lookup_update rename_lookup [OF assms])

lemma rotated_keys:
  assumes "log_name l \<in> gm_keys d"
  shows "gm_keys (rotated_dir l now d) = insert (rotatedName l now) (gm_keys d)"
proof -
  have "n \<in> gm_keys (rotated_dir l now d) \<longleftrightarrow> n = rotatedName l now \<or> n \<in> gm_keys d" for n
    using gm_lookup_None_iff [of "rotated_dir l now d" n] gm_lookup_None_iff [of d n] gm_lookup_None_iff [of d "log_name l"] assms
    by (auto simp: rotated_lookup [OF assms] split: if_splits)
  then show ?thesis by auto
qed

lemma rotate_ok:
  assumes "rotation_succeeds os l d"
  shows "rotateLocked os l d = (None, l\<lparr>lg_size := 0\<rparr>, cleanupLocked os l (rotated_dir l (ao_now os) d))"
proof -
  have l: "l\<lparr>lg_open := False, lg_size := 0, lg_open := True\<rparr> = l\<lparr>lg_size := 0\<rparr>"
    using assms by (cases l) (simp add: rotation_succeeds_def)
  have b: "log_name l \<in> gm_keys d" using assms by (simp add: rotation_succeeds_def)
  have "log_name l \<notin> gm_keys (rename (log_name l) (rotatedName l (ao_now os)) d)"
    unfolding gm_lookup_None_iff [symmetric] by (simp add: rename_lookup [OF b])
  with assms show ?thesis
    by (cases l) (auto simp: rotateLocked_def rotation_succeeds_def openAuditFile_def rotated_dir_def cleanupLocked_def rotatedName_def Let_def
        split: option.split)
qed

text \<open>Every existing backup carries the stamp of an earlier second.\<close>

definition older_backups :: "Logger \<Rightarrow> time \<Rightarrow> audit_dir \<Rightarrow> bool" where
  "older_backups l now d \<longleftrightarrow>
     (\<forall>n \<in> gm_keys d. backup l n \<longrightarrow> (\<exists>t. n = rotatedName l t \<and> time_unix t < time_unix now))"

lemma older_less:
  assumes "older_backups l now d" "fst (date_of (time_unix now div 86400)) \<le> 9999" "n \<in> gm_keys d" "backup l n"
  shows "n < rotatedName l now"
proof -
  obtain t where "n = rotatedName l t" "time_unix t < time_unix now"
    using assms(1,3,4) by (auto simp: older_backups_def)
  with stamp_mono [OF this(2) assms(2)] show ?thesis by (simp add: rotatedName_def)
qed

lemma rotated_enum:
  assumes "gm_wf d" "log_name l \<in> gm_keys d" "length d < maxCleanupEntries"
    and "distinct ord" "set ord = insert (rotatedName l now) (gm_keys d)"
  shows "gm_wf (rotated_dir l now d)" "gm_enum ord (rotated_dir l now d)" "length (rotated_dir l now d) \<le> maxCleanupEntries"
proof -
  show wf: "gm_wf (rotated_dir l now d)" using assms(1) by (simp add: rotated_dir_def rename_wf)
  show "gm_enum ord (rotated_dir l now d)" using assms(4,5) by (simp add: gm_enum_def rotated_keys [OF assms(2)])
  show "length (rotated_dir l now d) \<le> maxCleanupEntries"
    using assms(3) card_insert_le_m1 [of "Suc (length d)" "gm_keys d" "rotatedName l now"] gm_length_keys [OF assms(1)]
    by (simp add: gm_length_keys [OF wf] rotated_keys [OF assms(2)])
qed

text \<open>The scan of a rotation sees the whole directory, and what it decides to remove is removed.\<close>

definition whole_scan :: "audit_os \<Rightarrow> Logger \<Rightarrow> audit_dir \<Rightarrow> bool" where
  "whole_scan os l d \<longleftrightarrow> length d < maxCleanupEntries \<and> ao_removes os = (\<lambda>_. True) \<and>
     (\<exists>ord. ao_dir os = Some ord \<and> distinct ord \<and> set ord = insert (rotatedName l (ao_now os)) (gm_keys d))"

lemma backup_cleanup_lookup:
  "\<not> backup l n \<Longrightarrow> map_of (cleanupLocked os l d) n = map_of d n"
  "map_of (cleanupLocked os l d) n = None \<or> map_of (cleanupLocked os l d) n = map_of d n"
  by (auto simp: cleanupLocked_def cleanup_scan_def Readdirnames_def Let_def remove_all_lookup set_sort dest!: in_set_takeD split: option.split)

lemma whole_scan_result:
  assumes "whole_scan os l d" "log_name l \<in> gm_keys d" "gm_wf d" "0 < MaxBackups (lg_cfg l)"
  defines "new \<equiv> rotatedName l (ao_now os)" and "d' \<equiv> cleanupLocked os l (rotated_dir l (ao_now os) d)"
  shows "card {n \<in> gm_keys d'. backup l n} = min (nat (MaxBackups (lg_cfg l))) (card (insert new {n \<in> gm_keys d. backup l n}))"
    and "n \<in> insert new (gm_keys d) \<Longrightarrow> n \<notin> gm_keys d' \<Longrightarrow> m \<in> gm_keys d' \<Longrightarrow> backup l m \<Longrightarrow> n < m"
    and "new \<in> gm_keys d' \<longleftrightarrow> card {n \<in> gm_keys d. backup l n \<and> new < n} < nat (MaxBackups (lg_cfg l))"
    and "older_backups l (ao_now os) d \<Longrightarrow> fst (date_of (time_unix (ao_now os) div 86400)) \<le> 9999 \<Longrightarrow> new \<in> gm_keys d'"
proof -
  let ?maxb = "MaxBackups (lg_cfg l)" and ?d2 = "rotated_dir l (ao_now os) d"
  obtain ord where o: "ao_dir os = Some ord" "distinct ord" "set ord = insert new (gm_keys d)"
    and len: "length d < maxCleanupEntries" and rm: "ao_removes os = (\<lambda>_. True)"
    using assms(1) by (auto simp: whole_scan_def new_def)
  note en = rotated_enum [OF assms(3,2) len o(2) o(3) [unfolded new_def]]
  have mx: "max 0 ?maxb = ?maxb" using assms(4) by simp
  have d': "d' = cleanup_scan (\<lambda>_. True) (log_name l) ?maxb ord ?d2" by (simp add: d'_def cleanupLocked_def o(1) rm)
  have keys: "gm_keys ?d2 = insert new (gm_keys d)" by (simp add: rotated_keys [OF assms(2)] new_def)
  have new: "backup l new" by (simp add: new_def)
  then have "{n \<in> gm_keys ?d2. backup l n} = insert new {n \<in> gm_keys d. backup l n}" unfolding keys by blast
  then show "card {n \<in> gm_keys d'. backup l n} = min (nat ?maxb) (card (insert new {n \<in> gm_keys d. backup l n}))"
    using backups.count [OF en, of "log_name l" ?maxb, unfolded mx, folded d'] by simp
  show "n \<in> insert new (gm_keys d) \<Longrightarrow> n \<notin> gm_keys d' \<Longrightarrow> m \<in> gm_keys d' \<Longrightarrow> backup l m \<Longrightarrow> n < m"
    using backups.oldest [OF en, of n "log_name l" ?maxb m, unfolded mx, folded d'] unfolding keys by simp
  have "{n \<in> gm_keys ?d2. backup l n \<and> new < n} = {n \<in> gm_keys d. backup l n \<and> new < n}" unfolding keys by blast
  then show iff: "new \<in> gm_keys d' \<longleftrightarrow> card {n \<in> gm_keys d. backup l n \<and> new < n} < nat ?maxb"
    using backups.survives_iff [OF en, of new "log_name l" ?maxb, unfolded mx, folded d'] new unfolding keys by simp
  assume "older_backups l (ao_now os) d" "fst (date_of (time_unix (ao_now os) div 86400)) \<le> 9999"
  then have "{n \<in> gm_keys d. backup l n \<and> new < n} = {}" using older_less new_def by (blast dest: order_less_asym)
  then have "card {n \<in> gm_keys d. backup l n \<and> new < n} = 0" by (simp only: card.empty)
  with iff assms(4) show "new \<in> gm_keys d'" by linarith
qed

section \<open>Properties\<close>

text \<open>
  C21. What a rotation keeps. When the log has reached its size and the check of the path, the close,
  the rename and the open succeed, \<open>Log\<close> leaves the new event alone in a fresh log file; every entry
  that is no backup keeps its content; and a backup is either removed or keeps its content, except
  that the one with the name of the present second now holds the former log (and loses what it held
  before, if it existed). When moreover the clean-up sees the whole directory (fewer than 4096
  entries) and its removals succeed, then of the backups, the new one included, exactly the
  configured number remains (all, if there are fewer), everything removed sorts before every backup
  that is kept, and the former log itself survives exactly when fewer than the configured number of
  entries with the log's prefix sort after its name: always, when every backup carries the stamp
  of an earlier second (up to the year 9999), but not beside planted names that sort higher.\<close>
theorem rotation_keeps_history:
  assumes "\<not> lg_closed l" "rotate_at (lg_cfg l) \<le> lg_size l" "rotation_succeeds os l d" "ao_encodes os e"
    and "gm_wf d" "0 < MaxBackups (lg_cfg l)" "new = rotatedName l (ao_now os)"
  shows "\<exists>l' d'. Log os e l d = (None, l', d') \<and> lg_open l' \<and> map_of d' (log_name l) = Some [e] \<and>
    (\<forall>n. \<not> backup l n \<and> n \<noteq> log_name l \<longrightarrow> map_of d' n = map_of d n) \<and>
    (\<forall>n. backup l n \<longrightarrow> map_of d' n = None \<or> map_of d' n = map_of d (if n = new then log_name l else n)) \<and>
    (whole_scan os l d \<longrightarrow>
      card {n \<in> gm_keys d'. backup l n} = min (nat (MaxBackups (lg_cfg l))) (card (insert new {n \<in> gm_keys d. backup l n})) \<and>
      (\<forall>n m. n \<in> insert new (gm_keys d) \<and> n \<notin> gm_keys d' \<and> m \<in> gm_keys d' \<and> backup l m \<longrightarrow> n < m) \<and>
      (map_of d' new = map_of d (log_name l) \<longleftrightarrow>
         card {n \<in> gm_keys d. backup l n \<and> new < n} < nat (MaxBackups (lg_cfg l))) \<and>
      (older_backups l (ao_now os) d \<and> fst (date_of (time_unix (ao_now os) div 86400)) \<le> 9999 \<longrightarrow>
         map_of d' new = map_of d (log_name l)))"
proof -
  define c where "c = cleanupLocked os l (rotated_dir l (ao_now os) d)"
  let ?d' = "AList.update (log_name l) [e] c"
  have b: "log_name l \<in> gm_keys d" using assms(3) by (simp add: rotation_succeeds_def)
  note rot = rotated_lookup [OF b, of "ao_now os", folded assms(7)]
  have cl: "map_of c (log_name l) = Some []" by (simp add: c_def backup_cleanup_lookup(1) rot)
  have keys: "gm_keys ?d' = gm_keys c" using gm_lookup_Some_key [OF cl] by (auto simp: gm_keys_update)
  have log: "Log os e l d = (None, l\<lparr>lg_size := int (ao_formatted os e)\<rparr>, ?d')" and op: "lg_open l"
    using assms(1-4) rotate_ok [OF assms(3)] cl by (auto simp: Log_def c_def rotation_succeeds_def Let_def)
  have look: "map_of ?d' n = (if n = log_name l then Some [e] else map_of c n)" for n by (simp add: gm_lookup_update)
  have frame: "map_of c n = map_of d n" if "\<not> backup l n" "n \<noteq> log_name l" for n
    using that assms(7) by (auto simp: c_def backup_cleanup_lookup(1) rot)
  have old: "map_of c n = None \<or> map_of c n = map_of d (if n = new then log_name l else n)" if "backup l n" for n
    using backup_cleanup_lookup(2) [of os l "rotated_dir l (ao_now os) d" n] that by (auto simp: c_def rot)
  have neq: "new \<noteq> log_name l" using assms(7) by simp
  have kept: "map_of c new = map_of d (log_name l) \<longleftrightarrow> new \<in> gm_keys c"
    using old [of new] gm_lookup_None_iff [of c new] gm_lookup_None_iff [of d "log_name l"] b assms(7) by auto
  note scan = whole_scan_result [OF _ b assms(5,6), of os, folded assms(7) c_def]
  let ?S = "card {n \<in> gm_keys d. backup l n \<and> new < n} < nat (MaxBackups (lg_cfg l))"
  have whole: "card {n \<in> gm_keys ?d'. backup l n} = min (nat (MaxBackups (lg_cfg l))) (card (insert new {n \<in> gm_keys d. backup l n})) \<and>
      (\<forall>n m. n \<in> insert new (gm_keys d) \<and> n \<notin> gm_keys ?d' \<and> m \<in> gm_keys ?d' \<and> backup l m \<longrightarrow> n < m) \<and>
      (map_of ?d' new = map_of d (log_name l) \<longleftrightarrow> ?S) \<and>
      (older_backups l (ao_now os) d \<and> fst (date_of (time_unix (ao_now os) div 86400)) \<le> 9999 \<longrightarrow> map_of ?d' new = map_of d (log_name l))"
    if w: "whole_scan os l d"
  proof -
    have "map_of ?d' new = map_of d (log_name l) \<longleftrightarrow> new \<in> gm_keys c" unfolding look using neq kept by simp
    with scan(1,2,3,4) [OF w] show ?thesis unfolding keys by blast
  qed
  show ?thesis
    unfolding log
  proof (intro exI conjI, rule refl)
    show "\<forall>n. \<not> backup l n \<and> n \<noteq> log_name l \<longrightarrow> map_of ?d' n = map_of d n" using frame by (simp add: look)
    show "\<forall>n. backup l n \<longrightarrow> map_of ?d' n = None \<or> map_of ?d' n = map_of d (if n = new then log_name l else n)"
      using old by (simp add: look)
  qed (use op whole in \<open>simp_all add: look\<close>)
qed

definition wedged :: "Logger \<Rightarrow> bool" where
  "wedged l \<longleftrightarrow> \<not> lg_closed l \<and> \<not> lg_open l \<and> rotate_at (lg_cfg l) \<le> lg_size l"

lemma wedged_Log:
  assumes "wedged l"
  shows "\<exists>err. Log os e l d = (Some (RotateErr err), l, d)"
  using assms by (cases l) (auto simp: wedged_def Log_def rotateLocked_def Let_def split: option.split)

lemma failed_rotation_wedged:
  assumes "Log os e l d = (Some (RotateErr err), l1, d1)" "\<forall>p. err \<noteq> PathErr p"
  shows "wedged l1"
proof -
  have f: "\<not> lg_closed l" "rotate_at (lg_cfg l) \<le> lg_size l" "rotateLocked os l d = (Some err, l1, d1)"
    using assms(1) by (auto simp: Log_def Let_def split: if_splits option.splits prod.splits)
  have "l1 = l\<lparr>lg_open := False\<rparr>"
    using f(3) assms(2) by (auto simp: rotateLocked_def Let_def split: option.splits if_splits prod.splits)
  with f(1,2) show ?thesis by (simp add: wedged_def)
qed

text \<open>
  C38. A rotation that fails after it closed the file stops the audit log for good: once
  \<open>Log\<close> has reported an error of the close, the rename or the reopening, every later call
  fails as well and writes nothing, whatever the file system answers from then on.\<close>
theorem failed_rotation_wedges_logger:
  assumes "Log os e l d = (Some (RotateErr err), l1, d1)" "\<forall>p. err \<noteq> PathErr p"
    and "log_all calls l1 d1 = (rs, l2, d2)"
  shows "d2 = d1 \<and> length rs = length calls \<and> (\<forall>r \<in> set rs. \<exists>x. r = Some (RotateErr x))"
proof -
  have "wedged l1" using assms(1,2) by (rule failed_rotation_wedged)
  with assms(3) show ?thesis
  proof (induction calls arbitrary: rs)
    case (Cons call calls)
    obtain o' e' where call: "call = (o', e')" by (cases call)
    obtain x where "Log o' e' l1 d1 = (Some (RotateErr x), l1, d1)" using wedged_Log [OF Cons.prems(2)] by blast
    with Cons.prems(1) call obtain rs' where "rs = Some (RotateErr x) # rs'" "log_all calls l1 d1 = (rs', l2, d2)"
      by (auto split: prod.splits)
    with Cons.IH Cons.prems(2) show ?case by auto
  qed simp
qed

text \<open>Two rotations within one second use the same name: the second replaces the backup of the first.\<close>

lemma same_second_rotation_replaces_backup:
  assumes "log_name l \<in> gm_keys d" "map_of d (rotatedName l now) = Some old" "time_unix now' = time_unix now"
  shows "map_of (rotated_dir l now' d) (rotatedName l now) = map_of d (log_name l)"
  using assms by (simp add: rotated_lookup [OF assms(1)] rotatedName_def stamp_def)

section \<open>Samples\<close>

definition sample_event :: AuditEvent where
  "sample_event = \<lparr>au_Timestamp = 0, au_Type = ''packet_block'', au_TraceID = ''t'', au_SrcIP = ''10.0.0.1'', au_DstIP = ''10.0.0.2'',
     au_Protocol = ''tcp'', au_SrcPort = 1, au_DstPort = 2, au_PacketSize = 40, au_Reason = ''r''\<rparr>"

definition sample_os :: audit_os where
  "sample_os = \<lparr>ao_lstat = (\<lambda>_. NotSymlink), ao_mkdir_ok = True,
     ao_open = Some (Some \<lparr>st_regular = True, st_size = 0, st_mtime = 0\<rparr>), ao_stat = Some \<lparr>st_regular = True, st_size = 0, st_mtime = 0\<rparr>,
     ao_close_ok = True, ao_now = 0, ao_rename_ok = True, ao_dir = Some [''a.log'', ''a.log.'' @ stamp 0],
     ao_removes = (\<lambda>_. True), ao_encodes = (\<lambda>_. True), ao_formatted = (\<lambda>_. 200)\<rparr>"

definition sample_logger :: Logger where
  "sample_logger = \<lparr>lg_open = True, lg_cfg = \<lparr>Path = ''/l/a.log'', MaxSizeMB = 1, MaxBackups = 2\<rparr>, lg_size = 1048600, lg_closed = False\<rparr>"

lemma sample_rotate_at: "rotate_at (lg_cfg sample_logger) = 1048576"
  by (simp add: rotate_at_def sample_logger_def)

lemma sample_names [simp]: "log_name sample_logger = ''a.log''" "Dir (Path (lg_cfg sample_logger)) = ''/l''"
  by (simp_all add: sample_logger_def Base_def Dir_def Clean_def IsAbs_def Let_def)

lemma sample_reject: "RejectSymlinkComponents (ao_lstat sample_os) ''/l'' = None"
  by (simp add: RejectSymlinkComponents_def sample_os_def Clean_def IsAbs_def Join2_def)

theorem rotation_keeps_history_witness:
  "\<exists>l' d'. Log sample_os sample_event sample_logger [(''a.log'', [sample_event, sample_event])] = (None, l', d') \<and>
     map_of d' ''a.log'' = Some [sample_event] \<and>
     map_of d' (rotatedName sample_logger 0) = Some [sample_event, sample_event]"
proof -
  let ?d = "[(''a.log'', [sample_event, sample_event])]" and ?ord = "[''a.log'', rotatedName sample_logger 0]"
  have now: "ao_now sample_os = 0" by (simp add: sample_os_def)
  have succ: "rotation_succeeds sample_os sample_logger ?d"
    using sample_reject by (simp add: rotation_succeeds_def) (simp add: sample_os_def sample_logger_def)
  have older: "older_backups sample_logger (ao_now sample_os) ?d"
    by (simp add: older_backups_def)
  have year: "fst (date_of (time_unix (ao_now sample_os) div 86400)) \<le> 9999"
    by (simp add: sample_os_def date_of_def time_unix_def year_of.simps year_len_def leap_def month_lens_def)
  have "ao_dir sample_os = Some ?ord" "set ?ord = insert (rotatedName sample_logger 0) (gm_keys ?d)" "ao_removes sample_os = (\<lambda>_. True)"
    by (auto simp: sample_os_def rotatedName_def)
  moreover have "distinct ?ord" using rotatedName_neq [of sample_logger 0] by simp
  ultimately have whole: "whole_scan sample_os sample_logger ?d" unfolding whole_scan_def now by (simp add: maxCleanupEntries_def)
  have size: "rotate_at (lg_cfg sample_logger) \<le> lg_size sample_logger"
    unfolding sample_rotate_at by (simp add: sample_logger_def)
  have flags: "\<not> lg_closed sample_logger" "ao_encodes sample_os sample_event" "gm_wf ?d" "0 < MaxBackups (lg_cfg sample_logger)"
    by (simp_all add: sample_logger_def sample_os_def gm_wf_def)
  obtain l' d' where r: "Log sample_os sample_event sample_logger ?d = (None, l', d')" "map_of d' (log_name sample_logger) = Some [sample_event]"
      "map_of d' (rotatedName sample_logger (ao_now sample_os)) = map_of ?d (log_name sample_logger)"
    using rotation_keeps_history [OF flags(1) size succ flags(2-4) refl] whole older year by blast
  then show ?thesis by (auto simp: now)
qed

theorem failed_rotation_wedges_logger_witness:
  "\<exists>l1 rs l2. Log (sample_os\<lparr>ao_rename_ok := False\<rparr>) sample_event sample_logger [(''a.log'', [])] = (Some (RotateErr RenameErr), l1, [(''a.log'', [])]) \<and>
     log_all [(sample_os, sample_event), (sample_os, sample_event)] l1 [(''a.log'', [])] = (rs, l2, [(''a.log'', [])]) \<and> rs \<noteq> []"
proof -
  let ?os = "sample_os\<lparr>ao_rename_ok := False\<rparr>" and ?d = "[(''a.log'', [])] :: audit_dir"
  let ?calls = "[(sample_os, sample_event), (sample_os, sample_event)]"
  define l1 where "l1 = sample_logger\<lparr>lg_open := False\<rparr>"
  have "RejectSymlinkComponents (ao_lstat ?os) (Dir (Path (lg_cfg sample_logger))) = None" using sample_reject by simp
  moreover have "lg_open sample_logger" "\<not> lg_closed sample_logger" "rotate_at (lg_cfg sample_logger) \<le> lg_size sample_logger"
    unfolding sample_rotate_at by (simp_all add: sample_logger_def)
  ultimately have l1: "Log ?os sample_event sample_logger ?d = (Some (RotateErr RenameErr), l1, ?d)"
    by (simp add: Log_def rotateLocked_def Let_def l1_def) (simp add: sample_os_def)
  obtain rs l2 d2 where w: "log_all ?calls l1 ?d = (rs, l2, d2)" by (cases "log_all ?calls l1 ?d")
  from failed_rotation_wedges_logger [OF l1 _ w] have "d2 = ?d" "length rs = 2" by simp_all
  with l1 w show ?thesis by auto
qed

end
