(* ===== verification/Capture.thy ===== *)
theory Capture
  imports SecurePath Rotation
begin

text \<open>
  internal/capture/capture.go: the rotating packet captures. The capture directory is a map from
  entry names to the records the file holds; the outcomes of the system calls and of the pcap
  writer are inputs. A write that fails may leave the beginning of its record in the file.
\<close>

type_synonym capture_packet = "8 word list"

text \<open>A record of a file: a whole packet, or the first bytes of the record of a packet whose write failed.\<close>

datatype pcap_record = Whole capture_packet | Torn nat capture_packet

fun record_packet :: "pcap_record \<Rightarrow> capture_packet" where
  "record_packet (Whole raw) = raw"
| "record_packet (Torn n raw) = raw"

fun is_whole :: "pcap_record \<Rightarrow> bool" where
  "is_whole (Whole raw) = True"
| "is_whole (Torn n raw) = False"

type_synonym capture_dir = "pcap_record list dir"

definition maxPacketSize :: nat where
  "maxPacketSize = 65536"

record Config =
  CaptureDir :: string
  MaxFiles :: int
  MaxPackets :: int

text \<open>\<open>cw_file\<close>: whether \<open>curFile\<close> is set; its name is that of index \<open>curFileN\<close>.\<close>

record Writer =
  cw_cfg :: Config
  cw_file :: bool
  curFileN :: int
  pktCount :: int
  cw_closed :: bool

text \<open>\<open>co_written\<close>: \<open>None\<close> when \<open>WritePacket\<close> succeeds, otherwise the bytes of the record it wrote.\<close>

record capture_os =
  co_lstat :: "string \<Rightarrow> lstat_result"
  co_mkdir_ok :: bool
  co_create_ok :: bool
  co_header_ok :: bool
  co_written :: "nat option"
  co_dir :: "string list option"
  co_removes :: "string \<Rightarrow> bool"

datatype capture_err =
    MkdirErr
  | PathErr path_err
  | TooLargeErr nat
  | ClosedErr
  | CreateErr
  | HeaderErr
  | WriteErr

definition NewWriter :: "capture_os \<Rightarrow> Config \<Rightarrow> capture_err + Writer option" where
  "NewWriter os c =
     (if CaptureDir c = [] then Inr None
      else (let c1 = (if MaxFiles c \<le> 0 then c\<lparr>MaxFiles := 10\<rparr> else c);
                c2 = (if MaxPackets c1 \<le> 0 then c1\<lparr>MaxPackets := 10000\<rparr> else c1)
            in if \<not> co_mkdir_ok os then Inl MkdirErr
               else (case RejectSymlinkComponents (co_lstat os) (CaptureDir c2) of
                       Some err \<Rightarrow> Inl (PathErr err)
                     | None \<Rightarrow> Inr (Some \<lparr>cw_cfg = c2, cw_file = False, curFileN = 0, pktCount = 0, cw_closed = False\<rparr>))))"

text \<open>\<open>Sprintf("blocked_%05d.pcap", n)\<close>; the index is never negative.\<close>

definition fname :: "int \<Rightarrow> string" where
  "fname n = ''blocked_'' @ pad0 5 (nat n) @ ''.pcap''"

definition capture_name :: "string \<Rightarrow> bool" where
  "capture_name name \<longleftrightarrow> HasPrefix name ''blocked_'' \<and> HasPrefix (rev name) (rev ''.pcap'')"

text \<open>The removal loop: the names it removes, given the current file and the number to remove.\<close>

fun prune_loop :: "string \<Rightarrow> int \<Rightarrow> int \<Rightarrow> string list \<Rightarrow> string list" where
  "prune_loop current excess removed [] = []"
| "prune_loop current excess removed (m # ms) =
     (if removed < excess
      then (if m = current then prune_loop current excess removed ms
            else m # prune_loop current excess (removed + 1) ms)
      else [])"

definition cleanup_scan :: "(string \<Rightarrow> bool) \<Rightarrow> string \<Rightarrow> int \<Rightarrow> string list \<Rightarrow> 'c dir \<Rightarrow> 'c dir" where
  "cleanup_scan removes current maxf ord d =
     (let names = Readdirnames maxCleanupEntries ord;
          matches = filter capture_name names
      in if int (length matches) \<le> maxf then d
         else remove_all (filter removes (prune_loop current (int (length matches) - maxf) 0 (sort matches))) d)"

text \<open>The first mechanism: the file of index \<open>curFileN - MaxFiles\<close>.\<close>

definition remove_own :: "capture_os \<Rightarrow> Writer \<Rightarrow> 'c dir \<Rightarrow> 'c dir" where
  "remove_own os w d =
     (let oldIdx = curFileN w - MaxFiles (cw_cfg w)
      in if oldIdx \<ge> 1 \<and> co_removes os (fname oldIdx) then AList.delete (fname oldIdx) d else d)"

definition cleanupLocked :: "capture_os \<Rightarrow> Writer \<Rightarrow> 'c dir \<Rightarrow> 'c dir" where
  "cleanupLocked os w d =
     (let d1 = remove_own os w d
      in case co_dir os of
           None \<Rightarrow> d1
         | Some ord \<Rightarrow> cleanup_scan (co_removes os) (fname (curFileN w)) (MaxFiles (cw_cfg w)) ord d1)"

definition rotateLocked :: "capture_os \<Rightarrow> Writer \<Rightarrow> capture_dir \<Rightarrow> capture_err option \<times> Writer \<times> capture_dir" where
  "rotateLocked os w d =
     (case RejectSymlinkComponents (co_lstat os) (CaptureDir (cw_cfg w)) of
        Some err \<Rightarrow> (Some (PathErr err), w, d)
      | None \<Rightarrow>
          (let w1 = w\<lparr>cw_file := False, curFileN := curFileN w + 1\<rparr>
           in if \<not> co_create_ok os then (Some CreateErr, w1, d)
              else (let d1 = AList.update (fname (curFileN w1)) [] d
                    in if \<not> co_header_ok os then (Some HeaderErr, w1, d1)
                       else (let w2 = w1\<lparr>cw_file := True, pktCount := 0\<rparr> in (None, w2, cleanupLocked os w2 d1)))))"

definition append_record :: "string \<Rightarrow> pcap_record \<Rightarrow> capture_dir \<Rightarrow> capture_dir" where
  "append_record name x d = (case map_of d name of None \<Rightarrow> d | Some rs \<Rightarrow> AList.update name (rs @ [x]) d)"

definition WriteBlock :: "capture_os \<Rightarrow> capture_packet \<Rightarrow> Writer option \<Rightarrow> capture_dir \<Rightarrow> capture_err option \<times> Writer option \<times> capture_dir" where
  "WriteBlock os raw wo d =
     (case wo of
        None \<Rightarrow> (None, None, d)
      | Some w \<Rightarrow>
          if length raw > maxPacketSize then (Some (TooLargeErr (length raw)), Some w, d)
          else if cw_closed w then (Some ClosedErr, Some w, d)
          else (case (if \<not> cw_file w \<or> pktCount w \<ge> MaxPackets (cw_cfg w) then rotateLocked os w d else (None, w, d)) of
                  (Some err, w1, d1) \<Rightarrow> (Some err, Some w1, d1)
                | (None, w1, d1) \<Rightarrow>
                    (case co_written os of
                       Some n \<Rightarrow> (Some WriteErr, Some w1, if n = 0 then d1 else append_record (fname (curFileN w1)) (Torn n raw) d1)
                     | None \<Rightarrow> (None, Some (w1\<lparr>pktCount := pktCount w1 + 1\<rparr>), append_record (fname (curFileN w1)) (Whole raw) d1))))"

text \<open>The boolean is whether closing the file fails (closing it a second time does).\<close>

definition Close :: "bool \<Rightarrow> Writer option \<Rightarrow> bool \<times> Writer option" where
  "Close close_fails wo =
     (case wo of
        None \<Rightarrow> (False, None)
      | Some w \<Rightarrow> (cw_file w \<and> (close_fails \<or> cw_closed w), Some (w\<lparr>cw_closed := True\<rparr>)))"

section \<open>Lemmas\<close>

lemma prune_loop_take:
  "prune_loop current excess removed ms = take (nat (excess - removed)) (filter (\<lambda>m. m \<noteq> current) ms)"
proof (induction current excess removed ms rule: prune_loop.induct)
  case (2 current excess removed m ms)
  have "nat (excess - removed) = Suc (nat (excess - (removed + 1)))" if "removed < excess" using that by simp
  then show ?case using "2.IH" by auto
qed simp

lemma capture_scan_victims:
  assumes "0 \<le> maxf"
  shows "cleanup_scan (\<lambda>_. True) current maxf ord d =
    remove_all (victims (\<lambda>n. n = current) (nat maxf) (filter capture_name (Readdirnames maxCleanupEntries ord))) d"
proof -
  let ?ms = "filter capture_name (Readdirnames maxCleanupEntries ord)"
  have n: "nat (int (length ?ms) - maxf) = length ?ms - nat maxf" using assms by simp
  show ?thesis
  proof (cases "int (length ?ms) \<le> maxf")
    case True
    then have "length ?ms - nat maxf = 0" using assms by simp
    with True show ?thesis by (simp add: cleanup_scan_def victims_def remove_all_def Let_def)
  next
    case False
    with n show ?thesis by (simp add: cleanup_scan_def victims_def Let_def prune_loop_take)
  qed
qed

lemma one_current: "distinct ns \<Longrightarrow> length (filter (\<lambda>n. n = c) ns) \<le> 1"
  by (induction ns) (auto simp: filter_empty_conv)

interpretation captures: retention capture_name "\<lambda>n. n = current" "nat (max 1 maxf)"
    "cleanup_scan (\<lambda>_. True) current (max 1 maxf) :: string list \<Rightarrow> 'c dir \<Rightarrow> 'c dir" for current maxf
proof (rule scan_retention)
  fix ns :: "string list" assume "distinct ns"
  then show "length (filter (\<lambda>n. n = current) ns) \<le> nat (max 1 maxf)"
    using one_current [of ns current] by linarith
qed (simp add: capture_scan_victims)

lemma fname_capture [simp]: "capture_name (fname n)"
  by (simp add: capture_name_def fname_def HasPrefix_iff)

lemma fname_less:
  assumes "0 \<le> m" "m < n" "n < 100000"
  shows "fname m < fname n"
proof -
  have "pad0 5 (nat m) < pad0 5 (nat n)" using assms by (intro pad0_mono) auto
  moreover have "length (pad0 5 (nat m)) = length (pad0 5 (nat n))" using assms by (simp add: pad0_length)
  ultimately show ?thesis by (simp add: fname_def less_append_same)
qed

lemma horner_zeros: "horner 10 0 (replicate k 0 @ ds) = horner 10 0 ds"
  by (induction k) simp_all

lemma pad0_digits: "map dec_val (pad0 w n) = map Some (replicate (w - length (dec n)) 0 @ ndigits 10 n)"
  using ndigits_less [of 10 _ n] dec_val_digit_char [of 0] digit_zero by (auto simp: pad0_def dec_def)

lemma pad0_inj: "pad0 w m = pad0 w n \<Longrightarrow> m = n"
proof -
  assume "pad0 w m = pad0 w n"
  then have "map Some (replicate (w - length (dec m)) 0 @ ndigits 10 m) = map Some (replicate (w - length (dec n)) 0 @ ndigits 10 n)"
    using pad0_digits [of w m] pad0_digits [of w n] by simp
  then have "replicate (w - length (dec m)) 0 @ ndigits 10 m = replicate (w - length (dec n)) 0 @ ndigits 10 n"
    by (rule map_injective) simp
  then have "horner 10 0 (ndigits 10 m) = horner 10 0 (ndigits 10 n)" using horner_zeros by metis
  then show "m = n" by (simp add: horner_ndigits)
qed

lemma fname_inj: "0 \<le> m \<Longrightarrow> 0 \<le> n \<Longrightarrow> fname m = fname n \<longleftrightarrow> m = n"
  using pad0_inj [of 5 "nat m" "nat n"] by (auto simp: fname_def)

lemma scan_keeps_current: "map_of (cleanup_scan removes current maxf ord d) current = map_of d current"
  by (auto simp: cleanup_scan_def Let_def remove_all_lookup prune_loop_take dest!: in_set_takeD)

lemma scan_wf: "gm_wf d \<Longrightarrow> gm_wf (cleanup_scan removes current maxf ord d)"
  by (simp add: cleanup_scan_def Let_def)

text \<open>The invariant of a writer and its directory: the current file exists and holds the whole packets counted.\<close>

definition writer_inv :: "Writer \<Rightarrow> capture_dir \<Rightarrow> bool" where
  "writer_inv w d \<longleftrightarrow> gm_wf d \<and> 0 \<le> curFileN w \<and> 1 \<le> MaxFiles (cw_cfg w) \<and> 1 \<le> MaxPackets (cw_cfg w) \<and>
     (cw_file w \<longrightarrow> (\<exists>ps. map_of d (fname (curFileN w)) = Some ps \<and> int (length (filter is_whole ps)) = pktCount w) \<and>
        pktCount w \<le> MaxPackets (cw_cfg w))"

lemma cleanup_keeps_current:
  assumes "1 \<le> MaxFiles (cw_cfg w)" "0 \<le> curFileN w"
  shows "map_of (cleanupLocked os w d) (fname (curFileN w)) = map_of d (fname (curFileN w))"
  using assms fname_inj [of "curFileN w - MaxFiles (cw_cfg w)" "curFileN w"]
  by (auto simp: cleanupLocked_def remove_own_def Let_def scan_keeps_current gm_lookup_delete split: option.split)

lemma cleanup_wf: "gm_wf d \<Longrightarrow> gm_wf (cleanupLocked os w d)"
  by (auto simp: cleanupLocked_def remove_own_def Let_def scan_wf split: option.split)

lemma rotate_inv:
  assumes "writer_inv w d" "rotateLocked os w d = (r, w', d')"
  shows "writer_inv w' d' \<and> cw_cfg w' = cw_cfg w \<and> cw_closed w' = cw_closed w \<and>
    (r = None \<longrightarrow> cw_file w' \<and> pktCount w' = 0 \<and> map_of d' (fname (curFileN w')) = Some [])"
proof -
  let ?w = "w\<lparr>curFileN := curFileN w + 1, cw_file := True, pktCount := 0\<rparr>"
  let ?d = "AList.update (fname (curFileN w + 1)) [] d"
  have inv: "gm_wf d" "0 \<le> curFileN w" "1 \<le> MaxFiles (cw_cfg w)" "1 \<le> MaxPackets (cw_cfg w)"
    using assms(1) by (auto simp: writer_inv_def)
  have cur: "map_of (cleanupLocked os ?w ?d) (fname (curFileN w + 1)) = Some []"
    using cleanup_keeps_current [of ?w os ?d] inv by (simp add: gm_lookup_update)
  have wf: "gm_wf (cleanupLocked os ?w ?d)" using inv by (simp add: cleanup_wf)
  show ?thesis
  proof (cases "RejectSymlinkComponents (co_lstat os) (CaptureDir (cw_cfg w))")
    case None
    with assms(2) cur wf inv show ?thesis by (auto simp: rotateLocked_def Let_def writer_inv_def split: if_splits)
  qed (use assms in \<open>auto simp: rotateLocked_def\<close>)
qed

lemma append_lookup:
  "map_of (append_record name x d) n = (if n = name then map_option (\<lambda>rs. rs @ [x]) (map_of d n) else map_of d n)"
  by (simp add: append_record_def gm_lookup_update split: option.split)

lemma append_wf: "gm_wf d \<Longrightarrow> gm_wf (append_record name x d)"
  by (simp add: append_record_def split: option.split)

lemma append_whole_inv:
  assumes "writer_inv w d" "cw_file w" "pktCount w < MaxPackets (cw_cfg w)"
  shows "writer_inv (w\<lparr>pktCount := pktCount w + 1\<rparr>) (append_record (fname (curFileN w)) (Whole raw) d)"
  using assms by (auto simp: writer_inv_def append_lookup append_wf)

lemma append_torn_inv: "writer_inv w d \<Longrightarrow> writer_inv w (append_record (fname (curFileN w)) (Torn n raw) d)"
  by (auto simp: writer_inv_def append_lookup append_wf)

lemma capture_cleanup_lookup: "map_of (cleanupLocked os w d) n = None \<or> map_of (cleanupLocked os w d) n = map_of d n"
  by (auto simp: cleanupLocked_def remove_own_def cleanup_scan_def Let_def remove_all_lookup gm_lookup_delete split: option.split)

text \<open>A rotation, successful or not, writes no packet: its only new file is empty.\<close>

lemma rotate_lookup:
  assumes "rotateLocked os w d = (r, w', d')"
  shows "n \<noteq> fname (curFileN w') \<Longrightarrow> map_of d' n = None \<or> map_of d' n = map_of d n"
    and "map_of d' (fname (curFileN w')) \<in> {None, Some [], map_of d (fname (curFileN w'))}"
proof -
  let ?w = "w\<lparr>curFileN := curFileN w + 1, cw_file := True, pktCount := 0\<rparr>" and ?d = "AList.update (fname (curFileN w + 1)) [] d"
  note c = capture_cleanup_lookup [of os ?w ?d]
  show "map_of d' n = None \<or> map_of d' n = map_of d n" if "n \<noteq> fname (curFileN w')"
    using assms that c [of n] by (auto simp: rotateLocked_def Let_def gm_lookup_update split: option.splits if_splits)
  show "map_of d' (fname (curFileN w')) \<in> {None, Some [], map_of d (fname (curFileN w'))}"
    using assms c [of "fname (curFileN w')"] by (auto simp: rotateLocked_def Let_def gm_lookup_update split: option.splits if_splits)
qed

text \<open>What \<open>WriteBlock\<close> does before it writes: nothing, or a rotation.\<close>

definition prepare_write :: "capture_os \<Rightarrow> Writer \<Rightarrow> capture_dir \<Rightarrow> capture_err option \<times> Writer \<times> capture_dir" where
  "prepare_write os w d = (if \<not> cw_file w \<or> pktCount w \<ge> MaxPackets (cw_cfg w) then rotateLocked os w d else (None, w, d))"

lemma prepare_inv:
  assumes "writer_inv w d" "prepare_write os w d = (r, w', d')"
  shows "writer_inv w' d'" "r = None \<Longrightarrow> cw_file w' \<and> pktCount w' < MaxPackets (cw_cfg w')"
  using assms rotate_inv [OF assms(1), of os r w' d'] by (auto simp: prepare_write_def writer_inv_def split: if_splits)

lemma prepare_lookup:
  assumes "prepare_write os w d = (r, w', d')"
  shows "n \<noteq> fname (curFileN w') \<Longrightarrow> map_of d' n = None \<or> map_of d' n = map_of d n"
    and "map_of d' (fname (curFileN w')) \<in> {None, Some [], map_of d (fname (curFileN w'))}"
  using assms rotate_lookup [of os w d r w' d'] by (auto simp: prepare_write_def split: if_splits)

lemma WriteBlock_prepare:
  assumes "\<not> maxPacketSize < length raw" "\<not> cw_closed w" "prepare_write os w d = (r1, w1, d1)"
  shows "WriteBlock os raw (Some w) d =
    (case (r1, co_written os) of
       (Some err, _) \<Rightarrow> (Some err, Some w1, d1)
     | (None, Some n) \<Rightarrow> (Some WriteErr, Some w1, if n = 0 then d1 else append_record (fname (curFileN w1)) (Torn n raw) d1)
     | (None, None) \<Rightarrow> (None, Some (w1\<lparr>pktCount := pktCount w1 + 1\<rparr>), append_record (fname (curFileN w1)) (Whole raw) d1))"
  using assms by (simp add: WriteBlock_def prepare_write_def split: option.split)

text \<open>What a call adds to the current file: the packet, a part of its record, or nothing.\<close>

definition added_records :: "capture_os \<Rightarrow> capture_packet \<Rightarrow> capture_err option \<Rightarrow> pcap_record list" where
  "added_records os raw r =
     (case r of
        None \<Rightarrow> [Whole raw]
      | Some WriteErr \<Rightarrow> (case co_written os of Some n \<Rightarrow> if n = 0 then [] else [Torn n raw] | None \<Rightarrow> [])
      | Some err \<Rightarrow> [])"

definition small_packets :: "capture_dir \<Rightarrow> bool" where
  "small_packets d \<longleftrightarrow> (\<forall>n rs. map_of d n = Some rs \<longrightarrow> (\<forall>x \<in> set rs. length (record_packet x) \<le> maxPacketSize))"

text \<open>The effect of a call on the files: \<open>cur\<close> is the current one and \<open>xs\<close> what was added to it.\<close>

definition only_adds :: "string \<Rightarrow> pcap_record list \<Rightarrow> capture_dir \<Rightarrow> capture_dir \<Rightarrow> bool" where
  "only_adds cur xs d d' \<longleftrightarrow>
     (\<forall>n. n \<noteq> cur \<longrightarrow> map_of d' n = None \<or> map_of d' n = map_of d n) \<and>
     (\<forall>rs. map_of d' cur = Some rs \<longrightarrow> (\<exists>rs0. rs = rs0 @ xs \<and> (rs0 = [] \<or> map_of d cur = Some rs0)))"

lemma only_adds_small:
  assumes "only_adds cur xs d d'" "\<forall>x \<in> set xs. length (record_packet x) \<le> maxPacketSize" "small_packets d"
  shows "small_packets d'"
  unfolding small_packets_def
proof (intro allI impI ballI)
  fix n rs x assume n: "map_of d' n = Some rs" and x: "x \<in> set rs"
  show "length (record_packet x) \<le> maxPacketSize"
  proof (cases "n = cur")
    case True
    then obtain rs0 where "rs = rs0 @ xs" "rs0 = [] \<or> map_of d cur = Some rs0" using assms(1) n unfolding only_adds_def by blast
    with x assms(2,3) show ?thesis unfolding small_packets_def by auto
  next
    case False
    then have "map_of d n = Some rs" using assms(1) n unfolding only_adds_def by (metis option.discI)
    with x assms(3) show ?thesis unfolding small_packets_def by blast
  qed
qed

lemma prepare_only: "prepare_write os w d = (r, w', d') \<Longrightarrow> only_adds (fname (curFileN w')) [] d d'"
  using prepare_lookup [of os w d r w' d'] unfolding only_adds_def by auto

lemma append_only: "only_adds cur [] d d1 \<Longrightarrow> only_adds cur [x] d (append_record cur x d1)"
  unfolding only_adds_def by (auto simp: append_lookup)

lemma prepare_no_WriteErr: "prepare_write os w d = (r, w', d') \<Longrightarrow> r \<noteq> Some WriteErr"
  by (auto simp: prepare_write_def rotateLocked_def Let_def split: option.splits if_splits)

text \<open>
  C22. Whatever the file system and the pcap writer answer, a call of \<open>WriteBlock\<close> keeps the
  writer's invariant: the current file exists in the directory, whatever the clean-up removed, and
  holds exactly the whole packets counted for it, never more than the configured number. An
  oversized packet is refused and changes no file. Otherwise every other file keeps its content or
  is removed, and the current file has what it held before (or is new and empty) followed by what the
  call added: the packet, if it reports success; at most the beginning of its record, if the
  write failed; nothing after any other error. So a directory without oversized packets, whole
  or torn, stays so.\<close>
theorem capture_writer_invariant:
  assumes "writer_inv w d" "WriteBlock os raw (Some w) d = (r, wo, d')"
  shows "\<exists>w'. wo = Some w' \<and> writer_inv w' d' \<and>
    (maxPacketSize < length raw \<longrightarrow> r = Some (TooLargeErr (length raw)) \<and> d' = d) \<and>
    (r = None \<longrightarrow> (\<exists>rs. map_of d' (fname (curFileN w')) = Some (rs @ [Whole raw]))) \<and>
    only_adds (fname (curFileN w')) (added_records os raw r) d d' \<and>
    (small_packets d \<longrightarrow> small_packets d')"
proof (cases "length raw > maxPacketSize \<or> cw_closed w")
  case True
  then have "wo = Some w \<and> d' = d \<and> added_records os raw r = [] \<and> r \<noteq> None \<and> (maxPacketSize < length raw \<longrightarrow> r = Some (TooLargeErr (length raw)))"
    using assms(2) by (auto simp: WriteBlock_def added_records_def split: if_splits)
  with assms(1) show ?thesis by (auto simp: only_adds_def)
next
  case False
  obtain r1 w1 d1 where st: "prepare_write os w d = (r1, w1, d1)" by (metis prod.exhaust)
  note inv = prepare_inv [OF assms(1) st] and only = prepare_only [OF st]
  have eq: "(r, wo, d') = (case (r1, co_written os) of
       (Some err, _) \<Rightarrow> (Some err, Some w1, d1)
     | (None, Some n) \<Rightarrow> (Some WriteErr, Some w1, if n = 0 then d1 else append_record (fname (curFileN w1)) (Torn n raw) d1)
     | (None, None) \<Rightarrow> (None, Some (w1\<lparr>pktCount := pktCount w1 + 1\<rparr>), append_record (fname (curFileN w1)) (Whole raw) d1))"
    using WriteBlock_prepare [OF _ _ st, of raw] False assms(2) by simp
  have "\<exists>w'. wo = Some w' \<and> writer_inv w' d' \<and> (r = None \<longrightarrow> (\<exists>rs. map_of d' (fname (curFileN w')) = Some (rs @ [Whole raw]))) \<and>
      only_adds (fname (curFileN w')) (added_records os raw r) d d'"
  proof (cases r1)
    case (Some err)
    moreover have "added_records os raw (Some err) = []" using prepare_no_WriteErr [OF st] Some by (cases err) (simp_all add: added_records_def)
    ultimately show ?thesis using eq inv(1) only by simp
  next
    case None
    then have full: "cw_file w1" "pktCount w1 < MaxPackets (cw_cfg w1)" using inv(2) by auto
    show ?thesis
    proof (cases "co_written os")
      case (Some n)
      with None eq append_torn_inv [OF inv(1)] inv(1) append_only [OF only] only show ?thesis by (auto simp: added_records_def split: if_splits)
    next
      case w: None
      obtain ps where "map_of d1 (fname (curFileN w1)) = Some ps" using inv(1) full(1) by (auto simp: writer_inv_def)
      with None w eq append_whole_inv [OF inv(1) full] append_only [OF only] show ?thesis by (auto simp: added_records_def append_lookup)
    qed
  qed
  moreover have "\<forall>x \<in> set (added_records os raw r). length (record_packet x) \<le> maxPacketSize"
    using False by (auto simp: added_records_def split: option.splits capture_err.splits if_splits)
  ultimately show ?thesis using only_adds_small False by blast
qed

text \<open>The directory the scan of a rotation to index \<open>n\<close> looks at.\<close>

definition scanned :: "capture_os \<Rightarrow> Writer \<Rightarrow> capture_dir \<Rightarrow> capture_dir" where
  "scanned os w d =
     remove_own os (w\<lparr>curFileN := curFileN w + 1\<rparr>) (AList.update (fname (curFileN w + 1)) [] d)"

definition full_scan :: "capture_os \<Rightarrow> Writer \<Rightarrow> capture_dir \<Rightarrow> bool" where
  "full_scan os w d \<longleftrightarrow> co_removes os = (\<lambda>_. True) \<and> length (scanned os w d) \<le> maxCleanupEntries \<and>
     (\<exists>ord. co_dir os = Some ord \<and> gm_enum ord (scanned os w d))"

lemma scanned_wf: "gm_wf d \<Longrightarrow> gm_wf (scanned os w d)"
  by (simp add: scanned_def remove_own_def Let_def)

lemma rotate_scanned:
  assumes "rotateLocked os w d = (None, w', d')" "full_scan os w d"
  obtains ord where "gm_enum ord (scanned os w d)" "curFileN w' = curFileN w + 1" "cw_cfg w' = cw_cfg w"
    "d' = cleanup_scan (\<lambda>_. True) (fname (curFileN w + 1)) (MaxFiles (cw_cfg w)) ord (scanned os w d)"
  using assms
  by (auto simp: rotateLocked_def full_scan_def scanned_def cleanupLocked_def remove_own_def Let_def split: option.splits if_splits)

text \<open>
  After a rotation whose scan sees the whole directory at most the configured number of
  captures remains, the new current file among them and empty; every other entry is unchanged and
  no capture is altered, only removed.\<close>
theorem captures_bounded:
  assumes "writer_inv w d" "rotateLocked os w d = (None, w', d')" "full_scan os w d"
  shows "card {n \<in> gm_keys d'. capture_name n} \<le> nat (MaxFiles (cw_cfg w)) \<and>
    map_of d' (fname (curFileN w')) = Some [] \<and>
    (\<forall>n. \<not> capture_name n \<longrightarrow> map_of d' n = map_of d n) \<and>
    (\<forall>n. n \<noteq> fname (curFileN w') \<longrightarrow> map_of d' n = None \<or> map_of d' n = map_of d n)"
proof -
  have inv: "gm_wf d" "1 \<le> MaxFiles (cw_cfg w)" using assms(1) by (simp_all add: writer_inv_def)
  have mx: "max 1 (MaxFiles (cw_cfg w)) = MaxFiles (cw_cfg w)" using inv by simp
  have cur: "map_of d' (fname (curFileN w')) = Some []" using rotate_inv [OF assms(1,2)] by simp
  obtain ord where o: "gm_enum ord (scanned os w d)" "curFileN w' = curFileN w + 1"
      "d' = cleanup_scan (\<lambda>_. True) (fname (curFileN w + 1)) (MaxFiles (cw_cfg w)) ord (scanned os w d)"
    using rotate_scanned [OF assms(2,3)] by blast
  have len: "length (scanned os w d) \<le> maxCleanupEntries" using assms(3) by (simp add: full_scan_def)
  have look: "map_of (scanned os w d) n = None \<or> map_of (scanned os w d) n = map_of d n" if "n \<noteq> fname (curFileN w')" for n
    using that by (auto simp: scanned_def remove_own_def Let_def gm_lookup_update gm_lookup_delete o(2))
  have plain: "map_of (scanned os w d) n = map_of d n" if "\<not> capture_name n" for n
    using that fname_capture by (auto simp: scanned_def remove_own_def Let_def gm_lookup_update gm_lookup_delete)
  note R = captures.count [OF scanned_wf [OF inv(1)] o(1) len, of "fname (curFileN w + 1)" "MaxFiles (cw_cfg w)", unfolded mx, folded o(3)]
  note F = captures.frame [of _ "fname (curFileN w + 1)" "MaxFiles (cw_cfg w)" ord "scanned os w d", unfolded mx, folded o(3)]
  note K = captures.kept_or_gone [of "fname (curFileN w + 1)" "MaxFiles (cw_cfg w)" ord "scanned os w d", unfolded mx, folded o(3)]
  have "card {n \<in> gm_keys d'. capture_name n} \<le> nat (MaxFiles (cw_cfg w))" unfolding R by simp
  moreover have "map_of d' n = map_of d n" if "\<not> capture_name n" for n using F [of n] plain [OF that] that by simp
  moreover have "map_of d' n = None \<or> map_of d' n = map_of d n" if "n \<noteq> fname (curFileN w')" for n
    using K [of n] look [OF that] by auto
  ultimately show ?thesis using cur by blast
qed

abbreviation old_index :: "Writer \<Rightarrow> int" where
  "old_index w \<equiv> curFileN w + 1 - MaxFiles (cw_cfg w)"

lemma scanned_keys_own:
  "gm_keys (scanned os w d) = insert (fname (curFileN w + 1)) (gm_keys d) -
     (if 1 \<le> old_index w \<and> co_removes os (fname (old_index w)) then {fname (old_index w)} else {})"
  by (simp add: scanned_def remove_own_def Let_def gm_keys_delete gm_keys_update)

lemma own_removed_current:
  assumes "n \<notin> gm_keys (scanned os w d)" "n \<in> gm_keys d"
  shows "1 \<le> old_index w \<and> n = fname (old_index w)"
proof (cases "1 \<le> old_index w \<and> co_removes os (fname (old_index w))")
  case True
  with assms show ?thesis unfolding scanned_keys_own by simp
next
  case False
  with assms show ?thesis unfolding scanned_keys_own by (simp only: if_False Diff_empty insert_iff simp_thms)
qed

lemma scanned_keys:
  assumes "writer_inv w d" "curFileN w + 1 < 100000" "fname (curFileN w) \<in> gm_keys (scanned os w d)"
    and high: "\<forall>n \<in> gm_keys d. capture_name n \<and> n \<noteq> fname (curFileN w) \<longrightarrow> fname (curFileN w + 1) < n"
  shows "gm_keys (scanned os w d) = insert (fname (curFileN w + 1)) (gm_keys d)"
proof (cases "1 \<le> old_index w \<and> co_removes os (fname (old_index w))")
  case True
  have inv: "0 \<le> curFileN w" "1 \<le> MaxFiles (cw_cfg w)" using assms(1) by (simp_all add: writer_inv_def)
  have less: "fname (old_index w) < fname (curFileN w + 1)" using True inv assms(2) by (intro fname_less) auto
  have "fname (old_index w) \<noteq> fname (curFileN w)" using assms(3) True unfolding scanned_keys_own by simp metis
  moreover have "\<not> fname (curFileN w + 1) < fname (old_index w)" using less by (rule order_less_not_sym)
  ultimately have "fname (old_index w) \<notin> gm_keys d" using high fname_capture by blast
  moreover have "fname (old_index w) \<noteq> fname (curFileN w + 1)" using less by simp
  ultimately show ?thesis using True by (simp add: scanned_keys_own)
next
  case False
  then show ?thesis unfolding scanned_keys_own by (simp only: if_False Diff_empty)
qed

text \<open>
  The argument on sets of names: of the matches \<open>M\<close> and the new file, the \<open>k\<close>
  kept ones \<open>K\<close> cannot include the lowest match when the new file is protected.
\<close>

lemma lowest_is_removed:
  fixes c n :: "'a::linorder"
  assumes "finite M" "n \<notin> M" "c \<in> M" "K \<subseteq> insert n M" "n \<in> K" "card K = k" "k \<le> card M" "c < n"
    and low: "\<And>x. x \<in> M \<Longrightarrow> x \<noteq> c \<Longrightarrow> n < x"
    and oldest: "\<And>x y. x \<in> insert n M \<Longrightarrow> x \<notin> K \<Longrightarrow> y \<in> K \<Longrightarrow> y \<noteq> n \<Longrightarrow> x < y"
  shows "c \<notin> K \<and> (k = card M \<longrightarrow> M - {c} \<subseteq> K)"
proof
  show gone: "c \<notin> K"
  proof
    assume kept: "c \<in> K"
    have "K \<noteq> insert n M" using assms by auto
    then obtain x where x: "x \<in> insert n M" "x \<notin> K" using assms(4) by blast
    then have "x < c" using oldest kept assms(8) by blast
    moreover have "x \<in> M" "x \<noteq> c" using x assms(5) kept by blast+
    ultimately show False using low [of x] assms(8) by simp
  qed
  show "k = card M \<longrightarrow> M - {c} \<subseteq> K"
  proof (intro impI subsetI, rule ccontr)
    fix x assume k: "k = card M" and x: "x \<in> M - {c}" "x \<notin> K"
    then have two: "card {c, x} = 2" by auto
    have "K \<subseteq> insert n (M - {c, x})" using x assms(4) gone by blast
    then have "card K \<le> Suc (card (M - {c, x}))"
      using assms(1) card_mono [of "insert n (M - {c, x})" K] card_insert_le_m1 [of "Suc (card (M - {c, x}))" "M - {c, x}" n] by simp
    moreover have "card (M - {c, x}) = card M - 2" and "2 \<le> card M"
      using x assms(1,3) card_mono [of M "{c, x}"] two by (simp_all add: card_Diff_subset)
    ultimately show False using k assms(6) by simp
  qed
qed

text \<open>What a rotation leaves of the scanned directory.\<close>

lemma rotation_prunes:
  assumes "writer_inv w d" "rotateLocked os w d = (None, w', d')" "full_scan os w d"
  shows "gm_keys d' \<subseteq> gm_keys (scanned os w d)"
    and "card {n \<in> gm_keys d'. capture_name n} =
      min (nat (MaxFiles (cw_cfg w))) (card {n \<in> gm_keys (scanned os w d). capture_name n})"
    and "x \<in> gm_keys (scanned os w d) \<Longrightarrow> x \<notin> gm_keys d' \<Longrightarrow> y \<in> gm_keys d' \<Longrightarrow> capture_name y \<Longrightarrow>
      y \<noteq> fname (curFileN w + 1) \<Longrightarrow> x < y"
    and "fname (curFileN w + 1) \<in> gm_keys d'"
proof -
  let ?new = "fname (curFileN w + 1)"
  have inv: "gm_wf d" "1 \<le> MaxFiles (cw_cfg w)" using assms(1) by (auto simp: writer_inv_def)
  have mx: "max 1 (MaxFiles (cw_cfg w)) = MaxFiles (cw_cfg w)" using inv by simp
  obtain ord where e: "gm_enum ord (scanned os w d)" "d' = cleanup_scan (\<lambda>_. True) ?new (MaxFiles (cw_cfg w)) ord (scanned os w d)"
      and rn: "curFileN w' = curFileN w + 1"
    using rotate_scanned [OF assms(2,3)] by blast
  have len: "length (scanned os w d) \<le> maxCleanupEntries" using assms(3) by (simp add: full_scan_def)
  note wf = scanned_wf [OF inv(1), of os w]
  show "gm_keys d' \<subseteq> gm_keys (scanned os w d)"
    by (rule captures.cleanup_keys [of ?new "MaxFiles (cw_cfg w)" ord "scanned os w d", unfolded mx, folded e(2)])
  show "card {n \<in> gm_keys d'. capture_name n} = min (nat (MaxFiles (cw_cfg w))) (card {n \<in> gm_keys (scanned os w d). capture_name n})"
    using captures.count [OF wf e(1) len, of ?new "MaxFiles (cw_cfg w)", unfolded mx, folded e(2)] by simp
  show "x \<in> gm_keys (scanned os w d) \<Longrightarrow> x \<notin> gm_keys d' \<Longrightarrow> y \<in> gm_keys d' \<Longrightarrow> capture_name y \<Longrightarrow> y \<noteq> ?new \<Longrightarrow> x < y"
    using captures.oldest [OF wf e(1) len, of x ?new "MaxFiles (cw_cfg w)" y, unfolded mx, folded e(2)] by simp
  show "?new \<in> gm_keys d'" using rotate_inv [OF assms(1,2)] rn by (auto dest: gm_lookup_Some_key)
qed

text \<open>The current file is the one the arithmetic removal takes only when a single file is kept.\<close>

lemma current_taken_first:
  assumes "writer_inv w d" "fname (curFileN w) \<in> gm_keys d" "fname (curFileN w) \<notin> gm_keys (scanned os w d)"
    and "nat (MaxFiles (cw_cfg w)) = card {n \<in> gm_keys d. capture_name n}"
  shows "{n \<in> gm_keys d. capture_name n} - {fname (curFileN w)} = {}"
proof -
  let ?M = "{n \<in> gm_keys d. capture_name n}"
  have nn: "0 \<le> curFileN w" using assms(1) by (simp add: writer_inv_def)
  have a: "1 \<le> old_index w" "fname (curFileN w) = fname (old_index w)" using own_removed_current [OF assms(3,2)] by blast+
  have "curFileN w = old_index w" by (rule iffD1 [OF fname_inj a(2)]) (use nn a(1) in linarith)+
  then have "card ?M = 1" using assms(4) by simp
  moreover have "fname (curFileN w) \<in> ?M" using assms(2) by (intro CollectI conjI fname_capture)
  moreover have "finite ?M" by (simp only: finite_Collect_conjI finite_imageI List.finite_set disjI1 Collect_mem_eq)
  ultimately show ?thesis by (metis card_0_eq card_Diff_singleton diff_self_eq_0 finite_Diff)
qed

text \<open>
  C39. Captures left by an earlier run displace the new ones. The index restarts at zero with the
  process, so as long as all other captures have higher names and there are at least
  \<open>MaxFiles - 1\<close> of them, a rotation removes the capture that was just completed; and when
  there are exactly that many, all the older files stay.\<close>
theorem restart_discards_new_captures:
  assumes "writer_inv w d" "cw_file w" "rotateLocked os w d = (None, w', d')" "full_scan os w d" "curFileN w + 1 < 100000"
    and "\<forall>n \<in> gm_keys d. capture_name n \<and> n \<noteq> fname (curFileN w) \<longrightarrow> fname (curFileN w + 1) < n"
    and "nat (MaxFiles (cw_cfg w)) \<le> card {n \<in> gm_keys d. capture_name n}"
  shows "fname (curFileN w) \<in> gm_keys d \<and> fname (curFileN w) \<notin> gm_keys d' \<and>
    (nat (MaxFiles (cw_cfg w)) = card {n \<in> gm_keys d. capture_name n} \<longrightarrow>
      {n \<in> gm_keys d. capture_name n} - {fname (curFileN w)} \<subseteq> gm_keys d')"
proof -
  let ?cur = "fname (curFileN w)" and ?new = "fname (curFileN w + 1)" and ?k = "nat (MaxFiles (cw_cfg w))"
  let ?M = "{n \<in> gm_keys d. capture_name n}" and ?K = "{n \<in> gm_keys d'. capture_name n}"
  have nn: "0 \<le> curFileN w" and cur: "?cur \<in> gm_keys d"
    using assms(1,2) by (auto simp: writer_inv_def dest: gm_lookup_Some_key)
  have lt: "?cur < ?new" using nn assms(5) by (intro fname_less) auto
  have newM: "?new \<notin> ?M" using assms(6) fname_capture lt by fastforce
  note prunes = rotation_prunes [OF assms(1,3,4)]
  have curM: "?cur \<in> ?M" using cur by (intro CollectI conjI fname_capture)
  have fin: "finite ?M" by (simp only: finite_Collect_conjI finite_imageI List.finite_set disjI1 Collect_mem_eq)
  have goal: "?cur \<notin> ?K \<and> (?k = card ?M \<longrightarrow> ?M - {?cur} \<subseteq> ?K)"
  proof (cases "?cur \<in> gm_keys (scanned os w d)")
    case False
    have "?M - {?cur} \<subseteq> ?K" if "?k = card ?M"
      unfolding current_taken_first [OF assms(1) cur False that] by (rule empty_subsetI)
    with False prunes(1) show ?thesis by blast
  next
    case True
    have keys: "gm_keys (scanned os w d) = insert ?new (gm_keys d)" by (rule scanned_keys [OF assms(1,5) True assms(6)])
    have sc: "{n \<in> gm_keys (scanned os w d). capture_name n} = insert ?new ?M" unfolding keys using fname_capture by blast
    have cK: "card ?K = ?k" using prunes(2) assms(7) card_insert_disjoint [OF fin newM] unfolding sc by simp
    have newK: "?new \<in> ?K" using prunes(4) fname_capture by simp
    show ?thesis
    proof (rule lowest_is_removed [OF fin newM curM _ newK cK assms(7) lt])
      show "?K \<subseteq> insert ?new ?M" using prunes(1) unfolding keys by blast
      show "x \<in> ?M \<Longrightarrow> x \<noteq> ?cur \<Longrightarrow> ?new < x" for x using assms(6) by blast
      show "x < y" if "x \<in> insert ?new ?M" "x \<notin> ?K" "y \<in> ?K" "y \<noteq> ?new" for x y
      proof (rule prunes(3))
        have "capture_name x" using that(1) fname_capture by (elim insertE) simp_all
        then show "x \<notin> gm_keys d'" using that(2) by simp
        show "x \<in> gm_keys (scanned os w d)" unfolding keys using that(1) by (simp, argo)
      qed (use that in simp_all)
    qed
  qed
  then have "?cur \<notin> gm_keys d'" using fname_capture [of "curFileN w"] by blast
  moreover have "?K \<subseteq> gm_keys d'" by (rule Collect_subset)
  ultimately show ?thesis using goal cur by (meson subset_trans)
qed

section \<open>Samples\<close>

text \<open>A run that restarted with one capture of index 8 left, and has filled its first file.\<close>

definition sample_capture_os :: capture_os where
  "sample_capture_os = \<lparr>co_lstat = (\<lambda>_. NotSymlink), co_mkdir_ok = True, co_create_ok = True, co_header_ok = True,
     co_written = None, co_dir = Some [fname 8, fname 1, fname 2], co_removes = (\<lambda>_. True)\<rparr>"

definition sample_writer :: Writer where
  "sample_writer = \<lparr>cw_cfg = \<lparr>CaptureDir = ''/c'', MaxFiles = 2, MaxPackets = 1\<rparr>, cw_file = True, curFileN = 1, pktCount = 1, cw_closed = False\<rparr>"

definition sample_captures :: capture_dir where
  "sample_captures = [(fname 1, [Whole [1]]), (fname 8, [])]"

lemma sample_fnames: "fname 1 \<noteq> fname 8" "fname 8 \<noteq> fname 1" "fname 2 \<noteq> fname 1" "fname 1 \<noteq> fname 2" "fname 2 \<noteq> fname 8" "fname 8 \<noteq> fname 2"
  by (simp_all add: fname_inj)

lemma sample_writer_inv: "writer_inv sample_writer sample_captures"
  by (simp add: writer_inv_def sample_writer_def sample_captures_def gm_wf_def sample_fnames)

lemma sample_dir_ok: "RejectSymlinkComponents (\<lambda>_. NotSymlink) ''/c'' = None"
  by (simp add: RejectSymlinkComponents_def Clean_def IsAbs_def Join2_def)

lemma sample_scanned: "scanned sample_capture_os sample_writer sample_captures = [(fname 1, [Whole [1]]), (fname 8, []), (fname 2, [])]"
  by (simp add: scanned_def remove_own_def sample_writer_def sample_captures_def sample_fnames)

lemma sample_full_scan: "full_scan sample_capture_os sample_writer sample_captures"
  unfolding full_scan_def sample_scanned
  by (simp add: sample_capture_os_def maxCleanupEntries_def gm_enum_def sample_fnames) auto

lemma sample_rotates: "\<exists>w' d'. rotateLocked sample_capture_os sample_writer sample_captures = (None, w', d')"
  by (simp add: rotateLocked_def sample_writer_def sample_capture_os_def sample_dir_ok Let_def)

theorem capture_writer_invariant_witness:
  "\<exists>r w' d'. WriteBlock sample_capture_os [7] (Some sample_writer) sample_captures = (r, Some w', d') \<and> writer_inv w' d' \<and> small_packets d'"
proof -
  obtain r wo d' where "WriteBlock sample_capture_os [7] (Some sample_writer) sample_captures = (r, wo, d')"
    by (metis prod.exhaust)
  moreover have "small_packets sample_captures"
    by (auto simp: small_packets_def sample_captures_def maxPacketSize_def split: if_splits)
  ultimately show ?thesis using capture_writer_invariant [OF sample_writer_inv] by blast
qed

theorem captures_bounded_witness:
  "\<exists>w' d'. rotateLocked sample_capture_os sample_writer sample_captures = (None, w', d') \<and>
     card {n \<in> gm_keys d'. capture_name n} \<le> 2"
proof -
  obtain w' d' where r: "rotateLocked sample_capture_os sample_writer sample_captures = (None, w', d')"
    using sample_rotates by blast
  moreover have "nat (MaxFiles (cw_cfg sample_writer)) = 2" by (simp add: sample_writer_def)
  ultimately show ?thesis using captures_bounded [OF sample_writer_inv r sample_full_scan] by auto
qed

theorem restart_discards_new_captures_witness:
  "\<exists>w' d'. rotateLocked sample_capture_os sample_writer sample_captures = (None, w', d') \<and>
     fname 1 \<in> gm_keys sample_captures \<and> fname 1 \<notin> gm_keys d'"
proof -
  obtain w' d' where r: "rotateLocked sample_capture_os sample_writer sample_captures = (None, w', d')"
    using sample_rotates by blast
  have n: "curFileN sample_writer = 1" "cw_file sample_writer" "nat (MaxFiles (cw_cfg sample_writer)) = 2"
    by (simp_all add: sample_writer_def)
  have "fname 2 < fname 8" by (rule fname_less) simp_all
  then have hi: "\<forall>n \<in> gm_keys sample_captures. capture_name n \<and> n \<noteq> fname (curFileN sample_writer) \<longrightarrow> fname (curFileN sample_writer + 1) < n"
    by (simp add: n sample_captures_def)
  have "{n \<in> gm_keys sample_captures. capture_name n} = {fname 1, fname 8}" by (auto simp: sample_captures_def)
  then have "card {n \<in> gm_keys sample_captures. capture_name n} = 2" by (simp add: sample_fnames)
  then have "nat (MaxFiles (cw_cfg sample_writer)) \<le> card {n \<in> gm_keys sample_captures. capture_name n}" by (simp add: n)
  from restart_discards_new_captures [OF sample_writer_inv n(2) r sample_full_scan _ hi this] n(1) r show ?thesis by auto
qed

end
