(* ===== verification/GoJSON.thy ===== *)
theory GoJSON
  imports Rotation "HOL-Library.Word"
begin

text \<open>
  The parts of Go's \<open>encoding/json\<close> the program uses to keep its counters and to post
  alerts: writing and reading strings (with UTF-8, escapes and the HTML-safe set), the grammar
  of values with the nesting limit of the decoder, 64-bit integers, and objects whose members
  are encoded values.
\<close>

section \<open>UTF-8\<close>

abbreviation code :: "char \<Rightarrow> nat" where "code c \<equiv> of_char c"

definition byte_in :: "nat \<Rightarrow> nat \<Rightarrow> nat \<Rightarrow> string \<Rightarrow> bool" where
  "byte_in i lo hi s \<longleftrightarrow> i < length s \<and> lo \<le> code (s ! i) \<and> code (s ! i) \<le> hi"

text \<open>The characters of two, three and four bytes (no overlong forms, no surrogates, at most U+10FFFF).\<close>

definition utf8_two :: "string \<Rightarrow> bool" where
  "utf8_two s \<longleftrightarrow> byte_in 0 0xC2 0xDF s \<and> byte_in 1 0x80 0xBF s"

definition utf8_three :: "string \<Rightarrow> bool" where
  "utf8_three s \<longleftrightarrow>
     (byte_in 0 0xE0 0xE0 s \<and> byte_in 1 0xA0 0xBF s \<or> byte_in 0 0xE1 0xEC s \<and> byte_in 1 0x80 0xBF s \<or>
      byte_in 0 0xED 0xED s \<and> byte_in 1 0x80 0x9F s \<or> byte_in 0 0xEE 0xEF s \<and> byte_in 1 0x80 0xBF s) \<and>
     byte_in 2 0x80 0xBF s"

definition utf8_four :: "string \<Rightarrow> bool" where
  "utf8_four s \<longleftrightarrow>
     (byte_in 0 0xF0 0xF0 s \<and> byte_in 1 0x90 0xBF s \<or> byte_in 0 0xF1 0xF3 s \<and> byte_in 1 0x80 0xBF s \<or>
      byte_in 0 0xF4 0xF4 s \<and> byte_in 1 0x80 0x8F s) \<and> byte_in 2 0x80 0xBF s \<and> byte_in 3 0x80 0xBF s"

text \<open>The length of the character encoded at the start of a string; 0 when there is none.\<close>

definition utf8_len :: "string \<Rightarrow> nat" where
  "utf8_len s =
     (if byte_in 0 0 0x7F s then 1 else if utf8_two s then 2 else if utf8_three s then 3 else if utf8_four s then 4 else 0)"

text \<open>The characters of a string; a byte that starts none stands alone.\<close>

function runes :: "string \<Rightarrow> string list" where
  "runes s = (if s = [] then [] else (let k = max 1 (utf8_len s) in take k s # runes (drop k s)))"
  by pat_completeness auto
termination by (relation "measure length") auto

declare runes.simps [simp del]

definition valid_utf8 :: "string \<Rightarrow> bool" where
  "valid_utf8 s = list_all (\<lambda>r. utf8_len r \<noteq> 0) (runes s)"

text \<open>The encoding of a code point (\<open>utf8.AppendRune\<close>).\<close>

definition utf8_encode :: "nat \<Rightarrow> string" where
  "utf8_encode r =
     map char_of
      (if r < 0x80 then [r]
       else if r < 0x800 then [0xC0 + r div 64, 0x80 + r mod 64]
       else if r < 0x10000 then [0xE0 + r div 4096, 0x80 + r div 64 mod 64, 0x80 + r mod 64]
       else [0xF0 + r div 262144, 0x80 + r div 4096 mod 64, 0x80 + r div 64 mod 64, 0x80 + r mod 64])"

definition replacement :: string where
  "replacement = [CHR 0xEF, CHR 0xBF, CHR 0xBD]"

section \<open>Strings\<close>

definition quote_char :: char where "quote_char = CHR 0x22"

definition backslash :: char where "backslash = CHR 0x5C"

definition html_safe :: "char \<Rightarrow> bool" where
  "html_safe c \<longleftrightarrow> 0x20 \<le> code c \<and> code c < 0x80 \<and> c \<noteq> quote_char \<and> c \<noteq> backslash \<and>
     c \<noteq> CHR ''<'' \<and> c \<noteq> CHR ''>'' \<and> c \<noteq> CHR ''&''"

definition hex_digit :: "nat \<Rightarrow> char" where
  "hex_digit d = digit_char d"

definition escape_ascii :: "char \<Rightarrow> string" where
  "escape_ascii c =
     (if c = backslash \<or> c = quote_char then [backslash, c]
      else if c = CHR 0x08 then [backslash, CHR ''b'']
      else if c = CHR 0x0C then [backslash, CHR ''f'']
      else if c = CHR 0x0A then [backslash, CHR ''n'']
      else if c = CHR 0x0D then [backslash, CHR ''r'']
      else if c = CHR 0x09 then [backslash, CHR ''t'']
      else backslash # ''u00'' @ [hex_digit (code c div 16), hex_digit (code c mod 16)])"

definition enc_rune :: "string \<Rightarrow> string" where
  "enc_rune r =
     (if utf8_len r = 0 then backslash # ''ufffd''
      else if length r = 1 then (if html_safe (hd r) then r else escape_ascii (hd r))
      else if r = [CHR 0xE2, CHR 0x80, CHR 0xA8] then backslash # ''u2028''
      else if r = [CHR 0xE2, CHR 0x80, CHR 0xA9] then backslash # ''u2029''
      else r)"

definition enc_string :: "string \<Rightarrow> string" where
  "enc_string s = quote_char # concat (map enc_rune (runes s)) @ [quote_char]"

definition hex4 :: "string \<Rightarrow> nat option" where
  "hex4 s =
     (if length s < 4 then None
      else (case (hex_val (s ! 0), hex_val (s ! 1), hex_val (s ! 2), hex_val (s ! 3)) of
              (Some a, Some b, Some c, Some d) \<Rightarrow> Some (a * 4096 + b * 256 + c * 16 + d)
            | _ \<Rightarrow> None))"

definition simple_escape :: "char \<Rightarrow> char option" where
  "simple_escape c =
     (if c = quote_char \<or> c = backslash \<or> c = CHR ''/'' then Some c
      else if c = CHR ''b'' then Some (CHR 0x08)
      else if c = CHR ''f'' then Some (CHR 0x0C)
      else if c = CHR ''n'' then Some (CHR 0x0A)
      else if c = CHR ''r'' then Some (CHR 0x0D)
      else if c = CHR ''t'' then Some (CHR 0x09)
      else None)"

text \<open>
  A unicode escape, from the four digits on: the bytes it stands for and how much input it takes.
  A surrogate needs its other half; alone it is replaced.
\<close>

definition unicode_escape :: "string \<Rightarrow> (string \<times> nat) option" where
  "unicode_escape s =
     (case hex4 s of
        None \<Rightarrow> None
      | Some r \<Rightarrow>
          if r < 0xD800 \<or> 0xE000 \<le> r then Some (utf8_encode r, 4)
          else (case (if take 2 (drop 4 s) = [backslash, CHR ''u''] then hex4 (drop 6 s) else None) of
                  Some r2 \<Rightarrow>
                    if r < 0xDC00 \<and> 0xDC00 \<le> r2 \<and> r2 < 0xE000
                    then Some (utf8_encode ((r - 0xD800) * 1024 + (r2 - 0xDC00) + 0x10000), 10)
                    else Some (replacement, 4)
                | None \<Rightarrow> Some (replacement, 4)))"

definition prepend :: "string \<Rightarrow> (string \<times> string) option \<Rightarrow> (string \<times> string) option" where
  "prepend x r = map_option (\<lambda>(a, rest). (x @ a, rest)) r"

text \<open>
  One step through a string literal: its end, an error, or the bytes the next character or escape
  stands for, with the number of input bytes it takes after its first one.
\<close>

datatype str_step = StrEnd | StrBad | StrBytes string nat

definition str_step :: "char \<Rightarrow> string \<Rightarrow> str_step" where
  "str_step c s =
     (if c = quote_char then StrEnd
      else if c = backslash then
        (case s of
           [] \<Rightarrow> StrBad
         | e # s' \<Rightarrow>
             if e = CHR ''u'' then
               (case unicode_escape s' of None \<Rightarrow> StrBad | Some (x, k) \<Rightarrow> StrBytes x (Suc k))
             else (case simple_escape e of None \<Rightarrow> StrBad | Some x \<Rightarrow> StrBytes [x] 1))
      else if code c < 0x20 then StrBad
      else if utf8_len (c # s) = 0 then StrBytes replacement 0
      else StrBytes (take (utf8_len (c # s)) (c # s)) (utf8_len (c # s) - 1))"

text \<open>The rest of a string literal, after its opening quote.\<close>

function dec_string :: "string \<Rightarrow> (string \<times> string) option" where
  "dec_string [] = None"
| "dec_string (c # s) =
     (case str_step c s of
        StrEnd \<Rightarrow> Some ([], s)
      | StrBad \<Rightarrow> None
      | StrBytes x k \<Rightarrow> prepend x (dec_string (drop k s)))"
  by pat_completeness auto
termination by (relation "measure length") auto

declare dec_string.simps [simp del]

section \<open>Lemmas on strings\<close>

lemma byte_in_append: "Suc i \<le> length r \<Longrightarrow> byte_in i lo hi (r @ t) = byte_in i lo hi r"
  by (simp add: byte_in_def nth_append)

lemma utf8_lengths: "byte_in 0 lo hi s \<Longrightarrow> 1 \<le> length s" "utf8_two s \<Longrightarrow> 2 \<le> length s"
  "utf8_three s \<Longrightarrow> 3 \<le> length s" "utf8_four s \<Longrightarrow> 4 \<le> length s"
  by (auto simp: byte_in_def utf8_two_def utf8_three_def utf8_four_def Suc_le_eq)

lemma utf8_len_le: "utf8_len s \<le> length s"
  using utf8_lengths(1) [of 0 "0x7F" s] utf8_lengths(2-4) [of s] by (simp add: utf8_len_def)

lemma utf8_two_append: "2 \<le> length r \<Longrightarrow> utf8_two (r @ t) = utf8_two r"
  by (simp add: utf8_two_def byte_in_append)

lemma utf8_three_append: "3 \<le> length r \<Longrightarrow> utf8_three (r @ t) = utf8_three r"
  by (simp add: utf8_three_def byte_in_append)

lemma utf8_four_append: "4 \<le> length r \<Longrightarrow> utf8_four (r @ t) = utf8_four r"
  by (simp add: utf8_four_def byte_in_append)

lemma utf8_first:
  "byte_in 0 0 0x7F s \<Longrightarrow> code (hd s) < 0x80" "utf8_two s \<Longrightarrow> 0xC2 \<le> code (hd s) \<and> code (hd s) \<le> 0xDF"
  "utf8_three s \<Longrightarrow> 0xE0 \<le> code (hd s) \<and> code (hd s) \<le> 0xEF" "utf8_four s \<Longrightarrow> 0xF0 \<le> code (hd s)"
  by (cases s; auto simp: byte_in_def utf8_two_def utf8_three_def utf8_four_def)+

text \<open>The first byte decides the length.\<close>

lemma utf8_len_eqs:
  "byte_in 0 0 0x7F s \<Longrightarrow> utf8_len s = 1" "utf8_two s \<Longrightarrow> utf8_len s = 2"
  "utf8_three s \<Longrightarrow> utf8_len s = 3" "utf8_four s \<Longrightarrow> utf8_len s = 4"
  using utf8_first [of s] by (fastforce simp: utf8_len_def)+

lemma utf8_len_append:
  assumes "utf8_len r = length r" "r \<noteq> []"
  shows "utf8_len (r @ t) = length r"
proof -
  consider "byte_in 0 0 0x7F r" "length r = 1" | "utf8_two r" "length r = 2" | "utf8_three r" "length r = 3" | "utf8_four r" "length r = 4"
    using assms by (auto simp: utf8_len_def split: if_splits)
  then show ?thesis
    by cases (simp_all add: utf8_len_eqs byte_in_append utf8_two_append utf8_three_append utf8_four_append)
qed

lemma utf8_len_ascii: "code c < 0x80 \<Longrightarrow> utf8_len (c # s) = 1"
  by (simp add: utf8_len_def byte_in_def)

lemma utf8_len_take: "utf8_len s \<noteq> 0 \<Longrightarrow> utf8_len (take (utf8_len s) s) = utf8_len s"
proof -
  assume "utf8_len s \<noteq> 0"
  let ?k = "utf8_len s"
  have len: "length (take ?k s) = ?k" using utf8_len_le [of s] by simp
  consider "byte_in 0 0 0x7F s" "?k = 1" | "utf8_two s" "?k = 2" | "utf8_three s" "?k = 3" | "utf8_four s" "?k = 4"
    using \<open>?k \<noteq> 0\<close> by (auto simp: utf8_len_def split: if_splits)
  then have "byte_in 0 0 0x7F (take ?k s) \<and> ?k = 1 \<or> utf8_two (take ?k s) \<and> ?k = 2 \<or> utf8_three (take ?k s) \<and> ?k = 3 \<or> utf8_four (take ?k s) \<and> ?k = 4"
    using byte_in_append [of 0 "take ?k s" 0 "0x7F" "drop ?k s"] utf8_two_append [of "take ?k s" "drop ?k s"]
      utf8_three_append [of "take ?k s" "drop ?k s"] utf8_four_append [of "take ?k s" "drop ?k s"] len
    by cases simp_all
  then show ?thesis using utf8_len_eqs [of "take ?k s"] by metis
qed

lemma special_codes [simp]: "code quote_char = 0x22" "code backslash = 0x5C" "quote_char \<noteq> backslash" "backslash \<noteq> quote_char"
  by (simp_all add: quote_char_def backslash_def)

lemma prepend_simps [simp]: "prepend x (Some (a, t)) = Some (x @ a, t)" "prepend x None = None"
  by (simp_all add: prepend_def)

lemma dec_string_step: "str_step c s = StrBytes x k \<Longrightarrow> dec_string (c # s) = prepend x (dec_string (drop k s))"
  by (simp add: dec_string.simps)

lemma dec_string_end [simp]: "dec_string (quote_char # s) = Some ([], s)"
  by (simp add: dec_string.simps str_step_def)

lemma dec_string_plain:
  assumes "utf8_len r = length r" "r \<noteq> []" "0x20 \<le> code (hd r)" "hd r \<noteq> quote_char" "hd r \<noteq> backslash"
  shows "dec_string (r @ t) = prepend r (dec_string t)"
proof -
  obtain c r' where r: "r = c # r'" using assms(2) by (cases r) auto
  have len: "utf8_len (c # r' @ t) = Suc (length r')" using utf8_len_append [OF assms(1,2), of t] r by simp
  have "str_step c (r' @ t) = StrBytes r (length r')"
    using assms r by (simp add: str_step_def len)
  from dec_string_step [OF this] r show ?thesis by simp
qed

lemma dec_simple_escape:
  assumes "simple_escape e = Some x" "e \<noteq> CHR ''u''"
  shows "dec_string (backslash # e # t) = prepend [x] (dec_string t)"
proof -
  have "str_step backslash (e # t) = StrBytes [x] 1" using assms by (simp add: str_step_def)
  from dec_string_step [OF this] show ?thesis by simp
qed

lemma dec_unicode_escape:
  assumes "hex4 (h @ t) = Some r" "length h = 4" "r < 0xD800"
  shows "dec_string (backslash # CHR ''u'' # h @ t) = prepend (utf8_encode r) (dec_string t)"
proof -
  have "str_step backslash (CHR ''u'' # h @ t) = StrBytes (utf8_encode r) 5"
    using assms by (simp add: str_step_def unicode_escape_def)
  from dec_string_step [OF this] assms(2) show ?thesis by simp
qed

lemma hex4_append: "length h = 4 \<Longrightarrow> hex4 (h @ t) = hex4 h"
  by (simp add: hex4_def nth_append)

lemma hex4_byte: "n < 256 \<Longrightarrow> hex4 [CHR ''0'', CHR ''0'', hex_digit (n div 16), hex_digit (n mod 16)] = Some n"
proof -
  assume "n < 256"
  then have "n div 16 < 16" by (simp add: div_less_iff_less_mult)
  moreover have "hex_val (CHR ''0'') = Some 0" by (simp add: hex_val_def)
  ultimately show ?thesis
    using div_mult_mod_eq [of n 16] by (simp add: hex4_def hex_digit_def numeral_2_eq_2 numeral_3_eq_3)
qed

lemma dec_escape_ascii:
  assumes "code c < 0x80"
  shows "dec_string (escape_ascii c @ t) = prepend [c] (dec_string t)"
proof -
  have simple: "dec_string (backslash # e # t) = prepend [x] (dec_string t)"
    if "(e, x) \<in> {(quote_char, quote_char), (backslash, backslash), (CHR ''b'', CHR 0x08), (CHR ''f'', CHR 0x0C),
        (CHR ''n'', CHR 0x0A), (CHR ''r'', CHR 0x0D), (CHR ''t'', CHR 0x09)}" for e x
    using that by (intro dec_simple_escape) (auto simp: simple_escape_def quote_char_def backslash_def)
  have "dec_string (backslash # CHR ''u'' # [CHR ''0'', CHR ''0'', hex_digit (code c div 16), hex_digit (code c mod 16)] @ t)
      = prepend (utf8_encode (code c)) (dec_string t)"
    using assms hex4_byte [of "code c"] by (intro dec_unicode_escape) (simp_all add: hex4_append del: append.simps)
  moreover have "utf8_encode (code c) = [c]" using assms by (simp add: utf8_encode_def)
  ultimately show ?thesis using simple by (auto simp: escape_ascii_def)
qed

lemma separator_digits: "hex4 ''2028'' = Some 0x2028" "hex4 ''2029'' = Some 0x2029"
  by (simp_all add: hex4_def hex_val_def numeral_2_eq_2 numeral_3_eq_3)

lemma separator_bytes:
  "utf8_encode 0x2028 = [CHR 0xE2, CHR 0x80, CHR 0xA8]" "utf8_encode 0x2029 = [CHR 0xE2, CHR 0x80, CHR 0xA9]"
  by (simp_all add: utf8_encode_def char_of_def bit_0)

lemmas line_separators = separator_digits separator_bytes

lemma dec_rune:
  assumes "utf8_len r = length r" "r \<noteq> []"
  shows "dec_string (enc_rune r @ t) = prepend r (dec_string t)"
proof (cases "length r = 1")
  case True
  then obtain c where r: "r = [c]" by (cases r) auto
  have c: "code c < 0x80" using assms r True by (auto simp: utf8_len_def byte_in_def split: if_splits dest: utf8_lengths)
  show ?thesis
  proof (cases "html_safe c")
    case True
    then have "enc_rune r = r" using assms r by (simp add: enc_rune_def)
    with True dec_string_plain [OF assms, of t] r show ?thesis by (simp add: html_safe_def)
  next
    case False
    then have "enc_rune r = escape_ascii c" using assms r by (simp add: enc_rune_def)
    with dec_escape_ascii [OF c] r show ?thesis by simp
  qed
next
  case False
  have hi: "0x80 \<le> code (hd r)"
    using assms False utf8_first [of r] by (auto simp: utf8_len_def split: if_splits)
  have plain: "dec_string (r @ t) = prepend r (dec_string t)"
    using hi by (intro dec_string_plain assms) (auto simp: quote_char_def backslash_def)
  have sep: "dec_string (backslash # CHR ''u'' # ''2028'' @ t) = prepend [CHR 0xE2, CHR 0x80, CHR 0xA8] (dec_string t)"
    "dec_string (backslash # CHR ''u'' # ''2029'' @ t) = prepend [CHR 0xE2, CHR 0x80, CHR 0xA9] (dec_string t)"
    using dec_unicode_escape [of "''2028''" t "0x2028"] dec_unicode_escape [of "''2029''" t "0x2029"]
    unfolding line_separators by (simp_all add: hex4_append line_separators del: append.simps)
  show ?thesis using plain sep False assms by (auto simp: enc_rune_def)
qed

lemma valid_utf8_head:
  assumes "valid_utf8 s" "s \<noteq> []"
  shows "utf8_len s \<noteq> 0 \<and> valid_utf8 (drop (utf8_len s) s)"
proof -
  have r: "runes s = take (max 1 (utf8_len s)) s # runes (drop (max 1 (utf8_len s)) s)"
    using assms(2) by (subst runes.simps) (simp add: Let_def)
  have nz: "utf8_len s \<noteq> 0"
  proof
    assume z: "utf8_len s = 0"
    obtain c s' where s: "s = c # s'" using assms(2) by (cases s) auto
    have "utf8_len [c] \<noteq> 0" using assms(1) r z s by (simp add: valid_utf8_def)
    then have "code c < 0x80" by (auto simp: utf8_len_def byte_in_def split: if_splits dest: utf8_lengths)
    then show False using z s utf8_len_ascii [of c s'] by simp
  qed
  then have "max (Suc 0) (utf8_len s) = utf8_len s" by simp
  with assms(1) r nz show ?thesis by (simp add: valid_utf8_def)
qed

lemma dec_enc_chars: "valid_utf8 s \<Longrightarrow> dec_string (concat (map enc_rune (runes s)) @ quote_char # t) = Some (s, t)"
proof (induction s rule: runes.induct)
  case (1 s)
  show ?case
  proof (cases "s = []")
    case True
    then show ?thesis by (simp add: runes.simps)
  next
    case False
    let ?k = "utf8_len s"
    have v: "?k \<noteq> 0" "valid_utf8 (drop ?k s)" using valid_utf8_head [OF "1.prems" False] by simp_all
    have k: "max (Suc 0) ?k = ?k" using v(1) by simp
    have r: "runes s = take ?k s # runes (drop ?k s)" using False by (subst runes.simps) (simp add: Let_def k)
    have "utf8_len (take ?k s) = length (take ?k s)" using utf8_len_take [OF v(1)] utf8_len_le [of s] by simp
    moreover have "take ?k s \<noteq> []" using False v(1) by simp
    ultimately have "dec_string (enc_rune (take ?k s) @ u) = prepend (take ?k s) (dec_string u)" for u by (rule dec_rune)
    moreover have "dec_string (concat (map enc_rune (runes (drop ?k s))) @ quote_char # t) = Some (drop ?k s, t)"
      using "1.IH" [OF False] v(2) k by simp
    ultimately show ?thesis by (simp add: r)
  qed
qed

lemma dec_string_shorter: "dec_string s = Some (x, r) \<Longrightarrow> length r < length s"
proof (induction s arbitrary: x rule: dec_string.induct)
  case (2 c s)
  then show ?case
    by (auto simp: dec_string.simps prepend_def split: str_step.splits) fastforce
qed (simp add: dec_string.simps)

section \<open>Values\<close>

datatype json = JNull | JBool bool | JNum string | JStr string | JArr "json list" | JObj "(string \<times> json) list"

definition skip_ws :: "string \<Rightarrow> string" where
  "skip_ws s = dropWhile (\<lambda>c. c = CHR 0x20 \<or> c = CHR 0x09 \<or> c = CHR 0x0A \<or> c = CHR 0x0D) s"

definition is_digit :: "char \<Rightarrow> bool" where
  "is_digit c \<longleftrightarrow> dec_val c \<noteq> None"

text \<open>The parts of a number literal: digits, fraction, exponent.\<close>

definition digits1 :: "string \<Rightarrow> (string \<times> string) option" where
  "digits1 s = (if takeWhile is_digit s = [] then None else Some (takeWhile is_digit s, dropWhile is_digit s))"

definition num_int :: "string \<Rightarrow> (string \<times> string) option" where
  "num_int s =
     (case s of
        [] \<Rightarrow> None
      | c # r \<Rightarrow> if c = CHR ''0'' then Some ([c], r) else digits1 s)"

definition num_frac :: "string \<Rightarrow> (string \<times> string) option" where
  "num_frac s =
     (case s of
        c # r \<Rightarrow> if c = CHR ''.'' then prepend [c] (digits1 r) else Some ([], s)
      | [] \<Rightarrow> Some ([], s))"

definition num_exp :: "string \<Rightarrow> (string \<times> string) option" where
  "num_exp s =
     (case s of
        c # r \<Rightarrow>
          if c = CHR ''e'' \<or> c = CHR ''E'' then
            (case r of
               d # r' \<Rightarrow> if d = CHR ''+'' \<or> d = CHR ''-'' then prepend [c, d] (digits1 r') else prepend [c] (digits1 r)
             | [] \<Rightarrow> None)
          else Some ([], s)
      | [] \<Rightarrow> Some ([], s))"

definition num_sign :: "string \<Rightarrow> string \<times> string" where
  "num_sign s = (if HasPrefix s ''-'' then (''-'', drop 1 s) else ([], s))"

definition num_lit :: "string \<Rightarrow> (string \<times> string) option" where
  "num_lit s =
     (case num_int (snd (num_sign s)) of
        None \<Rightarrow> None
      | Some (i, s2) \<Rightarrow>
          (case num_frac s2 of
             None \<Rightarrow> None
           | Some (f, s3) \<Rightarrow>
               (case num_exp s3 of None \<Rightarrow> None | Some (e, s4) \<Rightarrow> Some (fst (num_sign s) @ i @ f @ e, s4))))"

definition parse_scalar :: "string \<Rightarrow> (json \<times> string) option" where
  "parse_scalar s =
     (if HasPrefix s ''null'' then Some (JNull, drop 4 s)
      else if HasPrefix s ''true'' then Some (JBool True, drop 4 s)
      else if HasPrefix s ''false'' then Some (JBool False, drop 5 s)
      else if HasPrefix s [quote_char] then map_option (\<lambda>(x, r). (JStr x, r)) (dec_string (drop 1 s))
      else map_option (\<lambda>(x, r). (JNum x, r)) (num_lit s))"

text \<open>
  The elements of an array and the members of an object, given the parser of their values. The
  recursion stops if that parser does not consume anything, which the parsers below always do.
\<close>

function elements :: "(string \<Rightarrow> (json \<times> string) option) \<Rightarrow> string \<Rightarrow> (json list \<times> string) option" where
  "elements p s =
     (case p s of
        None \<Rightarrow> None
      | Some (v, r) \<Rightarrow>
          (case skip_ws r of
             c # r1 \<Rightarrow>
               if c = CHR '','' \<and> length r1 < length s then map_option (\<lambda>(vs, t). (v # vs, t)) (elements p r1)
               else if c = CHR '']'' then Some ([v], r1)
               else None
           | [] \<Rightarrow> None))"
  by pat_completeness auto
termination by (relation "measure (length \<circ> snd)") auto

declare elements.simps [simp del]

text \<open>The key of a member and what follows its colon.\<close>

definition member_key :: "string \<Rightarrow> (string \<times> string) option" where
  "member_key s =
     (case skip_ws s of
        c # r \<Rightarrow>
          if c = quote_char then
            (case dec_string r of
               None \<Rightarrow> None
             | Some (k, r1) \<Rightarrow> (case skip_ws r1 of d # r2 \<Rightarrow> if d = CHR '':'' then Some (k, r2) else None | [] \<Rightarrow> None))
          else None
      | [] \<Rightarrow> None)"

function members :: "(string \<Rightarrow> (json \<times> string) option) \<Rightarrow> string \<Rightarrow> ((string \<times> json) list \<times> string) option" where
  "members p s =
     (case member_key s of
        None \<Rightarrow> None
      | Some (k, r0) \<Rightarrow>
     (case p r0 of
        None \<Rightarrow> None
      | Some (v, r) \<Rightarrow>
          (case skip_ws r of
             c # r1 \<Rightarrow>
               if c = CHR '','' \<and> length r1 < length s then map_option (\<lambda>(vs, t). ((k, v) # vs, t)) (members p r1)
               else if c = CHR ''}'' then Some ([(k, v)], r1)
               else None
           | [] \<Rightarrow> None)))"
  by pat_completeness auto
termination by (relation "measure (length \<circ> snd)") auto

declare members.simps [simp del]

definition parse_array :: "(string \<Rightarrow> (json \<times> string) option) \<Rightarrow> string \<Rightarrow> (json \<times> string) option" where
  "parse_array p s =
     (if HasPrefix (skip_ws s) '']'' then Some (JArr [], drop 1 (skip_ws s))
      else map_option (\<lambda>(vs, t). (JArr vs, t)) (elements p s))"

definition parse_object :: "(string \<Rightarrow> (json \<times> string) option) \<Rightarrow> string \<Rightarrow> (json \<times> string) option" where
  "parse_object p s =
     (if HasPrefix (skip_ws s) ''}'' then Some (JObj [], drop 1 (skip_ws s))
      else map_option (\<lambda>(ms, t). (JObj ms, t)) (members p s))"

text \<open>A value with at most \<open>n\<close> levels of arrays and objects.\<close>

primrec parse_value :: "nat \<Rightarrow> string \<Rightarrow> (json \<times> string) option" where
  "parse_value 0 = (\<lambda>s. parse_scalar (skip_ws s))"
| "parse_value (Suc n) =
     (\<lambda>s. if HasPrefix (skip_ws s) ''{'' then parse_object (parse_value n) (drop 1 (skip_ws s))
          else if HasPrefix (skip_ws s) ''['' then parse_array (parse_value n) (drop 1 (skip_ws s))
          else parse_scalar (skip_ws s))"

definition maxNestingDepth :: nat where
  "maxNestingDepth = 10000"

section \<open>Parsers consume\<close>

definition consumes :: "(string \<Rightarrow> ('a \<times> string) option) \<Rightarrow> bool" where
  "consumes p \<longleftrightarrow> (\<forall>s v r. p s = Some (v, r) \<longrightarrow> length r < length s)"

lemma consumesD: "consumes p \<Longrightarrow> p s = Some (v, r) \<Longrightarrow> length r < length s"
  by (simp add: consumes_def)

lemma skip_ws_length: "length (skip_ws s) \<le> length s"
  by (simp add: skip_ws_def length_dropWhile_le)

lemma skip_ws_Cons: "skip_ws s = c # r \<Longrightarrow> length r < length s"
  using skip_ws_length [of s] by simp

lemma digits1_shorter: "digits1 s = Some (x, r) \<Longrightarrow> length r < length s"
proof -
  assume "digits1 s = Some (x, r)"
  then have "takeWhile is_digit s \<noteq> []" "r = dropWhile is_digit s" by (auto simp: digits1_def split: if_splits)
  moreover have "length s = length (takeWhile is_digit s) + length (dropWhile is_digit s)"
    by (metis length_append takeWhile_dropWhile_id)
  ultimately show "length r < length s" by simp
qed

lemma num_int_shorter: "num_int s = Some (x, r) \<Longrightarrow> length r < length s"
  by (auto simp: num_int_def split: list.splits if_splits dest!: digits1_shorter)

lemma num_frac_le: "num_frac s = Some (x, r) \<Longrightarrow> length r \<le> length s"
  by (auto simp: num_frac_def prepend_def split: list.splits if_splits dest!: digits1_shorter)

lemma num_exp_le: "num_exp s = Some (x, r) \<Longrightarrow> length r \<le> length s"
  by (auto simp: num_exp_def prepend_def split: list.splits if_splits dest!: digits1_shorter)

lemma num_lit_shorter: "num_lit s = Some (x, r) \<Longrightarrow> length r < length s"
proof -
  assume a: "num_lit s = Some (x, r)"
  obtain i s2 f s3 e where n: "num_int (snd (num_sign s)) = Some (i, s2)" "num_frac s2 = Some (f, s3)" "num_exp s3 = Some (e, r)"
    using a by (auto simp: num_lit_def split: option.splits prod.splits)
  have "length (snd (num_sign s)) \<le> length s" by (simp add: num_sign_def)
  with num_int_shorter [OF n(1)] num_frac_le [OF n(2)] num_exp_le [OF n(3)] show "length r < length s" by linarith
qed

lemma parse_scalar_consumes: "consumes parse_scalar"
  unfolding consumes_def
proof (intro allI impI)
  fix s v r
  assume a: "parse_scalar s = Some (v, r)"
  have lit: "length (drop k s) < length s" if "HasPrefix s x" "x \<noteq> []" "0 < k" for x k
    using that by (cases s; cases x) auto
  show "length r < length s"
    using a lit [of "''null''" 4] lit [of "''true''" 4] lit [of "''false''" 5] dec_string_shorter [of "drop 1 s"] num_lit_shorter [of s]
    by (fastforce simp: parse_scalar_def split: if_splits)
qed

lemma elements_step:
  assumes "consumes p"
  shows "elements p s =
     (case p s of
        None \<Rightarrow> None
      | Some (v, r) \<Rightarrow>
          (case skip_ws r of
             c # r1 \<Rightarrow>
               if c = CHR '','' then map_option (\<lambda>(vs, t). (v # vs, t)) (elements p r1)
               else if c = CHR '']'' then Some ([v], r1)
               else None
           | [] \<Rightarrow> None))"
proof -
  have "length r1 < length s" if "p s = Some (v, r)" "skip_ws r = c # r1" for v r c r1
    using consumesD [OF assms that(1)] skip_ws_Cons [OF that(2)] by simp
  then show ?thesis by (subst elements.simps) (auto split: option.split list.split)
qed

lemma member_key_shorter: "member_key s = Some (k, r) \<Longrightarrow> length r < length s"
  by (auto simp: member_key_def split: list.splits if_splits option.splits dest!: dec_string_shorter skip_ws_Cons)

lemma members_step:
  assumes "consumes p"
  shows "members p s =
     (case member_key s of
        None \<Rightarrow> None
      | Some (k, r0) \<Rightarrow>
     (case p r0 of
        None \<Rightarrow> None
      | Some (v, r) \<Rightarrow>
          (case skip_ws r of
             c # r1 \<Rightarrow>
               if c = CHR '','' then map_option (\<lambda>(vs, t). ((k, v) # vs, t)) (members p r1)
               else if c = CHR ''}'' then Some ([(k, v)], r1)
               else None
           | [] \<Rightarrow> None)))"
proof -
  have "length r1 < length s" if "member_key s = Some (k, r0)" "p r0 = Some (v, r)" "skip_ws r = c # r1" for k r0 v r c r1
    using member_key_shorter [OF that(1)] consumesD [OF assms that(2)] skip_ws_Cons [OF that(3)] by simp
  then show ?thesis by (subst members.simps) (auto split: option.split list.split)
qed

lemma elements_consumes: "consumes p \<Longrightarrow> elements p s = Some (vs, t) \<Longrightarrow> length t < length s"
proof (induction p s arbitrary: vs rule: elements.induct)
  case (1 p s)
  from "1.prems"(2) obtain v r c r1 where p: "p s = Some (v, r)" "skip_ws r = c # r1"
      and r: "c = CHR '','' \<and> length r1 < length s \<and> (\<exists>vs'. elements p r1 = Some (vs', t)) \<or> t = r1"
    by (subst (asm) elements.simps) (auto split: option.splits list.splits if_splits)
  have "length r1 < length s" using consumesD [OF "1.prems"(1) p(1)] skip_ws_Cons [OF p(2)] by simp
  with r "1.IH" [OF p(1) refl p(2) _ "1.prems"(1)] show ?case by (meson less_trans)
qed

lemma members_consumes: "consumes p \<Longrightarrow> members p s = Some (ms, t) \<Longrightarrow> length t < length s"
proof (induction p s arbitrary: ms rule: members.induct)
  case (1 p s)
  from "1.prems"(2) obtain k r0 v r c r1 where p: "member_key s = Some (k, r0)" "p r0 = Some (v, r)" "skip_ws r = c # r1"
      and r: "c = CHR '','' \<and> length r1 < length s \<and> (\<exists>vs'. members p r1 = Some (vs', t)) \<or> t = r1"
    by (subst (asm) members.simps) (auto split: option.splits list.splits if_splits)
  have "length r1 < length s"
    using member_key_shorter [OF p(1)] consumesD [OF "1.prems"(1) p(2)] skip_ws_Cons [OF p(3)] by simp
  with r "1.IH" [OF p(1) refl p(2) refl p(3) _ "1.prems"(1)] show ?case by (meson less_trans)
qed

lemma consumes_ws: "consumes p \<Longrightarrow> p (skip_ws s) = Some (v, r) \<Longrightarrow> length r < length s"
  using consumesD [of p "skip_ws s" v r] skip_ws_length [of s] by simp

lemma HasPrefix_drop: "HasPrefix s [c] \<Longrightarrow> s = c # drop 1 s"
  by (cases s) simp_all

lemma parse_object_shorter:
  assumes "consumes p" "parse_object p s = Some (v, r)"
  shows "length r \<le> length s"
proof (cases "HasPrefix (skip_ws s) ''}''")
  case True
  with assms(2) have "r = drop 1 (skip_ws s)" by (simp add: parse_object_def)
  with skip_ws_length [of s] show ?thesis by simp
next
  case False
  with assms(2) obtain ms where "members p s = Some (ms, r)" by (auto simp: parse_object_def)
  with members_consumes [OF assms(1)] show ?thesis by (simp add: less_imp_le)
qed

lemma parse_array_shorter:
  assumes "consumes p" "parse_array p s = Some (v, r)"
  shows "length r \<le> length s"
proof (cases "HasPrefix (skip_ws s) '']''")
  case True
  with assms(2) have "r = drop 1 (skip_ws s)" by (simp add: parse_array_def)
  with skip_ws_length [of s] show ?thesis by simp
next
  case False
  with assms(2) obtain vs where "elements p s = Some (vs, r)" by (auto simp: parse_array_def)
  with elements_consumes [OF assms(1)] show ?thesis by (simp add: less_imp_le)
qed

lemma parse_value_consumes: "consumes (parse_value n)"
proof (induction n)
  case 0
  then show ?case using consumes_ws [OF parse_scalar_consumes] by (auto simp: consumes_def)
next
  case (Suc n)
  have "length r < length s" if a: "parse_value (Suc n) s = Some (v, r)" for s v r
  proof (cases "HasPrefix (skip_ws s) ''{'' \<or> HasPrefix (skip_ws s) ''[''")
    case True
    then have "length (drop 1 (skip_ws s)) < length (skip_ws s)" by (cases "skip_ws s") auto
    moreover have "length r \<le> length (drop 1 (skip_ws s))"
      using a True parse_object_shorter [OF Suc.IH, of "drop 1 (skip_ws s)" v r] parse_array_shorter [OF Suc.IH, of "drop 1 (skip_ws s)" v r] by (auto split: if_splits)
    ultimately show ?thesis using skip_ws_length [of s] by linarith
  next
    case False
    then show ?thesis using a consumes_ws [OF parse_scalar_consumes] by simp
  qed
  then show ?case by (simp add: consumes_def)
qed

section \<open>Integers\<close>

text \<open>\<open>strconv.AppendInt(_, i, 10)\<close> and \<open>strconv.ParseInt(_, 10, 64)\<close>.\<close>

definition AppendInt :: "int \<Rightarrow> string" where
  "AppendInt i = (if i < 0 then CHR ''-'' # dec (nat (- i)) else dec (nat i))"

definition parse_digits :: "string \<Rightarrow> nat option" where
  "parse_digits s = (if s = [] \<or> \<not> list_all is_digit s then None else Some (horner 10 0 (map (\<lambda>c. the (dec_val c)) s)))"

definition ParseInt :: "string \<Rightarrow> 64 word option" where
  "ParseInt s =
     (case parse_digits (snd (num_sign s)) of
        None \<Rightarrow> None
      | Some n \<Rightarrow>
          if fst (num_sign s) = ''-'' then (if n \<le> 2 ^ 63 then Some (word_of_int (- int n)) else None)
          else (if n < 2 ^ 63 then Some (word_of_int (int n)) else None))"

lemma dec_digit: "c \<in> set (dec n) \<Longrightarrow> is_digit c"
  using dec_chars by (simp add: is_digit_def)

lemma minus_no_digit [simp]: "\<not> is_digit (CHR ''-'')"
  by (simp add: is_digit_def dec_val_def)

lemma dec_no_minus: "\<not> HasPrefix (dec n) ''-''"
  using dec_digit [of "CHR ''-''" n] by (cases "dec n") auto

lemma parse_digits_dec [simp]: "parse_digits (dec n) = Some n"
proof -
  have "map (\<lambda>c. the (dec_val c)) (dec n) = ndigits 10 n"
    using ndigits_less [of 10 _ n] by (simp add: dec_def map_idI)
  then show ?thesis using dec_digit by (simp add: parse_digits_def list_all_iff horner_ndigits)
qed

lemma num_sign_AppendInt: "num_sign (AppendInt i @ t) = (if i < 0 then (''-'', dec (nat (- i)) @ t) else ([], dec (nat i) @ t))"
proof -
  have "\<not> HasPrefix (dec n @ t) ''-''" for n using dec_no_minus [of n] by (cases "dec n") auto
  then show ?thesis by (simp add: AppendInt_def num_sign_def)
qed

lemma ParseInt_AppendInt: "ParseInt (AppendInt (sint w)) = Some w"
proof -
  have r: "- (2 ^ 63) \<le> sint w" "sint w < 2 ^ 63" using sint_greater_eq [of w] sint_less [of w] by simp_all
  have s: "num_sign (AppendInt (sint w)) = (if sint w < 0 then (''-'', dec (nat (- sint w))) else ([], dec (nat (sint w))))"
    using num_sign_AppendInt [of "sint w" "[]"] by simp
  show ?thesis
  proof (cases "sint w < 0")
    case True
    then have "nat (- sint w) \<le> 2 ^ 63" using r(1) by (simp add: nat_le_iff)
    with True show ?thesis by (simp add: ParseInt_def s)
  next
    case False
    then have "nat (sint w) < 2 ^ 63" using r(2) by (simp add: nat_less_iff)
    with False show ?thesis by (simp add: ParseInt_def s)
  qed
qed

lemma dec_zero_first: "hd (dec n) = CHR ''0'' \<Longrightarrow> n = 0"
proof (rule ccontr)
  assume h: "hd (dec n) = CHR ''0''" and "n \<noteq> 0"
  then have "hd (ndigits 10 n) \<noteq> 0" using ndigits_hd_nonzero [of 10 n] by simp
  moreover have lt: "hd (ndigits 10 n) < 10" using ndigits_less [of 10 _ n] by simp
  moreover have "dec_val (hd (dec n)) = Some (hd (ndigits 10 n))" using lt by (simp add: dec_def hd_map)
  ultimately show False using h by (simp add: dec_val_def)
qed

lemma num_int_dec:
  assumes "\<not> is_digit c"
  shows "num_int (dec n @ c # t) = Some (dec n, c # t)"
proof -
  obtain x xs where x: "dec n = x # xs" by (cases "dec n") auto
  have all: "takeWhile is_digit (dec n @ c # t) = dec n" "dropWhile is_digit (dec n @ c # t) = c # t"
    using assms dec_digit by (simp_all add: takeWhile_append2 dropWhile_append2)
  show ?thesis
  proof (cases "x = CHR ''0''")
    case True
    then have "n = 0" using dec_zero_first x by simp
    then have "dec n = [CHR ''0'']" using digit_zero by (simp add: dec_def ndigits.simps)
    then show ?thesis by (simp add: num_int_def)
  next
    case False
    with x have "num_int (dec n @ c # t) = digits1 (dec n @ c # t)" by (simp add: num_int_def)
    then show ?thesis by (simp add: digits1_def all)
  qed
qed

lemma num_lit_int:
  assumes "\<not> is_digit c" "c \<notin> {CHR ''.'', CHR ''e'', CHR ''E''}"
  shows "num_lit (AppendInt i @ c # t) = Some (AppendInt i, c # t)"
  using assms num_int_dec [OF assms(1)]
  by (simp add: num_lit_def num_sign_AppendInt num_frac_def num_exp_def) (simp add: AppendInt_def)

section \<open>Objects\<close>

lemma skip_ws_id: "c \<notin> {CHR 0x20, CHR 0x09, CHR 0x0A, CHR 0x0D} \<Longrightarrow> skip_ws (c # s) = c # s"
  by (simp add: skip_ws_def)

lemma skip_ws_quote [simp]: "skip_ws (quote_char # s) = quote_char # s"
  by (rule skip_ws_id) (simp add: quote_char_def)

lemma member_key_enc:
  "valid_utf8 k \<Longrightarrow> member_key (enc_string k @ CHR '':'' # t) = Some (k, t)"
  using dec_enc_chars [of k "CHR '':'' # t"] by (simp add: member_key_def enc_string_def skip_ws_id)

lemma AppendInt_first:
  obtains c s where "AppendInt i = c # s" "is_digit c \<or> c = CHR ''-''"
proof (cases "i < 0")
  case True
  then show thesis using that by (simp add: AppendInt_def)
next
  case False
  obtain c s where "dec (nat i) = c # s" by (cases "dec (nat i)") auto
  with False show thesis using that [of c s] dec_digit [of c "nat i"] by (simp add: AppendInt_def)
qed

lemma parse_scalar_int:
  assumes "\<not> is_digit c" "c \<notin> {CHR ''.'', CHR ''e'', CHR ''E''}"
  shows "parse_value n (AppendInt i @ c # t) = Some (JNum (AppendInt i), c # t)"
proof -
  obtain x s where x: "AppendInt i = x # s" "is_digit x \<or> x = CHR ''-''" by (rule AppendInt_first)
  have ne: "x \<notin> {CHR 0x20, CHR 0x09, CHR 0x0A, CHR 0x0D, CHR ''n'', CHR ''t'', CHR ''f'', CHR ''{'', CHR ''['', quote_char}"
    using x(2) by (auto simp: is_digit_def dec_val_def quote_char_def split: if_splits)
  have ws: "skip_ws (AppendInt i @ c # t) = AppendInt i @ c # t" using x ne by (simp add: skip_ws_id)
  have "parse_scalar (AppendInt i @ c # t) = Some (JNum (AppendInt i), c # t)"
    using num_lit_int [OF assms, of i t] x ne by (simp add: parse_scalar_def)
  then show ?thesis using x ne by (cases n) (simp_all add: ws [unfolded x(1), simplified])
qed

lemma valid_utf8_ascii: "list_all (\<lambda>c. code c < 0x80) s \<Longrightarrow> valid_utf8 s"
proof (induction s)
  case (Cons c s)
  have k: "utf8_len (c # s) = 1" "utf8_len [c] = 1" using Cons.prems by (simp_all add: utf8_len_ascii)
  then have "runes (c # s) = [c] # runes s" by (subst runes.simps) simp
  with Cons k show ?case by (simp add: valid_utf8_def)
qed (simp add: valid_utf8_def runes.simps)

text \<open>An object with the given encoded member values.\<close>

definition enc_object :: "(string \<times> string) list \<Rightarrow> string" where
  "enc_object kvs = ''{'' @ Join '','' (map (\<lambda>(k, v). enc_string k @ CHR '':'' # v) kvs) @ ''}''"

text \<open>A text is the encoding of a value when it parses to it in front of anything that ends a member or an element.\<close>

definition encodes :: "nat \<Rightarrow> string \<Rightarrow> json \<Rightarrow> bool" where
  "encodes n v j \<longleftrightarrow> (\<forall>c t. c \<in> {CHR '','', CHR ''}''} \<longrightarrow> parse_value n (v @ c # t) = Some (j, c # t))"

lemma encodes_int: "encodes n (AppendInt i) (JNum (AppendInt i))"
  by (auto simp: encodes_def is_digit_def dec_val_def intro!: parse_scalar_int)

lemma encodes_string:
  assumes "valid_utf8 s"
  shows "encodes n (enc_string s) (JStr s)"
proof -
  have "parse_scalar (enc_string s @ u) = Some (JStr s, u)" for u
    using dec_enc_chars [OF assms, of u] by (simp add: parse_scalar_def enc_string_def) (simp add: quote_char_def)
  moreover have "skip_ws (enc_string s @ u) = enc_string s @ u" for u by (simp add: enc_string_def)
  ultimately show ?thesis
    by (cases n) (simp_all add: encodes_def, simp add: enc_string_def quote_char_def)
qed

lemma members_enc_object:
  assumes "kvs \<noteq> []" "\<forall>(k, v, j) \<in> set kvs. valid_utf8 k \<and> encodes n v j"
  shows "members (parse_value n) (Join '','' (map (\<lambda>(k, v, j). enc_string k @ CHR '':'' # v) kvs) @ CHR ''}'' # t) =
    Some (map (\<lambda>(k, v, j). (k, j)) kvs, t)"
  using assms
proof (induction kvs)
  case (Cons kv kvs)
  obtain k v j where kv: "kv = (k, v, j)" by (cases kv)
  have "encodes n v j" using Cons.prems(2) by (simp add: kv)
  then have e: "parse_value n (v @ c # u) = Some (j, c # u)" if "c \<in> {CHR '','', CHR ''}''}" for c u
    using that unfolding encodes_def by blast
  have key: "member_key (enc_string k @ CHR '':'' # v @ u) = Some (k, v @ u)" for u
    using member_key_enc [of k] Cons.prems(2) by (simp add: kv)
  note st = members_step [OF parse_value_consumes]
  show ?case
  proof (cases "kvs = []")
    case True
    then show ?thesis using key [of "CHR ''}'' # t"] e [of "CHR ''}''" t] by (simp add: kv st skip_ws_id)
  next
    case False
    let ?rest = "Join '','' (map (\<lambda>(k, v, j). enc_string k @ CHR '':'' # v) kvs) @ CHR ''}'' # t"
    have "Join '','' (map (\<lambda>(k, v, j). enc_string k @ CHR '':'' # v) (kv # kvs)) @ CHR ''}'' # t =
        enc_string k @ CHR '':'' # v @ CHR '','' # ?rest"
      using False by (simp add: kv Join_Cons)
    then show ?thesis
      using key [of "CHR '','' # ?rest"] e [of "CHR '',''" ?rest] Cons.IH [OF False] Cons.prems(2)
      by (simp add: kv st [of n "enc_string k @ CHR '':'' # v @ CHR '','' # ?rest"] skip_ws_id)
  qed
qed simp

lemma parse_enc_object:
  assumes "\<forall>(k, v, j) \<in> set kvs. valid_utf8 k \<and> encodes n v j"
  shows "parse_value (Suc n) (enc_object (map (\<lambda>(k, v, j). (k, v)) kvs) @ t) = Some (JObj (map (\<lambda>(k, v, j). (k, j)) kvs), t)"
proof (cases "kvs = []")
  case False
  let ?s = "Join '','' (map (\<lambda>(k, v, j). enc_string k @ CHR '':'' # v) kvs) @ CHR ''}'' # t"
  have o: "enc_object (map (\<lambda>(k, v, j). (k, v)) kvs) @ t = CHR ''{'' # ?s"
    by (simp add: enc_object_def comp_def split_def)
  obtain r where "?s = quote_char # r"
    using False by (cases kvs; cases "tl kvs") (auto simp: enc_string_def)
  then have "\<not> HasPrefix (skip_ws ?s) ''}''" by (simp add: quote_char_def skip_ws_id)
  then have "parse_object (parse_value n) ?s = Some (JObj (map (\<lambda>(k, v, j). (k, j)) kvs), t)"
    using members_enc_object [OF False assms, of t] by (simp add: parse_object_def)
  then show ?thesis by (simp add: o skip_ws_id)
qed (simp add: enc_object_def parse_object_def skip_ws_id)

end
