(* ===== verification/Persist.thy ===== *)
theory Persist
  imports GoJSON Files Engine
begin

text \<open>
  internal/persist/persist.go: writing the engine's block counters to a file and reading them
  back. The files are a map from paths to contents, and a save gives the sequence of contents an
  observer (or a crash) can meet; the outcomes of the system calls are inputs.
\<close>

definition maxStateFileSize :: nat where
  "maxStateFileSize = 10 * 1024 * 1024"

record EngineState =
  BlockStats :: "(string, int64) gomap option"

section \<open>The file format\<close>

text \<open>Encoding a map writes its keys in sorted order.\<close>

definition sorted_members :: "(string, int64) gomap \<Rightarrow> (string \<times> int64) list" where
  "sorted_members m = map (\<lambda>k. (k, the (map_of m k))) (sort (map fst m))"

definition encode_counts :: "(string, int64) gomap \<Rightarrow> string" where
  "encode_counts m = enc_object (map (\<lambda>kv. (fst kv, AppendInt (sint (snd kv)))) (sorted_members m))"

definition encode_state :: "EngineState \<Rightarrow> string" where
  "encode_state st =
     enc_object [(''block_stats'', case BlockStats st of None \<Rightarrow> ''null'' | Some m \<Rightarrow> encode_counts m)] @ [CHR 0x0A]"

text \<open>
  Decoding: a member belongs to the field when its name is equal to the field's or folds to the
  same letters (the long s and the Kelvin sign fold to ASCII letters); other members are
  skipped, a null resets the field, repeated ones are merged, and a value of the wrong kind
  or an integer outside 64 bits is an error.
\<close>

definition fold_rune :: "string \<Rightarrow> string" where
  "fold_rune r =
     (if r = [CHR 0xC5, CHR 0xBF] then ''S''
      else if r = [CHR 0xE2, CHR 0x84, CHR 0xAA] then ''K''
      else if length r = 1 \<and> 97 \<le> code (hd r) \<and> code (hd r) \<le> 122 then [char_of (code (hd r) - 32)]
      else r)"

definition is_block_stats :: "string \<Rightarrow> bool" where
  "is_block_stats k \<longleftrightarrow> k = ''block_stats'' \<or> concat (map fold_rune (runes k)) = ''BLOCK_STATS''"

definition count_value :: "json \<Rightarrow> int64 option" where
  "count_value v = (case v of JNum lit \<Rightarrow> ParseInt lit | JNull \<Rightarrow> Some 0 | _ \<Rightarrow> None)"

fun put_counts :: "(string \<times> json) list \<Rightarrow> (string, int64) gomap \<Rightarrow> (string, int64) gomap option" where
  "put_counts [] m = Some m"
| "put_counts ((k, v) # ms) m =
     (case count_value v of None \<Rightarrow> None | Some w \<Rightarrow> put_counts ms (AList.update k w m))"

definition decode_field :: "json \<Rightarrow> EngineState \<Rightarrow> EngineState option" where
  "decode_field v st =
     (case v of
        JNull \<Rightarrow> Some (st\<lparr>BlockStats := None\<rparr>)
      | JObj ms \<Rightarrow>
          map_option (\<lambda>m. st\<lparr>BlockStats := Some m\<rparr>) (put_counts ms (case BlockStats st of None \<Rightarrow> [] | Some m \<Rightarrow> m))
      | _ \<Rightarrow> None)"

fun decode_members :: "(string \<times> json) list \<Rightarrow> EngineState \<Rightarrow> EngineState option" where
  "decode_members [] st = Some st"
| "decode_members ((k, v) # ms) st =
     (if is_block_stats k
      then (case decode_field v st of None \<Rightarrow> None | Some st' \<Rightarrow> decode_members ms st')
      else decode_members ms st)"

definition Decode :: "string \<Rightarrow> EngineState option" where
  "Decode bytes =
     (case parse_value maxNestingDepth bytes of
        None \<Rightarrow> None
      | Some (v, rest) \<Rightarrow>
          (case v of
             JNull \<Rightarrow> Some \<lparr>BlockStats = None\<rparr>
           | JObj ms \<Rightarrow> decode_members ms \<lparr>BlockStats = None\<rparr>
           | _ \<Rightarrow> None))"

section \<open>Saving\<close>

text \<open>\<open>so_written\<close>: \<open>Some n\<close> when the write fails after \<open>n\<close> bytes.\<close>

text \<open>
  \<open>so_written\<close>: the bytes written when the encoder's write fails, \<open>None\<close> when it succeeds.
  \<open>so_closed\<close>: the bytes that reach the file when closing it fails, \<open>None\<close> when it succeeds; the
  code ignores this error.
\<close>

record save_os =
  so_mkdir_ok :: bool
  so_lstat :: "string \<Rightarrow> lstat_result"
  so_open_ok :: bool
  so_written :: "nat option"
  so_closed :: "nat option"
  so_rename_ok :: bool
  so_remove_ok :: bool

type_synonym disk = "(string, string) gomap"

datatype save_err =
    SaveTraversal
  | SaveMkdir
  | SavePath path_err
  | SaveCreate
  | SaveEncode
  | SaveRename

definition remove_tmp :: "save_os \<Rightarrow> string \<Rightarrow> disk \<Rightarrow> disk" where
  "remove_tmp os tmpPath d = (if so_remove_ok os then AList.delete tmpPath d else d)"

definition rename_file :: "string \<Rightarrow> string \<Rightarrow> disk \<Rightarrow> disk" where
  "rename_file a b d = (case map_of d a of None \<Rightarrow> d | Some content \<Rightarrow> AList.update b content (AList.delete a d))"

definition close_tmp :: "save_os \<Rightarrow> string \<Rightarrow> disk \<Rightarrow> disk" where
  "close_tmp os tmpPath d =
     (case (so_closed os, map_of d tmpPath) of
        (Some n, Some content) \<Rightarrow> AList.update tmpPath (take n content) d
      | _ \<Rightarrow> d)"

text \<open>The error, and the contents of the disk from the call to the return.\<close>

definition SaveState :: "save_os \<Rightarrow> string \<Rightarrow> EngineState option \<Rightarrow> disk \<Rightarrow> save_err option \<times> disk list" where
  "SaveState os path sto d =
     (case sto of
        None \<Rightarrow> (None, [d])
      | Some st \<Rightarrow>
          if path = [] then (None, [d])
          else if Contains_str path ''..'' then (Some SaveTraversal, [d])
          else if \<not> so_mkdir_ok os then (Some SaveMkdir, [d])
          else (case RejectSymlinkComponents (so_lstat os) (Dir path) of
            Some err \<Rightarrow> (Some (SavePath err), [d])
          | None \<Rightarrow>
              if \<not> so_open_ok os then (Some SaveCreate, [d])
              else (let tmpPath = path @ ''.tmp''; bytes = encode_state st;
                        d1 = AList.update tmpPath [] d
                    in case so_written os of
                         Some n \<Rightarrow>
                           (let d2 = AList.update tmpPath (take n bytes) d1; d3 = close_tmp os tmpPath d2
                            in (Some SaveEncode, [d, d1, d2, d3, remove_tmp os tmpPath d3]))
                       | None \<Rightarrow>
                           (let d2 = AList.update tmpPath bytes d1; d3 = close_tmp os tmpPath d2
                            in if \<not> so_rename_ok os then (Some SaveRename, [d, d1, d2, d3, remove_tmp os tmpPath d3])
                               else (None, [d, d1, d2, d3, rename_file tmpPath path d3])))))"

section \<open>Loading\<close>

datatype load_err =
    LoadTraversal
  | LoadPath path_err
  | LoadOpen
  | LoadStat
  | LoadNotRegular
  | LoadDecode

definition LoadState :: "files \<Rightarrow> string \<Rightarrow> load_err + EngineState option" where
  "LoadState fs path =
     (if path = [] then Inr None
      else if Contains_str path ''..'' then Inl LoadTraversal
      else (case RejectSymlinkComponents (os_lstat fs) (Dir path) of
        Some err \<Rightarrow> Inl (LoadPath err)
      | None \<Rightarrow>
     (case os_open fs path of
        OpenNotExist \<Rightarrow> Inr None
      | OpenError \<Rightarrow> Inl LoadOpen
      | Opened f \<Rightarrow>
     (case fd_stat f of
        None \<Rightarrow> Inl LoadStat
      | Some fi \<Rightarrow>
          if \<not> st_regular fi then Inl LoadNotRegular
          else (case Decode (rd_bytes (LimitReader (maxStateFileSize + 1) (fd_content f))) of
                  None \<Rightarrow> Inl LoadDecode
                | Some st \<Rightarrow> Inr (Some (case BlockStats st of None \<Rightarrow> st\<lparr>BlockStats := Some []\<rparr> | Some m \<Rightarrow> st)))))))"

text \<open>What the engine's \<open>restoreState\<close> makes of it.\<close>

definition as_load_result :: "load_err + EngineState option \<Rightarrow> load_result" where
  "as_load_result r =
     (case r of
        Inl err \<Rightarrow> LoadErr
      | Inr None \<Rightarrow> NoState
      | Inr (Some st) \<Rightarrow> Loaded (case BlockStats st of None \<Rightarrow> [] | Some m \<Rightarrow> m))"

section \<open>Round trip of the format\<close>

lemma parse_counts:
  assumes "\<forall>k \<in> gm_keys m. valid_utf8 k"
  shows "parse_value (Suc n) (encode_counts m @ t) =
    Some (JObj (map (\<lambda>kv. (fst kv, JNum (AppendInt (sint (snd kv))))) (sorted_members m)), t)"
  using assms
    parse_enc_object [of "map (\<lambda>kv. (fst kv, AppendInt (sint (snd kv)), JNum (AppendInt (sint (snd kv))))) (sorted_members m)" n t]
  by (auto simp: encode_counts_def sorted_members_def encodes_int comp_def)

lemma parse_state:
  assumes "BlockStats st = Some m" "\<forall>k \<in> gm_keys m. valid_utf8 k"
  shows "parse_value (Suc (Suc n)) (encode_state st) =
    Some (JObj [(''block_stats'', JObj (map (\<lambda>kv. (fst kv, JNum (AppendInt (sint (snd kv))))) (sorted_members m)))], [CHR 0x0A])"
proof -
  have "encodes (Suc n) (encode_counts m) (JObj (map (\<lambda>kv. (fst kv, JNum (AppendInt (sint (snd kv))))) (sorted_members m)))"
    using parse_counts [OF assms(2)] by (simp add: encodes_def)
  moreover have "valid_utf8 ''block_stats''" by (rule valid_utf8_ascii) simp
  moreover have "encode_state st = enc_object [(''block_stats'', encode_counts m)] @ [CHR 0x0A]"
    using assms(1) by (simp add: encode_state_def)
  ultimately show ?thesis
    using parse_enc_object [of "[(''block_stats'', encode_counts m,
        JObj (map (\<lambda>kv. (fst kv, JNum (AppendInt (sint (snd kv))))) (sorted_members m)))]" "Suc n" "[CHR 0x0A]"] by simp
qed

lemma put_counts_enc:
  "put_counts (map (\<lambda>kv. (fst kv, JNum (AppendInt (sint (snd kv))))) kvs) m = Some (fold (\<lambda>kv. AList.update (fst kv) (snd kv)) kvs m)"
  by (induction kvs arbitrary: m) (simp_all add: count_value_def ParseInt_AppendInt)

lemma fold_update_lookup:
  "distinct (map fst kvs) \<Longrightarrow>
   map_of (fold (\<lambda>kv. AList.update (fst kv) (snd kv)) kvs m) k = (case map_of kvs k of None \<Rightarrow> map_of m k | Some v \<Rightarrow> Some v)"
proof (induction kvs arbitrary: m)
  case (Cons kv kvs)
  then have "map_of kvs (fst kv) = None" by (simp add: map_of_eq_None_iff)
  with Cons show ?case by (cases kv) (auto simp: gm_lookup_update split: option.split)
qed simp

lemma fold_update_wf: "gm_wf m \<Longrightarrow> gm_wf (fold (\<lambda>kv. AList.update (fst kv) (snd kv)) kvs m)"
  by (induction kvs arbitrary: m) simp_all

lemma sorted_members_lookup:
  assumes "gm_wf m"
  shows "distinct (map fst (sorted_members m))" "map_of (sorted_members m) = map_of m"
proof -
  have keys: "map fst (sorted_members m) = sort (map fst m)" by (simp add: sorted_members_def comp_def)
  show "distinct (map fst (sorted_members m))" using assms by (simp add: keys gm_wf_def)
  have "map_of (sorted_members m) k = map_of m k" for k
  proof (cases "k \<in> gm_keys m")
    case True
    then obtain v where "map_of m k = Some v" using gm_lookup_None_iff [of m k] by auto
    moreover have "map_of (sorted_members m) k = Some (the (map_of m k))"
      unfolding sorted_members_def using True by (simp add: map_of_map_restrict restrict_map_def)
    ultimately show ?thesis by simp
  next
    case False
    then have "k \<notin> set (map fst (sorted_members m))" by (simp add: keys)
    then have "map_of (sorted_members m) k = None" by (simp add: map_of_eq_None_iff)
    with False gm_lookup_None_iff [of m k] show ?thesis by simp
  qed
  then show "map_of (sorted_members m) = map_of m" by blast
qed

lemma Decode_encode:
  assumes "BlockStats st = Some m" "gm_wf m" "\<forall>k \<in> gm_keys m. valid_utf8 k"
  shows "\<exists>m'. Decode (encode_state st) = Some \<lparr>BlockStats = Some m'\<rparr> \<and> gm_wf m' \<and> map_of m' = map_of m"
proof -
  let ?m' = "fold (\<lambda>kv. AList.update (fst kv) (snd kv)) (sorted_members m) []"
  have "maxNestingDepth = Suc (Suc 9998)" by (simp add: maxNestingDepth_def)
  then have "Decode (encode_state st) = Some \<lparr>BlockStats = Some ?m'\<rparr>"
    using parse_state [OF assms(1,3), of 9998] by (simp add: Decode_def is_block_stats_def decode_field_def put_counts_enc)
  moreover have "map_of ?m' = map_of m"
    using fold_update_lookup [OF sorted_members_lookup(1) [OF assms(2)], of "[]"] sorted_members_lookup(2) [OF assms(2)]
    by (auto split: option.splits)
  ultimately show ?thesis using fold_update_wf [of "[]" "sorted_members m"] by auto
qed

section \<open>Properties\<close>

lemma tmp_neq [simp]: "path @ ''.tmp'' \<noteq> path" "path \<noteq> path @ ''.tmp''"
  by simp_all

text \<open>What of the encoded state is in the temporary file once it is closed.\<close>

definition closed_content :: "save_os \<Rightarrow> EngineState \<Rightarrow> string" where
  "closed_content os st = (case so_closed os of None \<Rightarrow> encode_state st | Some n \<Rightarrow> take n (encode_state st))"

lemma close_tmp_lookup:
  "map_of (close_tmp os tmp d) p =
     (if p = tmp then map_option (\<lambda>content. case so_closed os of None \<Rightarrow> content | Some n \<Rightarrow> take n content) (map_of d tmp) else map_of d p)"
  by (cases "map_of d tmp") (simp_all add: close_tmp_def gm_lookup_update split: option.split)

lemma rename_file_lookup:
  "map_of d a = Some content \<Longrightarrow> a \<noteq> b \<Longrightarrow>
   map_of (rename_file a b d) p = (if p = b then Some content else if p = a then None else map_of d p)"
  by (simp add: rename_file_def gm_lookup_update gm_lookup_delete)

lemmas save_lookups = close_tmp_lookup remove_tmp_def gm_lookup_update gm_lookup_delete

text \<open>A save that gets as far as the rename, and one that does not.\<close>

lemma SaveState_cases:
  assumes "SaveState os path (Some st) d = (r, ds)" "path \<noteq> []"
  obtains (early) "r \<noteq> None" "ds = [d]"
  | (failed) d1 d2 d3 where "r \<noteq> None" "ds = [d, d1, d2, d3, remove_tmp os (path @ ''.tmp'') d3]"
      "\<forall>p. p \<noteq> path @ ''.tmp'' \<longrightarrow> map_of d1 p = map_of d p \<and> map_of d2 p = map_of d p \<and> map_of d3 p = map_of d p"
  | (renamed) d1 d2 d3 where "r = None" "ds = [d, d1, d2, d3, rename_file (path @ ''.tmp'') path d3]"
      "\<forall>p. p \<noteq> path @ ''.tmp'' \<longrightarrow> map_of d1 p = map_of d p \<and> map_of d2 p = map_of d p \<and> map_of d3 p = map_of d p"
      "map_of d3 (path @ ''.tmp'') = Some (closed_content os st)"
proof -
  let ?tmp = "path @ ''.tmp''"
  let ?d1 = "AList.update ?tmp [] d"
  let ?w = "\<lambda>c. AList.update ?tmp c ?d1"
  have frame: "\<forall>p. p \<noteq> ?tmp \<longrightarrow> map_of ?d1 p = map_of d p \<and> map_of (?w c) p = map_of d p \<and> map_of (close_tmp os ?tmp (?w c)) p = map_of d p" for c
    by (simp add: save_lookups)
  have content: "map_of (close_tmp os ?tmp (?w (encode_state st))) ?tmp = Some (closed_content os st)"
    by (simp add: save_lookups closed_content_def split: option.split)
  from assms consider "r \<noteq> None" "ds = [d]"
    | n where "r \<noteq> None" "ds = [d, ?d1, ?w (take n (encode_state st)), close_tmp os ?tmp (?w (take n (encode_state st))),
        remove_tmp os ?tmp (close_tmp os ?tmp (?w (take n (encode_state st))))]"
    | "r \<noteq> None" "ds = [d, ?d1, ?w (encode_state st), close_tmp os ?tmp (?w (encode_state st)), remove_tmp os ?tmp (close_tmp os ?tmp (?w (encode_state st)))]"
    | "r = None" "ds = [d, ?d1, ?w (encode_state st), close_tmp os ?tmp (?w (encode_state st)), rename_file ?tmp path (close_tmp os ?tmp (?w (encode_state st)))]"
    unfolding SaveState_def Let_def by (auto split: option.splits if_splits)
  then show thesis
    by cases (rule early failed [OF _ _ frame] renamed [OF _ _ frame content]; assumption)+
qed

text \<open>
  C14. What a save does to the disk, whatever the file system answers: at every moment the state
  file has its old content or the content the temporary file had when it was closed, and no path
  but these two changes. A save that reports success has put that content there and left no
  temporary file; one that reports an error has left the state file as it was, and no temporary
  file that it created if removing it succeeds. The content is the complete new state when
  closing the file succeeds; the code ignores an error of the close, and then it is the part of the
  state that reached the file.\<close>
theorem save_is_atomic:
  assumes "SaveState os path (Some st) d = (r, ds)" "path \<noteq> []"
  shows "ds \<noteq> [] \<and>
    (\<forall>d' \<in> set ds. map_of d' path = map_of d path \<or> map_of d' path = Some (closed_content os st)) \<and>
    (\<forall>d' \<in> set ds. \<forall>p. p \<noteq> path \<and> p \<noteq> path @ ''.tmp'' \<longrightarrow> map_of d' p = map_of d p) \<and>
    (r = None \<longrightarrow> map_of (List.last ds) path = Some (closed_content os st) \<and> map_of (List.last ds) (path @ ''.tmp'') = None) \<and>
    (r \<noteq> None \<longrightarrow> map_of (List.last ds) path = map_of d path \<and>
       (so_remove_ok os \<longrightarrow> map_of (List.last ds) (path @ ''.tmp'') \<in> {None, map_of d (path @ ''.tmp'')})) \<and>
    (so_closed os = None \<longrightarrow> closed_content os st = encode_state st)"
  using assms
proof (cases rule: SaveState_cases)
  case (renamed d1 d2 d3)
  then show ?thesis by (auto simp: rename_file_lookup [OF renamed(4)] closed_content_def)
next
  case (failed d1 d2 d3)
  then show ?thesis by (auto simp: remove_tmp_def gm_lookup_delete closed_content_def)
qed (auto simp: closed_content_def)

text \<open>A write that is lost at the close is renamed into place and reported as a success.\<close>

lemma saved_content:
  assumes "SaveState os path (Some st) d = (None, ds)" "path \<noteq> []"
  shows "map_of (List.last ds) path = Some (closed_content os st)"
  using assms
proof (cases rule: SaveState_cases)
  case (renamed d1 d2 d3)
  then show ?thesis by (simp add: rename_file_lookup [OF renamed(4)])
qed simp_all

lemma lost_close_is_renamed:
  "SaveState os path (Some st) d = (None, ds) \<Longrightarrow> path \<noteq> [] \<Longrightarrow> so_closed os = Some 0 \<Longrightarrow> map_of (List.last ds) path = Some []"
  by (simp add: saved_content closed_content_def)

lemma restore_all:
  "length acc + length m \<le> maxBlockStatsReasons \<Longrightarrow>
   fold restore_entry m acc = fold (\<lambda>kv. AList.update (fst kv) (snd kv)) m acc"
proof (induction m arbitrary: acc)
  case (Cons kv m)
  then have "restore_entry kv acc = AList.update (fst kv) (snd kv) acc" by (simp add: restore_entry_def)
  moreover have "length (AList.update (fst kv) (snd kv) acc) + length m \<le> maxBlockStatsReasons"
    using Cons.prems by (simp add: gm_length_update)
  ultimately show ?case using Cons.IH by simp
qed simp

lemma same_lookup_length: "gm_wf m \<Longrightarrow> gm_wf m' \<Longrightarrow> map_of m' = map_of m \<Longrightarrow> length m' = length m"
proof -
  assume wf: "gm_wf m" "gm_wf m'" and eq: "map_of m' = map_of m"
  have "k \<in> gm_keys m' \<longleftrightarrow> k \<in> gm_keys m" for k
    using gm_lookup_None_iff [of m k] gm_lookup_None_iff [of m' k] eq by simp
  then have "gm_keys m' = gm_keys m" by (rule set_eqI)
  then show "length m' = length m" by (simp add: gm_length_keys wf)
qed

lemma LoadState_content:
  assumes "path \<noteq> []" "\<not> Contains_str path ''..''" "RejectSymlinkComponents (os_lstat fs) (Dir path) = None"
    and "os_open fs path = Opened f" "fd_stat f = Some fi" "st_regular fi" "length (rd_bytes (fd_content f)) \<le> maxStateFileSize"
    and "Decode (rd_bytes (fd_content f)) = Some \<lparr>BlockStats = Some m\<rparr>"
  shows "LoadState fs path = Inr (Some \<lparr>BlockStats = Some m\<rparr>)"
proof -
  have "rd_bytes (LimitReader (maxStateFileSize + 1) (fd_content f)) = rd_bytes (fd_content f)"
    using assms(7) by (simp add: LimitReader_def)
  with assms show ?thesis by (simp add: LoadState_def)
qed

text \<open>
  C13. The block counters survive a restart: when the engine's state has been saved successfully,
  without a silent loss at the close of the file, and the state file is read back as written, the engine that restores it counts exactly what
  the saved engine counted, for all reasons that are valid UTF-8.\<close>
theorem counters_survive_restart:
  assumes "engine_inv e" "saveState e = Some (path, saved)" "\<forall>k \<in> gm_keys saved. valid_utf8 k"
    and "SaveState os path (Some \<lparr>BlockStats = Some saved\<rparr>) d = (None, ds)" "so_closed os = None"
    and "RejectSymlinkComponents (os_lstat fs) (Dir path) = None" "os_open fs path = Opened f"
    and "fd_stat f = Some fi" "st_regular fi" "map_of (List.last ds) path = Some (rd_bytes (fd_content f))"
    and "length (rd_bytes (fd_content f)) \<le> maxStateFileSize"
    and "statePath e' = path" "blockStats e' = []"
  shows "map_of (blockStats (restoreState (as_load_result (LoadState fs path)) e')) = map_of (blockStats e)"
proof -
  have st: "saved = blockStats e" "path \<noteq> []" using assms(2) by (auto simp: saveState_def split: if_splits)
  have wf: "gm_wf saved" "length saved \<le> maxBlockStatsReasons" using assms(1) st by (simp_all add: engine_inv_def logs_ok_def)
  have dots: "\<not> Contains_str path ''..''" using assms(4) st by (auto simp: SaveState_def split: if_splits)
  have "rd_bytes (fd_content f) = encode_state \<lparr>BlockStats = Some saved\<rparr>"
    using saved_content [OF assms(4) st(2)] assms(5,10) by (simp add: closed_content_def)
  then obtain m where m: "Decode (rd_bytes (fd_content f)) = Some \<lparr>BlockStats = Some m\<rparr>" "gm_wf m" "map_of m = map_of saved"
    using Decode_encode [of "\<lparr>BlockStats = Some saved\<rparr>" saved] wf assms(3) by auto
  have "LoadState fs path = Inr (Some \<lparr>BlockStats = Some m\<rparr>)"
    by (rule LoadState_content [OF st(2) dots assms(6-9,11) m(1)])
  then have "blockStats (restoreState (as_load_result (LoadState fs path)) e') = fold restore_entry m []"
    using assms(12,13) st(2) by (simp add: as_load_result_def restoreState_def)
  also have "\<dots> = fold (\<lambda>kv. AList.update (fst kv) (snd kv)) m []"
    using wf same_lookup_length [OF wf(1) m(2,3)] by (intro restore_all) simp
  finally show ?thesis
    using fold_update_lookup [of m "[]"] m(2,3) st(1) by (auto simp: gm_wf_def split: option.splits)
qed

text \<open>
  A reason that is not valid UTF-8, such as one cut inside a character by the engine's truncation,
  comes back as another reason: the broken byte is replaced.
\<close>

lemma replacement_bytes: "utf8_encode 0xFFFD = replacement"
  by (simp add: utf8_encode_def replacement_def char_of_def bit_0)

lemma broken_reason_is_renamed:
  "dec_string (drop 1 (enc_string [CHR 0xC3]) @ t) = Some (replacement, t)"
proof -
  have "runes [CHR 0xC3] = [[CHR 0xC3]]"
    by (simp add: runes.simps utf8_len_def byte_in_def utf8_two_def utf8_three_def utf8_four_def)
  then have "enc_string [CHR 0xC3] = quote_char # backslash # CHR ''u'' # ''fffd'' @ [quote_char]"
    by (simp add: enc_string_def enc_rune_def utf8_len_def byte_in_def utf8_two_def utf8_three_def utf8_four_def)
  moreover have "str_step backslash (CHR ''u'' # ''fffd'' @ quote_char # t) = StrBytes replacement 5"
    by (simp add: str_step_def unicode_escape_def hex4_def hex_val_def numeral_2_eq_2 numeral_3_eq_3 replacement_bytes)
  ultimately show ?thesis using dec_string_step by simp
qed

section \<open>Samples\<close>

definition sample_save_os :: save_os where
  "sample_save_os = \<lparr>so_mkdir_ok = True, so_lstat = (\<lambda>_. NotSymlink), so_open_ok = True, so_written = None, so_closed = None, so_rename_ok = True, so_remove_ok = True\<rparr>"

definition sample_counts :: "(string, int64) gomap" where
  "sample_counts = [(''rate'', 3), (''policy'', 5)]"

definition saved_engine :: Engine where
  "saved_engine = sample_engine\<lparr>statePath := ''/s/st'', blockStats := sample_counts\<rparr>"

definition sample_file :: fd where
  "sample_file = \<lparr>fd_stat = Some \<lparr>st_regular = True, st_size = 0, st_mtime = 0\<rparr>,
     fd_content = \<lparr>rd_bytes = encode_state \<lparr>BlockStats = Some sample_counts\<rparr>, rd_end = EOF, rd_early = False\<rparr>\<rparr>"

definition sample_files :: files where
  "sample_files = \<lparr>os_lstat = (\<lambda>_. NotSymlink), os_stat = (\<lambda>_. None), os_open = (\<lambda>_. Opened sample_file)\<rparr>"

lemma sample_state_path: "RejectSymlinkComponents (\<lambda>_. NotSymlink) (Dir ''/s/st'') = None" "\<not> Contains_str ''/s/st'' ''..''"
  by (simp_all add: RejectSymlinkComponents_def Dir_def Clean_def IsAbs_def Join2_def Contains_str_def upt_rec)

lemma ascii_runes: "list_all (\<lambda>c. code c < 0x80) s \<Longrightarrow> runes s = map (\<lambda>c. [c]) s"
proof (induction s)
  case (Cons c s)
  have "utf8_len (c # s) = 1" using Cons.prems by (simp add: utf8_len_ascii)
  with Cons show ?case by (subst runes.simps) simp
qed (simp add: runes.simps)

lemma enc_rune_bound: "length r \<le> 4 \<Longrightarrow> length (enc_rune r) \<le> 6"
  by (auto simp: enc_rune_def escape_ascii_def)

lemma ascii_enc_bound:
  assumes "list_all (\<lambda>c. code c < 0x80) s"
  shows "length (enc_string s) \<le> 6 * length s + 2"
proof -
  have "length (concat (map (\<lambda>c. enc_rune [c]) s)) \<le> 6 * length s" for s
  proof (induction s)
    case (Cons c s)
    then show ?case using enc_rune_bound [of "[c]"] by simp
  qed simp
  then show ?thesis using ascii_runes [OF assms] by (simp add: enc_string_def comp_def)
qed

lemma sample_state_size: "length (encode_state \<lparr>BlockStats = Some sample_counts\<rparr>) \<le> maxStateFileSize"
proof -
  have so: "sorted_members sample_counts = [(''policy'', 5), (''rate'', 3)]"
    by (simp add: sorted_members_def sample_counts_def less_char_def)
  have "dec 5 = ''5''" "dec 3 = ''3''" by (simp_all add: dec_def ndigits.simps digit_char_def char_of_def bit_0)
  then have i: "AppendInt 5 = ''5''" "AppendInt 3 = ''3''" by (simp_all add: AppendInt_def)
  have "length (enc_string ''policy'') \<le> 38" "length (enc_string ''rate'') \<le> 26" "length (enc_string ''block_stats'') \<le> 68"
    using ascii_enc_bound [of "''policy''"] ascii_enc_bound [of "''rate''"] ascii_enc_bound [of "''block_stats''"] by simp_all
  then show ?thesis
    by (simp add: encode_state_def encode_counts_def enc_object_def so i maxStateFileSize_def)
qed

theorem save_is_atomic_witness:
  "\<exists>ds. SaveState (sample_save_os\<lparr>so_rename_ok := False\<rparr>) ''/s/st'' (Some \<lparr>BlockStats = None\<rparr>) [(''/s/st'', ''old'')] = (Some SaveRename, ds) \<and>
     map_of (List.last ds) ''/s/st'' = Some ''old'' \<and> map_of (List.last ds) (''/s/st'' @ ''.tmp'') = None"
proof -
  let ?os = "sample_save_os\<lparr>so_rename_ok := False\<rparr>"
  obtain ds where s: "SaveState ?os ''/s/st'' (Some \<lparr>BlockStats = None\<rparr>) [(''/s/st'', ''old'')] = (Some SaveRename, ds)"
    using sample_state_path by (simp add: SaveState_def sample_save_os_def Let_def)
  from save_is_atomic [OF s] s show ?thesis by (auto simp: sample_save_os_def)
qed

theorem counters_survive_restart_witness:
  "map_of (blockStats (restoreState (as_load_result (LoadState sample_files ''/s/st'')) (saved_engine\<lparr>blockStats := []\<rparr>))) = map_of sample_counts"
proof -
  have inv: "engine_inv saved_engine"
    using engine_reachable_inv [OF sample_engine_reachable]
    by (simp add: engine_inv_def logs_ok_def saved_engine_def sample_counts_def gm_wf_def maxBlockStatsReasons_def)
  have sv: "saveState saved_engine = Some (''/s/st'', sample_counts)" by (simp add: saveState_def saved_engine_def)
  have u: "\<forall>k \<in> gm_keys sample_counts. valid_utf8 k" by (simp add: sample_counts_def valid_utf8_ascii)
  obtain ds where ds: "SaveState sample_save_os ''/s/st'' (Some \<lparr>BlockStats = Some sample_counts\<rparr>) [] = (None, ds)"
      "map_of (List.last ds) ''/s/st'' = Some (encode_state \<lparr>BlockStats = Some sample_counts\<rparr>)"
    using sample_state_path by (simp add: SaveState_def sample_save_os_def Let_def save_lookups rename_file_lookup)
  show ?thesis
    using counters_survive_restart [OF inv sv u ds(1) _, of sample_files sample_file _ "saved_engine\<lparr>blockStats := []\<rparr>"] ds(2) sample_state_path sample_state_size
    by (simp add: sample_files_def sample_file_def sample_save_os_def) (simp add: saved_engine_def)
qed

end
