(* ===== verification/Admin.thy ===== *)
theory Admin
  imports Engine
begin

text \<open>
  internal/admin/api.go: the admin HTTP API. A handler takes the response headers set so far,
  the request and the API state, and gives the response and the new state; the engine it
  reports on, the clock and the iteration order of the counter map come in \<open>admin_env\<close>.
  A JSON body is kept as the value handed to the encoder. The evaluator pointer of the API
  struct is stored and never used, so the record leaves it out.
\<close>

section \<open>The router of net/http\<close>

text \<open>What the handlers see of a request; \<open>Authorization\<close> is empty when the header is absent.\<close>

record request =
  Method :: string
  RequestURI :: string
  EscapedPath :: string
  Authorization :: string

definition cleanPath :: "string \<Rightarrow> string" where
  "cleanPath p0 =
     (if p0 = [] then ''/''
      else (let p = (if hd p0 \<noteq> slash then slash # p0 else p0); np = Clean p
            in if List.last p = slash \<and> np \<noteq> ''/'' then np @ ''/'' else np))"

fun unescape :: "string \<Rightarrow> string option" where
  "unescape [] = Some []"
| "unescape (c # s) =
     (if c = CHR ''%'' then
        (case s of
           a # b # s' \<Rightarrow>
             (case (hex_val a, hex_val b) of
                (Some x, Some y) \<Rightarrow> map_option ((#) (char_of (16 * x + y))) (unescape s')
              | _ \<Rightarrow> None)
         | _ \<Rightarrow> None)
      else map_option ((#) c) (unescape s))"

definition pathUnescape :: "string \<Rightarrow> string" where
  "pathUnescape s = (case unescape s of None \<Rightarrow> s | Some u \<Rightarrow> u)"

definition segments :: "string \<Rightarrow> string list" where
  "segments p = (if p = [] then [] else map pathUnescape (Split_sep slash (tl p)))"

text \<open>
  The mux answers some requests itself; otherwise a literal pattern matches when its segments
  are those of the path.
\<close>

datatype mux_result = MuxBadRequest | MuxRedirect string | MuxPath "string list"

definition findHandler :: "request \<Rightarrow> mux_result" where
  "findHandler r =
     (if RequestURI r = ''*'' then MuxBadRequest
      else if Method r = ''CONNECT'' then MuxPath (segments (EscapedPath r))
      else if cleanPath (EscapedPath r) \<noteq> EscapedPath r then MuxRedirect (cleanPath (EscapedPath r))
      else MuxPath (segments (EscapedPath r)))"

section \<open>State and responses\<close>

record PolicyVersion =
  Timestamp :: time
  Version :: string
  Description :: string

text \<open>A nil history is the empty list: the only difference the code could show is hidden by \<open>handlePolicyVersions\<close>.\<close>

record API =
  version :: string
  started :: time
  token :: string
  readToken :: string
  policyVersions :: "PolicyVersion list"

definition New :: "time \<Rightarrow> string \<Rightarrow> string \<Rightarrow> string \<Rightarrow> API" where
  "New now ver tok readTok =
     \<lparr>version = ver, started = now, token = tok, readToken = readTok, policyVersions = []\<rparr>"

datatype body =
    PlainText string
  | Location string
  | HealthDoc string string duration bool
  | StatsDoc PacketStats int int int bool duration string
  | BlocksDoc "BlockLogEntry list"
  | BlockStatsDoc "(string, int64) gomap"
  | VersionsDoc "PolicyVersion list"
  | MessageDoc "(string, string) gomap"

type_synonym headers = "(string, string) gomap"

record response =
  StatusCode :: nat
  Header :: headers
  Body :: body

type_synonym handler = "headers \<Rightarrow> request \<Rightarrow> API \<Rightarrow> response \<times> API"

record admin_env =
  the_engine :: Engine
  clock :: time
  counter_order :: "string list"

definition set_header :: "string \<Rightarrow> string \<Rightarrow> headers \<Rightarrow> headers" where
  "set_header k val h = AList.update k val h"

definition http_Error :: "headers \<Rightarrow> string \<Rightarrow> nat \<Rightarrow> response" where
  "http_Error h msg status =
     \<lparr>StatusCode = status,
      Header = set_header ''X-Content-Type-Options'' ''nosniff''
        (set_header ''Content-Type'' ''text/plain; charset=utf-8'' h),
      Body = PlainText (msg @ [CHR 0x0A])\<rparr>"

definition http_OK :: "headers \<Rightarrow> body \<Rightarrow> response" where
  "http_OK h b = \<lparr>StatusCode = 200, Header = h, Body = b\<rparr>"

definition json_type :: "headers \<Rightarrow> headers" where
  "json_type h = set_header ''Content-Type'' ''application/json'' h"

definition quoted_error :: "string \<Rightarrow> string" where
  "quoted_error msg = [CHR ''{'', CHR 0x22] @ ''error'' @ [CHR 0x22, CHR '':'', CHR 0x22] @ msg @ [CHR 0x22, CHR ''}'']"

section \<open>Authorization\<close>

definition extractToken :: "request \<Rightarrow> string" where
  "extractToken r =
     (let auth = Authorization r
      in if auth = [] then []
         else if length auth > 7 \<and> take 7 auth = ''Bearer '' then drop 7 auth
         else auth)"

text \<open>\<open>ConstantTimeCompare\<close> is 1 exactly for equal byte strings.\<close>

definition tokenMatches :: "string \<Rightarrow> string \<Rightarrow> bool" where
  "tokenMatches given expected = (if expected = [] then False else given = expected)"

definition requireReadAuth :: "API \<Rightarrow> handler \<Rightarrow> handler" where
  "requireReadAuth a next =
     (if token a = [] \<and> readToken a = [] then next
      else (\<lambda>h r s.
        let given = extractToken r
        in if given = [] then (http_Error h (quoted_error ''authorization required'') 401, s)
           else if tokenMatches given (token a) \<or> (readToken a \<noteq> [] \<and> tokenMatches given (readToken a)) then next h r s
           else (http_Error h (quoted_error ''invalid authorization token'') 403, s)))"

definition requireWriteAuth :: "API \<Rightarrow> handler \<Rightarrow> handler" where
  "requireWriteAuth a next =
     (if token a = [] \<and> readToken a = [] then next
      else (\<lambda>h r s.
        let given = extractToken r
        in if given = [] then (http_Error h (quoted_error ''authorization required'') 401, s)
           else if tokenMatches given (token a) then next h r s
           else if readToken a \<noteq> [] \<and> tokenMatches given (readToken a)
             then (http_Error h (quoted_error ''read-only token cannot modify resources'') 403, s)
           else (http_Error h (quoted_error ''invalid authorization token'') 403, s)))"

section \<open>Handlers\<close>

definition handleHealth :: "admin_env \<Rightarrow> handler" where
  "handleHealth v h r a =
     (http_OK (json_type h)
        (HealthDoc ''ok'' (version a) (time_sub (clock v) (started a)) (Running (the_engine v))), a)"

definition handleStats :: "admin_env \<Rightarrow> handler" where
  "handleStats v h r a =
     (let ct = ConntrackStats (the_engine v)
      in (http_OK h
            (StatsDoc (Engine_Stats (the_engine v)) (Created ct) (Expired ct) (Evicted ct)
               (Running (the_engine v)) (time_sub (clock v) (started a)) (version a)), a))"

definition handleBlocks :: "admin_env \<Rightarrow> handler" where
  "handleBlocks v h r a =
     (case RecentBlocks (the_engine v) of
        None \<Rightarrow> (http_OK (json_type h) (BlocksDoc []), a)
      | Some blocks \<Rightarrow> (http_OK (json_type h) (BlocksDoc blocks), a))"

definition handleBlockStats :: "admin_env \<Rightarrow> handler" where
  "handleBlockStats v h r a =
     (http_OK (json_type h) (BlockStatsDoc (BlockStats_copy (counter_order v) (the_engine v))), a)"

definition handlePolicyReload :: "admin_env \<Rightarrow> handler" where
  "handlePolicyReload v h r a =
     (if Method r \<noteq> ''POST'' then (http_Error h (quoted_error ''use POST'') 405, a)
      else (let vs = policyVersions a @
                  [\<lparr>Timestamp = clock v, Version = version a, Description = ''policy reload triggered via admin API''\<rparr>];
                vs' = (if length vs > 100 then drop (length vs - 100) vs else vs)
            in (http_OK (json_type h) (MessageDoc [(''status'', ''ok''), (''message'', ''reload triggered'')]),
                a\<lparr>policyVersions := vs'\<rparr>)))"

definition handlePolicyVersions :: "admin_env \<Rightarrow> handler" where
  "handlePolicyVersions v h r a = (http_OK (json_type h) (VersionsDoc (policyVersions a)), a)"

definition routes :: "admin_env \<Rightarrow> API \<Rightarrow> (string list \<times> handler) list" where
  "routes v a =
     [([''admin'', ''health''], handleHealth v),
      ([''admin'', ''stats''], requireReadAuth a (handleStats v)),
      ([''admin'', ''blocks''], requireReadAuth a (handleBlocks v)),
      ([''admin'', ''block-stats''], requireReadAuth a (handleBlockStats v)),
      ([''admin'', ''policy'', ''versions''], requireReadAuth a (handlePolicyVersions v)),
      ([''admin'', ''policy'', ''reload''], requireWriteAuth a (handlePolicyReload v))]"

definition ServeHTTP :: "(string list \<times> handler) list \<Rightarrow> handler" where
  "ServeHTTP patterns h r a =
     (case findHandler r of
        MuxBadRequest \<Rightarrow> (\<lparr>StatusCode = 400, Header = h, Body = PlainText []\<rparr>, a)
      | MuxRedirect u \<Rightarrow> (\<lparr>StatusCode = 301, Header = h, Body = Location u\<rparr>, a)
      | MuxPath p \<Rightarrow>
          (case map_of patterns p of
             None \<Rightarrow> (http_Error h ''404 page not found'' 404, a)
           | Some serve \<Rightarrow> serve h r a))"

definition withSecurityHeaders :: "handler \<Rightarrow> handler" where
  "withSecurityHeaders next h r a =
     next (set_header ''X-Frame-Options'' ''DENY'' (set_header ''X-Content-Type-Options'' ''nosniff'' h)) r a"

definition Handler :: "admin_env \<Rightarrow> request \<Rightarrow> API \<Rightarrow> response \<times> API" where
  "Handler v r a = withSecurityHeaders (ServeHTTP (routes v a)) [] r a"

section \<open>Servers\<close>

record http_server =
  Addr :: string
  ReadHeaderTimeout :: duration
  ReadTimeout :: duration
  WriteTimeout :: duration
  IdleTimeout :: duration

definition newServer :: "string \<Rightarrow> http_server" where
  "newServer addr =
     \<lparr>Addr = addr, ReadHeaderTimeout = seconds 5, ReadTimeout = seconds 10,
      WriteTimeout = seconds 10, IdleTimeout = seconds 30\<rparr>"

record 'cert tls_config =
  Certificates :: "'cert list"
  MinVersion :: nat

datatype serving = ServesHTTP | ServesTLS

definition StartServer :: "string \<Rightarrow> http_server \<times> serving" where
  "StartServer addr = (newServer addr, ServesHTTP)"

text \<open>
  Loading the key pair and listening are given by their results: a certificate, and the address
  of the listener.
\<close>

definition StartServerTLS ::
    "(string \<Rightarrow> string \<Rightarrow> 'cert option) \<Rightarrow> (string \<Rightarrow> 'cert tls_config \<Rightarrow> string option) \<Rightarrow>
     string \<Rightarrow> string \<Rightarrow> string \<Rightarrow> ((http_server \<times> serving) \<times> string) option" where
  "StartServerTLS loadPair listen addr certFile keyFile =
     (if certFile = [] \<or> keyFile = [] then Some (StartServer addr, Addr (fst (StartServer addr)))
      else (case loadPair certFile keyFile of
              None \<Rightarrow> Some (StartServer addr, Addr (fst (StartServer addr)))
            | Some cert \<Rightarrow>
                (case listen addr \<lparr>Certificates = [cert], MinVersion = 0x0303\<rparr> of
                   None \<Rightarrow> None
                 | Some laddr \<Rightarrow> Some ((newServer [], ServesTLS), laddr))))"

section \<open>Lemmas\<close>

text \<open>The access rules: with no token configured the API is open; an empty token admits nobody.\<close>

definition no_auth :: "API \<Rightarrow> bool" where
  "no_auth a \<longleftrightarrow> token a = [] \<and> readToken a = []"

definition may_write :: "API \<Rightarrow> request \<Rightarrow> bool" where
  "may_write a r \<longleftrightarrow> no_auth a \<or> (extractToken r \<noteq> [] \<and> extractToken r = token a)"

definition may_read :: "API \<Rightarrow> request \<Rightarrow> bool" where
  "may_read a r \<longleftrightarrow> may_write a r \<or> (extractToken r \<noteq> [] \<and> extractToken r = readToken a)"

definition denied :: "request \<Rightarrow> nat" where
  "denied r = (if extractToken r = [] then 401 else 403)"

fun firewall_data :: "body \<Rightarrow> bool" where
  "firewall_data (StatsDoc _ _ _ _ _ _ _) = True"
| "firewall_data (BlocksDoc _) = True"
| "firewall_data (BlockStatsDoc _) = True"
| "firewall_data (VersionsDoc _) = True"
| "firewall_data _ = False"

definition read_paths :: "string list set" where
  "read_paths = {[''admin'', ''stats''], [''admin'', ''blocks''], [''admin'', ''block-stats''], [''admin'', ''policy'', ''versions'']}"

definition reload_path :: "string list" where
  "reload_path = [''admin'', ''policy'', ''reload'']"

definition recent :: "nat \<Rightarrow> 'a list \<Rightarrow> 'a list" where
  "recent n xs = drop (length xs - n) xs"

lemma length_recent [simp]: "length (recent n xs) = min n (length xs)"
  by (auto simp: recent_def)

lemma requireReadAuth_apply:
  "requireReadAuth a next h r s =
     (if may_read a r then next h r s
      else (http_Error h (quoted_error (if extractToken r = [] then ''authorization required'' else ''invalid authorization token'')) (denied r), s))"
  by (auto simp: requireReadAuth_def may_read_def may_write_def no_auth_def tokenMatches_def denied_def Let_def)

lemma requireWriteAuth_apply:
  "\<exists>msg. requireWriteAuth a next h r s = (if may_write a r then next h r s else (http_Error h msg (denied r), s))"
  by (auto simp: requireWriteAuth_def may_write_def no_auth_def tokenMatches_def denied_def Let_def)

lemma handlePolicyReload_state:
  "snd (handlePolicyReload v h r a) =
     (if Method r = ''POST''
      then a\<lparr>policyVersions := recent 100 (policyVersions a @
             [\<lparr>Timestamp = clock v, Version = version a, Description = ''policy reload triggered via admin API''\<rparr>])\<rparr>
      else a)"
  by (simp add: handlePolicyReload_def recent_def Let_def)

lemma handler_bodies:
  "firewall_data (Body (fst (handleStats v h r a)))" "firewall_data (Body (fst (handleBlocks v h r a)))"
  "firewall_data (Body (fst (handleBlockStats v h r a)))" "firewall_data (Body (fst (handlePolicyVersions v h r a)))"
  "\<not> firewall_data (Body (fst (handleHealth v h r a)))" "\<not> firewall_data (Body (fst (handlePolicyReload v h r a)))"
  by (simp_all add: handleStats_def handleBlocks_def handleBlockStats_def handlePolicyVersions_def handleHealth_def
      handlePolicyReload_def http_OK_def http_Error_def Let_def split: option.split)

lemma handler_states:
  "snd (handleStats v h r a) = a" "snd (handleBlocks v h r a) = a" "snd (handleBlockStats v h r a) = a"
  "snd (handlePolicyVersions v h r a) = a" "snd (handleHealth v h r a) = a"
  by (simp_all add: handleStats_def handleBlocks_def handleBlockStats_def handlePolicyVersions_def handleHealth_def
      Let_def split: option.split)

definition hardened :: "headers \<Rightarrow> bool" where
  "hardened h \<longleftrightarrow> map_of h ''X-Frame-Options'' = Some ''DENY'' \<and> map_of h ''X-Content-Type-Options'' = Some ''nosniff''"

lemma set_header_hardened:
  "k \<noteq> ''X-Frame-Options'' \<Longrightarrow> k \<noteq> ''X-Content-Type-Options'' \<or> val = ''nosniff'' \<Longrightarrow> hardened h \<Longrightarrow> hardened (set_header k val h)"
  by (auto simp: hardened_def set_header_def update_conv')

lemma http_Error_simps [simp]:
  "\<not> firewall_data (Body (http_Error h msg c))" "StatusCode (http_Error h msg c) = c"
  "hardened h \<Longrightarrow> hardened (Header (http_Error h msg c))"
  by (simp_all add: http_Error_def set_header_hardened)

lemma handlers_hardened:
  assumes "hardened h"
  shows "hardened (Header (fst (handleStats v h r a)))" "hardened (Header (fst (handleBlocks v h r a)))"
    "hardened (Header (fst (handleBlockStats v h r a)))" "hardened (Header (fst (handlePolicyVersions v h r a)))"
    "hardened (Header (fst (handleHealth v h r a)))" "hardened (Header (fst (handlePolicyReload v h r a)))"
  using assms by (simp_all add: handleStats_def handleBlocks_def handleBlockStats_def handlePolicyVersions_def handleHealth_def
      handlePolicyReload_def http_OK_def json_type_def set_header_hardened Let_def split: option.split)

lemmas handler_facts = handler_bodies handler_states handlers_hardened

text \<open>What every answer satisfies, given the segments the router matched.\<close>

definition answers :: "admin_env \<Rightarrow> API \<Rightarrow> request \<Rightarrow> string list option \<Rightarrow> response \<times> API \<Rightarrow> bool" where
  "answers v a r p x \<longleftrightarrow>
     (firewall_data (Body (fst x)) \<longleftrightarrow> may_read a r \<and> p \<in> Some ` read_paths) \<and>
     snd x = (if may_write a r \<and> Method r = ''POST'' \<and> p = Some reload_path
              then a\<lparr>policyVersions := recent 100 (policyVersions a @
                     [\<lparr>Timestamp = clock v, Version = version a, Description = ''policy reload triggered via admin API''\<rparr>])\<rparr>
              else a) \<and>
     (p \<in> Some ` read_paths \<and> \<not> may_read a r \<or> p = Some reload_path \<and> \<not> may_write a r \<longrightarrow> StatusCode (fst x) = denied r) \<and>
     hardened (Header (fst x))"

lemma answers_read:
  assumes "p \<in> read_paths" "\<And>r a. firewall_data (Body (fst (next h r a)))" "\<And>r a. snd (next h r a) = a"
    "\<And>r a. hardened (Header (fst (next h r a)))" "hardened h"
  shows "answers v a r (Some p) (requireReadAuth a next h r a)"
proof -
  have "p \<noteq> reload_path" using assms(1) by (auto simp: read_paths_def reload_path_def)
  with assms show ?thesis by (auto simp: answers_def requireReadAuth_apply)
qed

lemma answers_reload:
  assumes "hardened h"
  shows "answers v a r (Some reload_path) (requireWriteAuth a (handlePolicyReload v) h r a)"
proof -
  have p: "reload_path \<notin> read_paths" by (auto simp: read_paths_def reload_path_def)
  obtain msg where "requireWriteAuth a (handlePolicyReload v) h r a =
      (if may_write a r then handlePolicyReload v h r a else (http_Error h msg (denied r), a))"
    using requireWriteAuth_apply by blast
  with p assms show ?thesis
    by (auto simp: answers_def handler_facts handlePolicyReload_state)
qed

lemma answers_other:
  assumes "p \<notin> Some ` insert reload_path read_paths" "\<not> firewall_data (Body (fst x))" "snd x = a" "hardened (Header (fst x))"
  shows "answers v a r p x"
  using assms by (auto simp: answers_def)

lemma routes_None:
  assumes "p \<notin> insert [''admin'', ''health''] (insert reload_path read_paths)"
  shows "map_of (routes v a) p = None"
  using assms by (simp add: map_of_eq_None_iff routes_def read_paths_def reload_path_def)

lemma ServeHTTP_answers:
  assumes "hardened h"
  shows "answers v a r (case findHandler r of MuxPath p \<Rightarrow> Some p | _ \<Rightarrow> None) (ServeHTTP (routes v a) h r a)"
proof (cases "findHandler r")
  case (MuxPath p)
  consider "p = [''admin'', ''health'']" | "p = [''admin'', ''stats'']" | "p = [''admin'', ''blocks'']"
    | "p = [''admin'', ''block-stats'']" | "p = [''admin'', ''policy'', ''versions'']" | "p = reload_path"
    | "map_of (routes v a) p = None" "p \<notin> insert reload_path read_paths"
    using routes_None by (force simp: read_paths_def)
  then show ?thesis
  proof cases
    case 1
    then have "p \<notin> insert reload_path read_paths" by (simp add: read_paths_def reload_path_def)
    with 1 MuxPath assms show ?thesis
      by (auto simp: ServeHTTP_def routes_def handler_facts intro!: answers_other)
  next
    case 6
    then show ?thesis using answers_reload [OF assms] MuxPath by (simp add: ServeHTTP_def routes_def reload_path_def)
  next
    case 7
    then show ?thesis using MuxPath assms by (auto simp: ServeHTTP_def intro!: answers_other)
  qed (use MuxPath assms in \<open>simp_all add: ServeHTTP_def routes_def answers_read read_paths_def handler_facts\<close>)
qed (use assms in \<open>simp_all add: ServeHTTP_def answers_other\<close>)

lemma Handler_answers: "answers v a r (case findHandler r of MuxPath p \<Rightarrow> Some p | _ \<Rightarrow> None) (Handler v r a)"
proof -
  have "hardened (set_header ''X-Frame-Options'' ''DENY'' (set_header ''X-Content-Type-Options'' ''nosniff'' []))"
    by (simp add: hardened_def set_header_def)
  from ServeHTTP_answers [OF this] show ?thesis by (simp add: Handler_def withSecurityHeaders_def)
qed

text \<open>The history stays within a hundred entries, and the credentials never change.\<close>

lemma Handler_frame:
  "length (policyVersions a) \<le> 100 \<Longrightarrow> length (policyVersions (snd (Handler v r a))) \<le> 100"
  "token (snd (Handler v r a)) = token a" "readToken (snd (Handler v r a)) = readToken a"
  using Handler_answers [of v a r] by (simp_all add: answers_def)

section \<open>Properties\<close>

text \<open>
  C8. Access control of the admin API, for every request, spelling of the path and state:
  firewall data is in the answer exactly when the request reaches one of the four read endpoints
  and carries the full or the read-only token (or no token is configured); the reload history
  changes exactly when a POST reaches the reload endpoint with the full token, and then keeps the
  last hundred entries; a request without the right is answered 401 when it carries no token
  and 403 otherwise; every answer, the router's own included, has both security headers.
\<close>

theorem admin_access_control:
  assumes "Handler v r a = (rsp, a')"
  shows "(firewall_data (Body rsp) \<longleftrightarrow> may_read a r \<and> (\<exists>p \<in> read_paths. findHandler r = MuxPath p)) \<and>
    a' = (if may_write a r \<and> Method r = ''POST'' \<and> findHandler r = MuxPath reload_path
          then a\<lparr>policyVersions := recent 100 (policyVersions a @
                 [\<lparr>Timestamp = clock v, Version = version a, Description = ''policy reload triggered via admin API''\<rparr>])\<rparr>
          else a) \<and>
    ((\<exists>p \<in> read_paths. findHandler r = MuxPath p) \<and> \<not> may_read a r \<or> findHandler r = MuxPath reload_path \<and> \<not> may_write a r
       \<longrightarrow> StatusCode rsp = denied r) \<and>
    hardened (Header rsp)"
  using Handler_answers [of v a r] assms by (cases "findHandler r") (auto simp: answers_def)

text \<open>A percent-encoded spelling of the reload path, with the full and with the read-only token.\<close>

definition sample_api :: API where
  "sample_api = New 0 ''0.1.0'' ''full'' ''read''"

definition sample_request :: "string \<Rightarrow> request" where
  "sample_request auth =
     \<lparr>Method = ''POST'', RequestURI = ''/admin/policy/%72eload'', EscapedPath = ''/admin/policy/%72eload'', Authorization = auth\<rparr>"

lemma sample_route: "findHandler (sample_request auth) = MuxPath reload_path"
  by (simp add: findHandler_def sample_request_def cleanPath_def Clean_def IsAbs_def segments_def pathUnescape_def
      hex_val_def reload_path_def char_of_def bit_0)

definition sample_admin_env :: admin_env where
  "sample_admin_env = \<lparr>the_engine = sample_engine, clock = 7, counter_order = []\<rparr>"

lemma sample_history: "policyVersions sample_api = []"
  by (simp add: sample_api_def New_def)

lemma sample_rights:
  "may_write sample_api (sample_request ''Bearer full'')" "\<not> may_write sample_api (sample_request ''read'')"
  by (simp_all add: may_write_def no_auth_def sample_api_def New_def sample_request_def extractToken_def)

theorem admin_access_control_witness:
  "policyVersions (snd (Handler sample_admin_env (sample_request ''Bearer full'') sample_api)) \<noteq> [] \<and>
   snd (Handler sample_admin_env (sample_request ''read'') sample_api) = sample_api \<and>
   StatusCode (fst (Handler sample_admin_env (sample_request ''read'') sample_api)) = 403"
proof -
  note ac = admin_access_control [OF surjective_pairing, of sample_admin_env _ sample_api]
  have m: "Method (sample_request auth) = ''POST''" for auth by (simp add: sample_request_def)
  have "length (policyVersions (snd (Handler sample_admin_env (sample_request ''Bearer full'') sample_api))) = 1"
    using ac [of "sample_request ''Bearer full''"] by (simp add: sample_route sample_rights m sample_history)
  moreover have "denied (sample_request ''read'') = 403" by (simp add: denied_def extractToken_def sample_request_def)
  ultimately show ?thesis
    using ac [of "sample_request ''read''"] by (auto simp: sample_route sample_rights)
qed

section \<open>Further facts\<close>

text \<open>The admin API is served without TLS not only when no certificate is named, but also when the named one does not load.\<close>

lemma StartServerTLS_plain_iff:
  "(\<exists>srv laddr. StartServerTLS loadPair listen addr certFile keyFile = Some ((srv, ServesHTTP), laddr)) \<longleftrightarrow>
   certFile = [] \<or> keyFile = [] \<or> loadPair certFile keyFile = None"
  by (auto simp: StartServerTLS_def StartServer_def split: option.split)

end
