(* ===== verification/Server.thy ===== *)
theory Server
  imports PolicyWatch Syncer AuditLog Capture Persist Admin
begin

text \<open>
  cmd/server/main.go: the flags, the start-up sequence that builds the components and wires them
  together, and the running system. The policy file watcher, the etcd syncer and the engine
  share one evaluator; the threat refresher shares the engine's blocklist; the admin API reads the
  engine.
\<close>

section \<open>Flags\<close>

record Flags =
  adminListen :: string
  adminToken :: string
  adminReadToken :: string
  queueNum :: nat
  opaEmbed :: string
  opaFailClosed :: bool
  opaAuditOnly :: bool
  metricsListen :: string
  rateLimitPPS :: float64
  rateLimitBPS :: float64
  conntrackMax :: int
  conntrackIdle :: duration
  conntrackUDP :: duration
  conntrackICMP :: duration
  conntrackMaxFlowsPerSrc :: int
  auditLogPath :: string
  alertWebhookURL :: string
  geoipDBPath :: string
  threatIntelURL :: string
  pcapDir :: string
  stateFile :: string
  etcdEndpoints :: string
  etcdKey :: string

text \<open>The values of the flags that are not given.\<close>

definition defaultFlags :: Flags where
  "defaultFlags =
     \<lparr>adminListen = '':8082'', adminToken = [], adminReadToken = [], queueNum = 0,
      opaEmbed = ''./opa-policies/l3.rego'', opaFailClosed = False, opaAuditOnly = False, metricsListen = [],
      rateLimitPPS = 0, rateLimitBPS = 0, conntrackMax = 65536, conntrackIdle = seconds 300,
      conntrackUDP = seconds 30, conntrackICMP = seconds 5, conntrackMaxFlowsPerSrc = 0, auditLogPath = [],
      alertWebhookURL = [], geoipDBPath = [], threatIntelURL = [], pcapDir = [], stateFile = [],
      etcdEndpoints = [], etcdKey = ''/l3-firewall/policy''\<rparr>"

definition server_version :: string where
  "server_version = ''0.1.0''"

section \<open>Start-up\<close>

text \<open>What start-up meets outside: one field per component that looks.\<close>

record world =
  policy_view :: files
  etcd_connects :: "string list \<Rightarrow> duration \<Rightarrow> bool"
  etcd_get :: get_result
  audit_view :: audit_os
  audit_before :: audit_dir
  geo_open :: "string \<Rightarrow> mmdb option"
  geo_view :: files
  web :: "string \<Rightarrow> http_result"
  capture_view :: capture_os
  boot_clock :: time
  state_view :: files
  queue_opens :: bool
  queue_registers :: bool

datatype fatal =
    NoPolicyPath
  | PolicyUnreadable read_err
  | PolicyRejected Opa.load_err
  | AuditFailed audit_err
  | GeoIPFailed geo_err
  | CaptureFailed capture_err

text \<open>The evaluator as the engine calls it.\<close>

definition eval_of :: "('c, 'p) rego \<Rightarrow> ('c, 'p) Evaluator \<Rightarrow> Input \<Rightarrow> eval_outcome" where
  "eval_of R evl input =
     (case Evaluate R evl input of
        Inl NotInitialized \<Rightarrow> EvalError ''evaluator not initialized''
      | Inl (EvalFailed err) \<Rightarrow> EvalError (''OPA eval: '' @ err)
      | Inr r \<Rightarrow> Evaluated r)"

definition endpoints :: "Flags \<Rightarrow> string list" where
  "endpoints f = map TrimSpace (Split_sep CHR '','' (etcdEndpoints f))"

definition start_syncer ::
    "('c, 'p) rego \<Rightarrow> world \<Rightarrow> Flags \<Rightarrow> ('c, 'p) Evaluator \<Rightarrow> ('c, 'p) Evaluator Syncer option" where
  "start_syncer R w f evl =
     (if etcdEndpoints f = [] then None
      else (case Syncer.New (etcd_connects w)
                   \<lparr>Endpoints = endpoints f, Key = etcdKey f, Syncer.Config.Timeout = 0\<rparr> evl of
              Inl err \<Rightarrow> None
            | Inr so \<Rightarrow> Start (Some (load_cb (Load R))) (etcd_get w) so))"

definition conntrack_config :: "Flags \<Rightarrow> Conntrack.Config" where
  "conntrack_config f =
     \<lparr>MaxEntries = conntrackMax f, MaxFlowsPerSrcIP = conntrackMaxFlowsPerSrc f, IdleTimeout = conntrackIdle f,
      UDPTimeout = conntrackUDP f, ICMPTimeout = conntrackICMP f, PortScanWindow = 0, PortScanMaxPorts = 0\<rparr>"

definition open_audit :: "world \<Rightarrow> Flags \<Rightarrow> fatal + Logger option" where
  "open_audit w f =
     (if auditLogPath f = [] then Inr None
      else (case fst (NewLogger (audit_view w) \<lparr>Path = auditLogPath f, MaxSizeMB = 0, MaxBackups = 0\<rparr> (audit_before w)) of
              Inl err \<Rightarrow> Inl (AuditFailed err)
            | Inr l \<Rightarrow> Inr (Some l)))"

definition open_alerts :: "Flags \<Rightarrow> Router option" where
  "open_alerts f =
     (if alertWebhookURL f = [] then None
      else Some (NewRouter \<lparr>WebhookURL = alertWebhookURL f, Cooldown = 0\<rparr>))"

definition open_geoip :: "world \<Rightarrow> Flags \<Rightarrow> fatal + mmdb option" where
  "open_geoip w f =
     (if geoipDBPath f = [] then Inr None
      else (case NewReader (geo_open w) (geo_view w) (geoipDBPath f) of
              Inl err \<Rightarrow> Inl (GeoIPFailed err)
            | Inr r \<Rightarrow> Inr r))"

text \<open>The URLs are trimmed for the first fetch; the refresher gets them as they were split.\<close>

definition feed_urls :: "Flags \<Rightarrow> string list" where
  "feed_urls f = Split_sep CHR '','' (threatIntelURL f)"

definition open_threats :: "world \<Rightarrow> Flags \<Rightarrow> Blocklist option \<times> (string list \<times> duration) option" where
  "open_threats w f =
     (if threatIntelURL f = [] then (None, None)
      else (let bl = fold (\<lambda>url b. fst (FetchFromURL (web w (TrimSpace url)) b)) (feed_urls f) (Some NewBlocklist)
            in (bl, map_option (Pair (feed_urls f)) (StartRefresher bl (feed_urls f) (seconds 1800)))))"

definition open_capture :: "world \<Rightarrow> Flags \<Rightarrow> fatal + Writer option" where
  "open_capture w f =
     (if pcapDir f = [] then Inr None
      else (case NewWriter (capture_view w) \<lparr>CaptureDir = pcapDir f, MaxFiles = 0, MaxPackets = 0\<rparr> of
              Inl err \<Rightarrow> Inl (CaptureFailed err)
            | Inr cw \<Rightarrow> Inr cw))"

section \<open>The system\<close>

text \<open>
  \<open>loaded\<close> records every policy given to the evaluator, in order, with where it came from;
  nothing reads it. \<open>watching\<close>: the syncer's goroutine runs.
\<close>

datatype source = FromFile files | FromEtcd

record ('c, 'p) System =
  evaluator :: "('c, 'p) Evaluator"
  sync :: "('c, 'p) Evaluator Syncer option"
  watching :: bool
  lastMod :: "time option"
  engine :: Engine
  api :: API
  refresher :: "(string list \<times> duration) option"
  audit_logger :: "Logger option"
  capture :: "Writer option"
  admin_server :: "http_server option"
  metrics_server :: "http_server option"
  queue :: "16 word"
  run_failed :: "run_error option"
  loaded :: "(source \<times> string) list"

definition newMetricsServer :: "string \<Rightarrow> http_server" where
  "newMetricsServer addr =
     \<lparr>Addr = addr, ReadHeaderTimeout = seconds 5, ReadTimeout = seconds 10,
      WriteTimeout = seconds 10, IdleTimeout = seconds 30\<rparr>"

definition handed_by :: "'e Syncer option \<Rightarrow> (source \<times> string) list" where
  "handed_by so = (case so of None \<Rightarrow> [] | Some s \<Rightarrow> map (\<lambda>h. (FromEtcd, handed_policy h)) (handed s))"

text \<open>
  From the syncer to the start of \<open>Run\<close>. The call of \<open>metrics.Init\<close> among these steps is the first of
  the process and changes nothing of the system; the theory Metrics has it.
\<close>

definition build ::
    "('c, 'p) rego \<Rightarrow> world \<Rightarrow> Flags \<Rightarrow> string \<Rightarrow> time \<Rightarrow> ('c, 'p) Evaluator \<Rightarrow> fatal + ('c, 'p) System" where
  "build R w f data modTime evl0 =
     (let so = start_syncer R w f evl0;
          evl = (case so of None \<Rightarrow> evl0 | Some s \<Rightarrow> target s)
      in case open_audit w f of Inl err \<Rightarrow> Inl err | Inr al \<Rightarrow>
     (case open_geoip w f of Inl err \<Rightarrow> Inl err | Inr gr \<Rightarrow>
     (case open_capture w f of Inl err \<Rightarrow> Inl err | Inr cw \<Rightarrow>
     (let (bl, refr) = open_threats w f;
          eng = Engine.New (Some (eval_of R evl)) (NewTable (conntrack_config f)) (NewLimiter (rateLimitPPS f) (rateLimitBPS f))
                  (opaFailClosed f) (opaAuditOnly f) (al \<noteq> None) (open_alerts f) gr bl (cw \<noteq> None) (stateFile f) None;
          (err, eng') = run_begin (as_load_result (LoadState (state_view w) (stateFile f))) (queue_opens w) (queue_registers w) eng
      in Inr \<lparr>evaluator = evl, sync = so, watching = (so \<noteq> None), lastMod = Some modTime, engine = eng',
           api = Admin.New (boot_clock w) server_version (adminToken f) (adminReadToken f),
           refresher = refr, audit_logger = al, capture = cw,
           admin_server = (if adminListen f = [] then None else Some (fst (StartServer (adminListen f)))),
           metrics_server = (if metricsListen f = [] then None else Some (newMetricsServer (metricsListen f))),
           queue = of_nat (queueNum f), run_failed = err,
           loaded = (FromFile (policy_view w), data) # handed_by so\<rparr>))))"

definition main :: "('c, 'p) rego \<Rightarrow> world \<Rightarrow> Flags \<Rightarrow> fatal + ('c, 'p) System" where
  "main R w f =
     (if opaEmbed f = [] then Inl NoPolicyPath
      else (case readPolicyFile (policy_view w) (opaEmbed f) of
        Inl err \<Rightarrow> Inl (PolicyUnreadable err)
      | Inr (data, modTime) \<Rightarrow>
          (case NewEmbedded R \<lparr>Policy = data, EmbedConfig.Timeout = 0\<rparr> of
             Inl err \<Rightarrow> Inl (PolicyRejected err)
           | Inr evl \<Rightarrow> build R w f data modTime evl)))"

section \<open>Running\<close>

text \<open>
  One action of a goroutine at a time: loads of the evaluator are serialized by its mutex, and a
  packet uses the query that is in force when it is evaluated.
\<close>

datatype action =
    Packet gopacket env "32 word \<Rightarrow> verdict \<Rightarrow> bool" attribute
  | Poll files files
  | Etcd watch_input reconnect
  | Refresh "string \<Rightarrow> http_result"
  | Housekeeping env wake
  | AdminRequest time "string list" request

definition live :: "('c, 'p) rego \<Rightarrow> ('c, 'p) System \<Rightarrow> Engine" where
  "live R s = (engine s)\<lparr>eval := Some (eval_of R (evaluator s))\<rparr>"

definition verdict_sent ::
    "('c, 'p) rego \<Rightarrow> gopacket \<Rightarrow> env \<Rightarrow> (32 word \<Rightarrow> verdict \<Rightarrow> bool) \<Rightarrow> attribute \<Rightarrow> ('c, 'p) System \<Rightarrow> (32 word \<times> verdict) option" where
  "verdict_sent R gp v sends attr s = fst (handleQueuePacket gp v sends attr (live R s))"

definition packet_step ::
    "('c, 'p) rego \<Rightarrow> gopacket \<Rightarrow> env \<Rightarrow> (32 word \<Rightarrow> verdict \<Rightarrow> bool) \<Rightarrow> attribute \<Rightarrow> ('c, 'p) System \<Rightarrow> ('c, 'p) System" where
  "packet_step R gp v sends attr s = s\<lparr>engine := snd (snd (handleQueuePacket gp v sends attr (live R s)))\<rparr>"

definition poll_step :: "('c, 'p) rego \<Rightarrow> string \<Rightarrow> files \<Rightarrow> files \<Rightarrow> ('c, 'p) System \<Rightarrow> ('c, 'p) System" where
  "poll_step R path at_stat at_read s =
     (case pollPolicyFile (Load R) path at_stat at_read (lastMod s) (evaluator s) of
        (d, m, evl) \<Rightarrow>
          s\<lparr>evaluator := evl, lastMod := m,
            loaded := loaded s @ (case offers path (at_stat, at_read) (lastMod s) of
                                    None \<Rightarrow> [] | Some (data, _) \<Rightarrow> [(FromFile at_read, data)])\<rparr>)"

definition etcd_step :: "('c, 'p) rego \<Rightarrow> watch_input \<times> reconnect \<Rightarrow> ('c, 'p) System \<Rightarrow> ('c, 'p) System" where
  "etcd_step R i s =
     (case sync s of
        None \<Rightarrow> s
      | Some y \<Rightarrow>
          if \<not> watching s then s
          else (case watch_step (Some (load_cb (Load R))) i (y\<lparr>target := evaluator s\<rparr>) of
                  (goes_on, y') \<Rightarrow>
                    s\<lparr>evaluator := target y', sync := Some y', watching := goes_on,
                      loaded := loaded s @ drop (length (handed y)) (handed_by (Some y'))\<rparr>))"

definition refresh_step :: "(string \<Rightarrow> http_result) \<Rightarrow> ('c, 'p) System \<Rightarrow> ('c, 'p) System" where
  "refresh_step site s =
     (case refresher s of
        None \<Rightarrow> s
      | Some (urls, interval) \<Rightarrow>
          s\<lparr>engine := (engine s)\<lparr>threatIntel := refresh_loop urls [RefreshTick site] (threatIntel (engine s))\<rparr>\<rparr>)"

definition sys_step :: "('c, 'p) rego \<Rightarrow> string \<Rightarrow> action \<Rightarrow> ('c, 'p) System \<Rightarrow> ('c, 'p) System" where
  "sys_step R path a s =
     (case a of
        Packet gp v sends attr \<Rightarrow> packet_step R gp v sends attr s
      | Poll at_stat at_read \<Rightarrow> poll_step R path at_stat at_read s
      | Etcd i r \<Rightarrow> etcd_step R (i, r) s
      | Refresh site \<Rightarrow> refresh_step site s
      | Housekeeping v w \<Rightarrow> s\<lparr>engine := fst (housekeep v w (engine s))\<rparr>
      | AdminRequest now ord r \<Rightarrow>
          s\<lparr>api := snd (Handler \<lparr>the_engine = engine s, clock = now, counter_order = ord\<rparr> r (api s))\<rparr>)"

section \<open>Lemmas\<close>

text \<open>The query of the last policy of a list that the evaluator accepts.\<close>

definition last_accepted :: "('c, 'p) rego \<Rightarrow> string list \<Rightarrow> 'p option" where
  "last_accepted R ps = fold (\<lambda>p g. if accepted R p = None then g else accepted R p) ps None"

text \<open>A query governs, and it is that of the last acceptable policy of the list.\<close>

definition governed :: "('c, 'p) rego \<Rightarrow> string list \<Rightarrow> ('c, 'p) Evaluator \<Rightarrow> bool" where
  "governed R ps e \<longleftrightarrow> prepared e = last_accepted R ps \<and> prepared e \<noteq> None"

text \<open>Where a policy may come from: a whole regular file of bounded size, or etcd within its limit.\<close>

definition verified :: "string \<Rightarrow> source \<times> string \<Rightarrow> bool" where
  "verified path sp =
     (case fst sp of
        FromFile fs \<Rightarrow> (\<exists>m. readPolicyFile fs path = Inr (snd sp, m)) \<and> (nofollow fs \<longrightarrow> symlink_free fs path)
      | FromEtcd \<Rightarrow> length (snd sp) \<le> maxPolicySize)"

lemma verified_file: "readPolicyFile fs path = Inr (data, m) \<Longrightarrow> verified path (FromFile fs, data)"
  using readPolicyFile_symlink [of fs path] by (auto simp: verified_def)

definition sys_inv :: "('c, 'p) rego \<Rightarrow> Flags \<Rightarrow> ('c, 'p) System \<Rightarrow> bool" where
  "sys_inv R f s \<longleftrightarrow>
     governed R (map snd (loaded s)) (evaluator s) \<and>
     (\<forall>sp \<in> set (loaded s). verified (opaEmbed f) sp) \<and>
     (\<forall>y. sync s = Some y \<longrightarrow> has_client y \<and> limited y) \<and>
     engine_reachable (engine s) \<and> auditOnly (engine s) = opaAuditOnly f \<and>
     length (policyVersions (api s)) \<le> 100"

definition action_ok :: "action \<Rightarrow> bool" where
  "action_ok a =
     (case a of
        Packet gp v sends attr \<Rightarrow> env_ok v
      | Etcd i r \<Rightarrow> clocks_ok i
      | Housekeeping v w \<Rightarrow> env_ok v
      | _ \<Rightarrow> True)"

lemma governed_loads:
  assumes "governed R ps e"
  shows "governed R (ps @ qs) (fold (\<lambda>p e. snd (Load R p e)) qs e)"
proof -
  have "prepared (fold (\<lambda>p e. snd (Load R p e)) qs e) \<noteq> None"
    by (rule embedded.loads_keep_governing [OF assms [unfolded governed_def, THEN conjunct2]])
  moreover have "prepared (fold (\<lambda>p e. snd (Load R p e)) qs e) = last_accepted R (ps @ qs)"
    using assms by (simp add: embedded.loads_govern governed_def last_accepted_def)
  ultimately show ?thesis unfolding governed_def by blast
qed

lemma poll_inv:
  assumes "sys_inv R f s"
  shows "sys_inv R f (poll_step R (opaEmbed f) at_stat at_read s)"
proof -
  obtain d m evl where p: "pollPolicyFile (Load R) (opaEmbed f) at_stat at_read (lastMod s) (evaluator s) = (d, m, evl)"
    by (cases "pollPolicyFile (Load R) (opaEmbed f) at_stat at_read (lastMod s) (evaluator s)")
  show ?thesis
  proof (cases "offers (opaEmbed f) (at_stat, at_read) (lastMod s)")
    case None
    with p assms embedded.poll_effect [OF p] show ?thesis by (simp add: poll_step_def sys_inv_def)
  next
    case (Some r)
    obtain data t where r: "r = (data, t)" by (cases r)
    have "evl = snd (Load R data (evaluator s))"
      using p Some r by (cases "Load R data (evaluator s)") (auto simp: pollPolicyFile_offers split: option.splits)
    then have g: "governed R (map snd (loaded s) @ [data]) evl"
      using governed_loads [of R "map snd (loaded s)" "evaluator s" "[data]"] assms by (simp add: sys_inv_def)
    have "verified (opaEmbed f) (FromFile at_read, data)"
      using Some r by (auto simp: offers_def intro: verified_file split: option.splits if_splits sum.splits)
    with p Some r g assms show ?thesis by (auto simp: poll_step_def sys_inv_def)
  qed
qed

lemma limited_target [simp]: "limited (y\<lparr>target := e\<rparr>) = limited y"
  by (simp add: spaced_def sized_def flush_times_def)

lemma etcd_inv:
  assumes "sys_inv R f s" "clocks_ok (fst i)"
  shows "sys_inv R f (etcd_step R i s)"
proof (cases "\<exists>y. sync s = Some y \<and> watching s")
  case True
  then obtain y where y: "sync s = Some y" "watching s" by blast
  let ?y = "y\<lparr>target := evaluator s\<rparr>"
  obtain b y' where w: "watch_step (Some (load_cb (Load R))) i ?y = (b, y')" by (cases "watch_step (Some (load_cb (Load R))) i ?y")
  have c: "has_client ?y" "limited ?y" using assms(1) y by (auto simp: sys_inv_def spaced_def sized_def flush_times_def)
  have l: "has_client y'" "limited y'" using watch_step_last [OF w c(1)] limited_step [OF w c assms(2)] by simp_all
  obtain hs where hs: "handed y' = handed y @ hs" "target y' = fold (\<lambda>p e. snd (Load R p e)) (map handed_policy hs) (evaluator s)"
    using hands_over_step [OF w c(1)] by (auto simp: hands_over_def)
  have st: "etcd_step R i s = s\<lparr>evaluator := target y', sync := Some y', watching := b,
      loaded := loaded s @ map (\<lambda>h. (FromEtcd, handed_policy h)) hs\<rparr>"
    using y w hs(1) by (simp add: etcd_step_def handed_by_def drop_map)
  have "governed R (map snd (loaded s) @ map handed_policy hs) (target y')"
    unfolding hs(2) by (rule governed_loads) (use assms(1) in \<open>simp add: sys_inv_def\<close>)
  moreover have "\<forall>h \<in> set hs. length (handed_policy h) \<le> maxPolicySize" using l(2) hs(1) by (simp add: sized_def)
  ultimately show ?thesis
    using assms(1) l by (auto simp: st sys_inv_def verified_def comp_def)
qed (use assms in \<open>auto simp: etcd_step_def split: option.split\<close>)

lemma handleQueuePacket_same: "same_parts e (snd (snd (handleQueuePacket gp v sends attr e)))"
proof -
  have "same_parts e (snd (evaluatePacket v pkt n e))" for pkt n
    using evaluate_body_same [of v pkt n e] by (auto simp: evaluatePacket_def same_parts_logs_iff split: prod.split outcome.split)
  then have "same_parts e (snd (packetHandler gp v attr e))"
    by (auto simp: packetHandler_def same_parts_logs_iff split: option.split parse_result.split prod.split) (metis snd_conv)+
  then show ?thesis by (auto simp: handleQueuePacket_def Let_def split: option.split prod.split)
qed

lemma packet_inv:
  assumes "sys_inv R f s" "env_ok v"
  shows "sys_inv R f (packet_step R gp v sends attr s)"
proof -
  obtain sent ret e' where h: "handleQueuePacket gp v sends attr (live R s) = (sent, ret, e')"
    by (cases "handleQueuePacket gp v sends attr (live R s)")
  have "engine_reachable (live R s)" using assms(1) by (auto simp: sys_inv_def live_def intro: engine_reachable.reload)
  then have "engine_reachable e'" using assms(2) h by (rule engine_reachable.packet)
  moreover have "auditOnly e' = auditOnly (engine s)"
    using handleQueuePacket_same [of "live R s" gp v sends attr] h by (simp add: same_parts_def live_def)
  ultimately show ?thesis using assms(1) h by (simp add: packet_step_def sys_inv_def)
qed

lemma housekeep_inv:
  assumes "engine_reachable e" "env_ok v"
  shows "engine_reachable (fst (housekeep v w e)) \<and> auditOnly (fst (housekeep v w e)) = auditOnly e"
proof (cases w)
  case (Tick t1 t2)
  with engine_reachable.tick [OF assms, of t1 t2] show ?thesis by (simp add: housekeep_def maintain_def Let_def)
qed (use assms in \<open>simp add: housekeep_def\<close>)

lemma sys_step_inv:
  assumes "sys_inv R f s" "action_ok a"
  shows "sys_inv R f (sys_step R (opaEmbed f) a s)"
proof (cases a)
  case (Refresh site)
  have "engine_reachable (engine s)" using assms(1) by (simp add: sys_inv_def)
  then have "engine_reachable ((engine s)\<lparr>threatIntel := refresh_loop urls [RefreshTick site] (threatIntel (engine s))\<rparr>)" for urls
    by (rule engine_reachable.refresh)
  with Refresh assms(1) show ?thesis by (auto simp: sys_step_def refresh_step_def sys_inv_def split: option.split)
next
  case (Housekeeping v w)
  with assms housekeep_inv [of "engine s" v w] show ?thesis by (simp add: sys_step_def sys_inv_def action_ok_def)
next
  case (AdminRequest now ord r)
  with assms Handler_frame(1) show ?thesis by (simp add: sys_step_def sys_inv_def)
qed (use assms in \<open>simp_all add: sys_step_def action_ok_def packet_inv poll_inv etcd_inv\<close>)

lemma start_syncer_started:
  assumes "start_syncer R w f evl = Some y"
  shows "has_client y \<and> limited y \<and> target y = fold (\<lambda>p e. snd (Load R p e)) (map handed_policy (handed y)) evl"
proof -
  let ?c = "\<lparr>Endpoints = endpoints f, Key = etcdKey f, Syncer.Config.Timeout = 0\<rparr>"
  obtain y0 where y0: "Syncer.New (etcd_connects w) ?c evl = Inr (Some y0)" "Start (Some (load_cb (Load R))) (etcd_get w) (Some y0) = Some y"
  proof (cases "Syncer.New (etcd_connects w) ?c evl")
    case (Inr so)
    then have "Start (Some (load_cb (Load R))) (etcd_get w) so = Some y"
      using assms by (simp add: start_syncer_def split: if_splits)
    with Inr that show thesis by (cases so) (simp_all add: Start_def)
  qed (use assms in \<open>simp add: start_syncer_def split: if_splits\<close>)
  note n = New_Start [OF y0]
  have "target y0 = evl" using y0(1) by (auto simp: Syncer.New_def Let_def split: if_splits)
  moreover have "hands_over (Load R) y0 (snd (loadCurrent (Some (load_cb (Load R))) (etcd_get w) y0))"
    by (rule hands_over_load [OF n(2)])
  ultimately have "target y = fold (\<lambda>p e. snd (Load R p e)) (map handed_policy (handed y)) evl"
    unfolding n(1) hands_over_def by (auto simp: n(5))
  then show ?thesis using started_client [OF y0] started_limited [OF y0] by blast
qed

lemma open_threats_ok: "bl_ok (fst (open_threats w f))"
proof -
  have "bl_ok (fold (\<lambda>url b. fst (FetchFromURL (web w (TrimSpace url)) b)) urls b)" if "bl_ok b" for urls b
    using that
  proof (induction urls arbitrary: b)
    case (Cons url urls)
    obtain es where "fst (FetchFromURL (web w (TrimSpace url)) b) = fold Add es b" using FetchFromURL_fold by blast
    then have "bl_ok (fst (FetchFromURL (web w (TrimSpace url)) b))" using Cons.prems blocklist.feed_inv by simp
    from Cons.IH [OF this] show ?case by simp
  qed simp
  then show ?thesis by (simp add: open_threats_def Let_def bl_ok_def [of "Some NewBlocklist"] bl_ok_def [of None])
qed

lemma main_starts:
  assumes "main R w f = Inr s"
  obtains data modTime evl where "readPolicyFile (policy_view w) (opaEmbed f) = Inr (data, modTime)"
    "NewEmbedded R \<lparr>Policy = data, EmbedConfig.Timeout = 0\<rparr> = Inr evl" "build R w f data modTime evl = Inr s"
proof (cases "readPolicyFile (policy_view w) (opaEmbed f)")
  case (Inr r)
  obtain data modTime where r: "r = (data, modTime)" by (cases r)
  show thesis
  proof (cases "NewEmbedded R \<lparr>Policy = data, EmbedConfig.Timeout = 0\<rparr>")
    case (Inr evl)
    with assms \<open>readPolicyFile _ _ = _\<close> r have "build R w f data modTime evl = Inr s"
      by (simp add: main_def split: if_splits)
    with that \<open>readPolicyFile _ _ = _\<close> r Inr show thesis by blast
  qed (use assms Inr r in \<open>simp add: main_def split: if_splits\<close>)
qed (use assms in \<open>simp add: main_def split: if_splits\<close>)

lemma build_inv:
  assumes "readPolicyFile (policy_view w) (opaEmbed f) = Inr (data, modTime)"
    "NewEmbedded R \<lparr>Policy = data, EmbedConfig.Timeout = 0\<rparr> = Inr evl0" "build R w f data modTime evl0 = Inr s"
  shows "sys_inv R f s"
proof -
  let ?so = "start_syncer R w f evl0"
  let ?evl = "case ?so of None \<Rightarrow> evl0 | Some y \<Rightarrow> target y"
  have "governed R [data] evl0"
    using assms(2) by (auto simp: NewEmbedded_accepted governed_def last_accepted_def)
  then have g: "governed R (data # map snd (handed_by ?so)) ?evl"
    using governed_loads [of R "[data]" evl0] start_syncer_started [of R w f evl0]
    by (cases ?so) (simp_all add: handed_by_def comp_def)
  have hs: "\<forall>sp \<in> set (handed_by ?so). verified (opaEmbed f) sp" "\<forall>y. ?so = Some y \<longrightarrow> has_client y \<and> limited y"
    using start_syncer_started [of R w f evl0] by (cases ?so; auto simp: handed_by_def verified_def sized_def)+
  obtain al gr cw where o: "open_audit w f = Inr al" "open_geoip w f = Inr gr" "open_capture w f = Inr cw"
    using assms(3) by (cases "open_audit w f"; cases "open_geoip w f"; cases "open_capture w f") (simp_all add: build_def Let_def)
  obtain bl refr where t: "open_threats w f = (bl, refr)" by (cases "open_threats w f")
  let ?e = "Engine.New (Some (eval_of R ?evl)) (NewTable (conntrack_config f)) (NewLimiter (rateLimitPPS f) (rateLimitBPS f))
      (opaFailClosed f) (opaAuditOnly f) (al \<noteq> None) (open_alerts f) gr bl (cw \<noteq> None) (stateFile f) None"
  obtain err e' where r: "run_begin (as_load_result (LoadState (state_view w) (stateFile f))) (queue_opens w) (queue_registers w) ?e = (err, e')"
    by fastforce
  have "engine_reachable ?e" using open_threats_ok [of w f] t by (intro engine_reachable.start) simp
  then have "engine_reachable e'" using r by (rule engine_reachable.run)
  moreover have "auditOnly e' = opaAuditOnly f"
    using r by (auto simp: run_begin_def restoreState_def Engine.New_def Let_def split: if_splits load_result.splits)
  moreover have "evaluator s = ?evl" "sync s = ?so" "engine s = e'" "loaded s = (FromFile (policy_view w), data) # handed_by ?so"
    "policyVersions (api s) = []"
    using assms(3) unfolding build_def Let_def o t r sum.case prod.case by (auto simp: Admin.New_def)
  ultimately show ?thesis using verified_file [OF assms(1)] g hs by (simp add: sys_inv_def)
qed

lemma system_inv:
  assumes "main R w f = Inr s0" "\<forall>a \<in> set acts. action_ok a"
  shows "sys_inv R f (fold (sys_step R (opaEmbed f)) acts s0)"
proof -
  have "sys_inv R f s0" using main_starts [OF assms(1)] build_inv by metis
  with assms(2) show ?thesis by (induction acts arbitrary: s0) (simp_all add: sys_step_inv)
qed

lemma last_accepted_split:
  "last_accepted R (map snd sps) = Some q \<Longrightarrow>
   \<exists>before src p after. sps = before @ (src, p) # after \<and> accepted R p = Some q \<and> (\<forall>sp \<in> set after. accepted R (snd sp) = None)"
proof (induction sps rule: rev_induct)
  case (snoc sp sps)
  show ?case
  proof (cases "accepted R (snd sp)")
    case None
    with snoc obtain before src p after where "sps = before @ (src, p) # after" "accepted R p = Some q" "\<forall>sp \<in> set after. accepted R (snd sp) = None"
      by (auto simp: last_accepted_def)
    with None show ?thesis by (intro exI [of _ before] exI [of _ src] exI [of _ p] exI [of _ "after @ [sp]"]) simp
  next
    case (Some q')
    with snoc.prems have "q' = q" by (simp add: last_accepted_def)
    with Some show ?thesis by (intro exI [of _ sps] exI [of _ "fst sp"] exI [of _ "snd sp"] exI [of _ "[]"]) simp
  qed
qed (simp add: last_accepted_def)

lemma eval_of_allows:
  assumes "eval_of R evl input = Evaluated r" "Allowed r"
  shows "\<exists>q results. prepared evl = Some q \<and> Eval R q (eval_timeout evl) input = Inr results \<and> List.last (True # decisions results)"
  using assms Evaluate_Allowed [of evl]
  by (auto simp: eval_of_def Evaluate_def Let_def split: option.splits sum.splits eval_err.splits)

section \<open>Properties\<close>

text \<open>
  C1. End to end: start the firewall, let packets, polls of the policy file, etcd events, threat-feed
  refreshes, maintenance and admin requests happen in any order, and let a packet then be
  accepted (outside audit-only mode). Then it parsed, its source is not on the threat list, and
  it was allowed by the policy in force: the last policy handed to the evaluator by any source that
  the evaluator accepts, whose text is the whole content of a regular file of bounded size
  reached through no symbolic link, or came from etcd within the size limit. There always is
  one: the policy of the start-up file.\<close>

theorem accepted_packets_obey_the_last_good_policy:
  assumes "main R w f = Inr s0" "\<forall>a \<in> set acts. action_ok a" "s = fold (sys_step R (opaEmbed f)) acts s0"
    and "verdict_sent R gp v sends attr s = Some (pid, NfAccept)" "\<not> opaAuditOnly f"
  shows "\<exists>before src p after q raw pkt results.
    loaded s = before @ (src, p) # after \<and> accepted R p = Some q \<and> (\<forall>sp \<in> set after. accepted R (snd sp) = None) \<and>
    verified (opaEmbed f) (src, p) \<and> Payload attr = Some raw \<and> ParsePacket gp raw = Parsed pkt \<and>
    \<not> BL_Contains (threatIntel (engine s)) (SrcIP pkt) \<and>
    Eval R q (eval_timeout (evaluator s)) (policy_input v pkt (int (length raw)) (live R s)) = Inr results \<and>
    List.last (True # decisions results)"
proof -
  have inv: "sys_inv R f s" using system_inv [OF assms(1,2)] assms(3) by simp
  obtain raw pkt where a: "Payload attr = Some raw" "ParsePacket gp raw = Parsed pkt" "accepts v pkt (int (length raw)) (live R s)"
    using assms(4) by (auto simp: verdict_sent_def handleQueuePacket_def packetHandler_def Let_def evaluatePacket_accepts [symmetric]
        split: option.splits parse_result.splits prod.splits if_splits)
  let ?i = "policy_input v pkt (int (length raw)) (live R s)"
  have "auditOnly (live R s) = opaAuditOnly f" using inv by (simp add: sys_inv_def live_def)
  then obtain r where "eval_of R (evaluator s) ?i = Evaluated r" "Allowed r"
    using a(3) assms(5) by (auto simp: accepts_def live_def split: eval_outcome.splits)
  then obtain q results where q: "prepared (evaluator s) = Some q" "Eval R q (eval_timeout (evaluator s)) ?i = Inr results"
      "List.last (True # decisions results)"
    using eval_of_allows by blast
  have "last_accepted R (map snd (loaded s)) = Some q" using inv q(1) by (simp add: sys_inv_def governed_def)
  from last_accepted_split [OF this]
  obtain before src p after where l: "loaded s = before @ (src, p) # after" "accepted R p = Some q" "\<forall>sp \<in> set after. accepted R (snd sp) = None"
    by blast
  have "verified (opaEmbed f) (src, p)" using inv l(1) by (simp add: sys_inv_def)
  moreover have "\<not> BL_Contains (threatIntel (engine s)) (SrcIP pkt)" using a(3) by (simp add: accepts_def live_def)
  ultimately show ?thesis using l q(2,3) a(1,2) by blast
qed

text \<open>
  A sample run: started with an acceptable policy file, the watcher then finds a newer file that
  does not compile; the next packet is accepted under the start-up policy.
\<close>

definition sample_flags :: Flags where
  "sample_flags = defaultFlags\<lparr>opaEmbed := ''/p/l3.rego''\<rparr>"

definition sample_world :: world where
  "sample_world =
     \<lparr>policy_view = real_view 5 ''yes'', etcd_connects = (\<lambda>es t. False), etcd_get = get_result.GetErr,
      audit_view = sample_os, audit_before = [], geo_open = (\<lambda>b. None), geo_view = real_view 1 [],
      web = (\<lambda>u. http_result.GetErr), capture_view = sample_capture_os, boot_clock = 1, state_view = real_view 1 [],
      queue_opens = True, queue_registers = True\<rparr>"

definition sample_system :: "(string, string) System" where
  "sample_system = (case main sample_rego sample_world sample_flags of Inr s \<Rightarrow> s | Inl err \<Rightarrow> undefined)"

lemma sample_read: "length data \<le> maxPolicyFileSize \<Longrightarrow> readPolicyFile (real_view t data) ''/p/l3.rego'' = Inr (data, t)"
  by (rule real_view_read) (simp_all add: sample_path)

lemma os_stat_real: "os_stat (real_view t data) path = Some t"
  by (simp add: real_view_def)

lemma sample_NewEmbedded: "NewEmbedded sample_rego \<lparr>Policy = ''yes'', EmbedConfig.Timeout = 0\<rparr> = Inr sample_evaluator"
  by (simp add: NewEmbedded_accepted accepted_def sample_rego_def sample_evaluator_def)

lemma sample_off:
  "start_syncer R w sample_flags evl = None" "open_audit w sample_flags = Inr None" "open_geoip w sample_flags = Inr None"
  "open_capture w sample_flags = Inr None" "open_threats w sample_flags = (None, None)"
  by (simp_all add: sample_flags_def defaultFlags_def start_syncer_def open_audit_def open_geoip_def open_capture_def open_threats_def)

lemma sample_inputs: "policy_view sample_world = real_view 5 ''yes''" "opaEmbed sample_flags = ''/p/l3.rego''" "stateFile sample_flags = []"
  "rateLimitPPS sample_flags = 0" "rateLimitBPS sample_flags = 0" "\<not> opaAuditOnly sample_flags"
  "MaxFlowsPerSrcIP (conntrack_config sample_flags) = 0"
  by (simp_all add: sample_world_def sample_flags_def defaultFlags_def conntrack_config_def)

lemma sample_build: "build sample_rego sample_world sample_flags ''yes'' 5 sample_evaluator = Inr sample_system"
  and sample_main: "main sample_rego sample_world sample_flags = Inr sample_system"
proof -
  have m: "main sample_rego sample_world sample_flags = build sample_rego sample_world sample_flags ''yes'' 5 sample_evaluator"
    by (simp add: main_def sample_inputs sample_read maxPolicyFileSize_def sample_NewEmbedded)
  have "\<exists>s. build sample_rego sample_world sample_flags ''yes'' 5 sample_evaluator = Inr s"
    by (simp add: build_def sample_off Let_def split: prod.split)
  with m show "build sample_rego sample_world sample_flags ''yes'' 5 sample_evaluator = Inr sample_system"
    "main sample_rego sample_world sample_flags = Inr sample_system"
    by (auto simp: sample_system_def)
qed

lemma sample_state:
  assumes "build sample_rego sample_world sample_flags ''yes'' 5 sample_evaluator = Inr s"
  shows "evaluator s = sample_evaluator" "lastMod s = Some 5" "loaded s = [(FromFile (real_view 5 ''yes''), ''yes'')]"
  using assms by (auto simp: build_def sample_off sample_inputs Let_def handed_by_def split: prod.splits)

lemma sample_parts:
  assumes "build sample_rego sample_world sample_flags ''yes'' 5 sample_evaluator = Inr s"
  shows "threatIntel (engine s) = None" "l2Filter (engine s) = None" "ratelimit (engine s) = NewLimiter 0 0"
    "conntrack (engine s) = NewTable (conntrack_config sample_flags)"
  using assms
  by (auto simp: build_def sample_off sample_inputs Let_def run_begin_def restoreState_def Engine.New_def
      split: prod.splits if_splits)

lemma fresh_flow:
  assumes "conntrack e = NewTable c" "MaxFlowsPerSrcIP c \<le> 0"
  shows "packet_flow v pkt e \<noteq> None"
  using assms by (simp add: packet_flow_def track_flow_def UpdateTCPState_def LookupOrCreate_def reachedFlowLimitLocked_def NewTable_def
      effective_config_def Let_def add_processed_def)

lemma unlimited_rates:
  assumes "ratelimit e = NewLimiter 0 0"
  shows "\<not> ExceedsLimit (ratelimit (after_rates v pkt n e)) p q"
proof -
  have "ratelimit (after_port v pkt e) = NewLimiter 0 0"
    using assms by (simp add: after_port_def track_port_def after_flow_def track_flow_def Let_def split: prod.split)
  then have "ratelimit (after_rates v pkt n e) =
      snd (AllowPort (bucket_order v (buckets l)) (at_port v) (SrcIP pkt) (DstPort pkt) n l)"
    if "l = snd (Allow (bucket_order v []) (at_allow v) (SrcIP pkt) n (NewLimiter 0 0))" for l
    using that by (simp add: after_rates_def track_rates_def NewLimiter_def Let_def split: prod.split)
  then have "ppsLimit (ratelimit (after_rates v pkt n e)) = 0 \<and> bpsLimit (ratelimit (after_rates v pkt n e)) = 0"
    by (simp add: Allow_def AllowPort_def) (simp add: NewLimiter_def)
  then show ?thesis by (simp add: ExceedsLimit_def)
qed

lemma sample_evaluation: "eval_of sample_rego sample_evaluator i = Evaluated \<lparr>Allowed = True, Reason = []\<rparr>"
  by (simp add: eval_of_def Evaluate_def sample_evaluator_def sample_rego_def extract_expr_def allow_value_def)

lemma sample_accepts:
  assumes "s = sample_system\<lparr>evaluator := sample_evaluator, lastMod := m, loaded := ls\<rparr>"
  shows "accepts sample_env pkt n (live sample_rego s)"
proof -
  note parts = sample_parts [OF sample_build]
  have "packet_flow sample_env pkt (live sample_rego s) \<noteq> None"
    by (rule fresh_flow [of _ "conntrack_config sample_flags"]) (simp_all add: live_def assms parts sample_inputs)
  moreover have "\<not> ExceedsLimit (ratelimit (after_rates sample_env pkt n (live sample_rego s))) p q" for p q
    by (rule unlimited_rates) (simp add: live_def assms parts)
  moreover have "rand_bytes sample_env \<noteq> None" by (simp add: sample_env_def)
  ultimately show ?thesis
    by (simp add: accepts_def live_def assms parts MACAllowed_def BL_Contains_def sample_evaluation)
qed

theorem accepted_packets_obey_the_last_good_policy_witness:
  "let s = fold (sys_step sample_rego ''/p/l3.rego'') [Poll (real_view 6 ''bad'') (real_view 6 ''bad'')] sample_system in
   loaded s = [(FromFile (real_view 5 ''yes''), ''yes''), (FromFile (real_view 6 ''bad''), ''bad'')] \<and>
   verdict_sent sample_rego gp_wire sample_env (\<lambda>i d. True) sample_attr s = Some (7, NfAccept) \<and>
   (\<exists>before src p after. loaded s = before @ (src, p) # after \<and> accepted sample_rego p \<noteq> None)"
proof -
  define s where "s = fold (sys_step sample_rego ''/p/l3.rego'') [Poll (real_view 6 ''bad'') (real_view 6 ''bad'')] sample_system"
  note st = sample_state [OF sample_build]
  have "offers ''/p/l3.rego'' (real_view 6 ''bad'', real_view 6 ''bad'') (Some 5) = Some (''bad'', 6)"
    using sample_read [of "''bad''" 6] by (simp add: offers_def maxPolicyFileSize_def os_stat_real)
  moreover have "Load sample_rego ''bad'' sample_evaluator = (Some (CompileFailed ''syntax''), sample_evaluator)"
    by (simp add: Load_def sample_rego_def)
  ultimately have s: "s = sample_system\<lparr>evaluator := sample_evaluator, lastMod := Some 5,
      loaded := [(FromFile (real_view 5 ''yes''), ''yes''), (FromFile (real_view 6 ''bad''), ''bad'')]\<rparr>"
    by (simp add: s_def sys_step_def poll_step_def pollPolicyFile_offers st)
  obtain pkt where "ParsePacket gp_wire sample_head4 = Parsed pkt" using sample_packet by blast
  then have v: "verdict_sent sample_rego gp_wire sample_env (\<lambda>i d. True) sample_attr s = Some (7, NfAccept)"
    using sample_accepts [OF s, of pkt "int (length sample_head4)"]
    by (auto simp: verdict_sent_def handleQueuePacket_def packetHandler_def sample_attr_def evaluatePacket_accepts [symmetric] Let_def
        split: prod.split)
  have "\<exists>before src p after. loaded s = before @ (src, p) # after \<and> accepted sample_rego p \<noteq> None"
    using accepted_packets_obey_the_last_good_policy [OF sample_main _ _ v, of "[Poll (real_view 6 ''bad'') (real_view 6 ''bad'')]"]
    by (force simp: s_def sample_inputs action_ok_def)
  with v s show ?thesis unfolding s_def [symmetric] Let_def by simp
qed

section \<open>Further facts\<close>

text \<open>Both servers set the same four timeouts.\<close>

lemma newMetricsServer_eq: "newMetricsServer addr = newServer addr"
  by (simp add: newMetricsServer_def newServer_def)

text \<open>Unreachable etcd endpoints and failing threat feeds never stop the firewall from starting; a bad policy file does.\<close>

lemma build_fatal_iff:
  "(\<exists>err. build R w f data m evl = Inl err) \<longleftrightarrow>
     (\<exists>err. open_audit w f = Inl err) \<or> (\<exists>err. open_geoip w f = Inl err) \<or> (\<exists>err. open_capture w f = Inl err)"
  by (cases "open_audit w f"; cases "open_geoip w f"; cases "open_capture w f") (simp_all add: build_def Let_def split: prod.split)

lemma main_fatal_iff:
  "(\<exists>err. main R w f = Inl err) \<longleftrightarrow>
     opaEmbed f = [] \<or> (\<nexists>data m q. readPolicyFile (policy_view w) (opaEmbed f) = Inr (data, m) \<and> accepted R data = Some q) \<or>
     (\<exists>err. open_audit w f = Inl err) \<or> (\<exists>err. open_geoip w f = Inl err) \<or> (\<exists>err. open_capture w f = Inl err)"
proof (cases "readPolicyFile (policy_view w) (opaEmbed f)")
  case (Inr r)
  obtain data m where r: "r = (data, m)" by (cases r)
  show ?thesis
  proof (cases "NewEmbedded R \<lparr>Policy = data, EmbedConfig.Timeout = 0\<rparr>")
    case (Inl err)
    have "accepted R data = None"
    proof (rule ccontr)
      assume "accepted R data \<noteq> None"
      then obtain q where q: "accepted R data = Some q" by blast
      then obtain cm where "CompileModules R data = Inr cm" by (auto simp: accepted_def split: if_splits sum.splits)
      with q have "\<exists>evl. NewEmbedded R \<lparr>Policy = data, EmbedConfig.Timeout = 0\<rparr> = Inr evl"
        by (simp add: NewEmbedded_accepted)
      with Inl show False by simp
    qed
    with Inl Inr r show ?thesis by (simp add: main_def)
  next
    case (Inr evl)
    then have "\<exists>q. accepted R data = Some q" by (auto simp: NewEmbedded_accepted)
    with Inr \<open>readPolicyFile _ _ = _\<close> r show ?thesis by (simp add: main_def build_fatal_iff)
  qed
qed (simp add: main_def)

text \<open>The queue number is cut to 16 bits: \<open>--queue 65536\<close> listens on queue 0.\<close>

lemma queue_wraps:
  assumes "main R w f = Inr s"
  shows "unat (queue s) = queueNum f mod 65536"
proof -
  obtain data m evl where b: "build R w f data m evl = Inr s" using main_starts [OF assms] by metis
  have "queue s = of_nat (queueNum f)"
    using b by (cases "open_audit w f"; cases "open_geoip w f"; cases "open_capture w f")
      (auto simp: build_def Let_def split: prod.splits)
  then show ?thesis by (simp add: unat_of_nat)
qed

lemma fetched_Some: "fold (\<lambda>url b. fst (FetchFromURL (web w (TrimSpace url)) b)) urls (Some b) \<noteq> None"
proof (induction urls arbitrary: b)
  case (Cons url urls)
  have "fold Add es (Some b) \<noteq> None" for es by (induction es arbitrary: b) (simp_all add: Add_def)
  then obtain b' where "fst (FetchFromURL (web w (TrimSpace url)) (Some b)) = Some b'"
    using FetchFromURL_fold [of "web w (TrimSpace url)" "Some b"] by (metis not_None_eq)
  with Cons.IH show ?case by simp
qed simp

text \<open>
  A list of feeds written with a space after the comma: the second URL is fetched at start-up
  without the space, and refreshed with it.
\<close>

lemma feeds_refreshed_untrimmed:
  assumes "threatIntelURL f = ''http://a, http://b''"
  shows "map TrimSpace (feed_urls f) = [''http://a'', ''http://b'']"
    "map_option fst (snd (open_threats w f)) = Some [''http://a'', '' http://b'']"
proof -
  show "map TrimSpace (feed_urls f) = [''http://a'', ''http://b'']"
    by (simp add: feed_urls_def assms) code_simp
  have "fst (open_threats w f) \<noteq> None"
    using assms fetched_Some [of w "feed_urls f" NewBlocklist] by (simp add: open_threats_def Let_def)
  then show "map_option fst (snd (open_threats w f)) = Some [''http://a'', '' http://b'']"
    by (simp add: open_threats_def StartRefresher_def feed_urls_def assms Let_def)
qed

end
