(* ===== verification/Shutdown.thy ===== *)
theory Shutdown
  imports Engine
begin

text \<open>
  The end of main() in cmd/server/main.go: the goroutine that waits for a signal, the goroutine
  that runs the engine, and the engine's maintenance goroutine, as one step relation over their
  positions, the engine and the state last handed to \<open>persist.SaveState\<close>.
\<close>

section \<open>The goroutines\<close>

text \<open>Main is about to call \<open>Run\<close>, waits in it, waits for the main context after it failed, or has returned.\<close>

datatype main_pc = BeforeRun | InRun | RunFailed | Exited

text \<open>The signal goroutine waits, shuts the admin server down, stops the engine, cancels the main context, is done.\<close>

datatype signal_pc = Waiting | ShutdownAdmin | StopEngine | CancelMain | Ended

datatype keeper_pc = NotStarted | Keeping | Finished

record process =
  main_at :: main_pc
  signal_at :: signal_pc
  keeper_at :: keeper_pc
  eng :: Engine
  main_ctx_done :: bool
  disk_state :: "(string \<times> (string, int64) gomap) option"

definition launched :: "Engine \<Rightarrow> process" where
  "launched e = \<lparr>main_at = BeforeRun, signal_at = Waiting, keeper_at = NotStarted, eng = e,
     main_ctx_done = False, disk_state = None\<rparr>"

definition written :: "(string \<times> (string, int64) gomap) option \<Rightarrow> process \<Rightarrow> process" where
  "written st p = (case st of None \<Rightarrow> p | Some _ \<Rightarrow> p\<lparr>disk_state := st\<rparr>)"

text \<open>
  \<open>Run\<close> up to its wait is one step: a \<open>Stop\<close> comes before its \<open>setLifecycle\<close> and
  does nothing, or after it and then has the same effect before and after the queue is opened.
  Once main has returned, the process is gone.
\<close>

inductive shutdown_step :: "load_result \<Rightarrow> bool \<Rightarrow> bool \<Rightarrow> process \<Rightarrow> process \<Rightarrow> bool" for loaded opens registers where
  run_ok: "main_at p = BeforeRun \<Longrightarrow> run_begin loaded opens registers (eng p) = (None, e') \<Longrightarrow>
    shutdown_step loaded opens registers p (p\<lparr>main_at := InRun, keeper_at := Keeping, eng := e'\<rparr>)"
| run_err: "main_at p = BeforeRun \<Longrightarrow> run_begin loaded opens registers (eng p) = (Some err, e') \<Longrightarrow>
    shutdown_step loaded opens registers p (p\<lparr>main_at := RunFailed, eng := e'\<rparr>)"
| returns: "main_at p = InRun \<Longrightarrow> ctx_done (eng p) \<Longrightarrow>
    shutdown_step loaded opens registers p (p\<lparr>main_at := Exited, eng := run_end (eng p)\<rparr>)"
| gives_up: "main_at p = RunFailed \<Longrightarrow> main_ctx_done p \<Longrightarrow> shutdown_step loaded opens registers p (p\<lparr>main_at := Exited\<rparr>)"
| signalled: "main_at p \<noteq> Exited \<Longrightarrow> signal_at p = Waiting \<Longrightarrow>
    shutdown_step loaded opens registers p (p\<lparr>signal_at := ShutdownAdmin\<rparr>)"
| admin_down: "main_at p \<noteq> Exited \<Longrightarrow> signal_at p = ShutdownAdmin \<Longrightarrow>
    shutdown_step loaded opens registers p (p\<lparr>signal_at := StopEngine\<rparr>)"
| stops: "main_at p \<noteq> Exited \<Longrightarrow> signal_at p = StopEngine \<Longrightarrow>
    shutdown_step loaded opens registers p (p\<lparr>signal_at := CancelMain, eng := Stop (eng p)\<rparr>)"
| cancels: "main_at p \<noteq> Exited \<Longrightarrow> signal_at p = CancelMain \<Longrightarrow>
    shutdown_step loaded opens registers p (p\<lparr>signal_at := Ended, main_ctx_done := True\<rparr>)"
| tick: "main_at p \<noteq> Exited \<Longrightarrow> keeper_at p = Keeping \<Longrightarrow> housekeep v (Tick t1 t2) (eng p) = (e', st) \<Longrightarrow>
    shutdown_step loaded opens registers p (written st (p\<lparr>eng := e'\<rparr>))"
| last_save: "main_at p \<noteq> Exited \<Longrightarrow> keeper_at p = Keeping \<Longrightarrow> ctx_done (eng p) \<Longrightarrow> housekeep v Done (eng p) = (e', st) \<Longrightarrow>
    shutdown_step loaded opens registers p (written st (p\<lparr>eng := e', keeper_at := Finished\<rparr>))"
| packet: "main_at p = InRun \<Longrightarrow> handleQueuePacket gp v sends attr (eng p) = (sent, ret, e') \<Longrightarrow>
    shutdown_step loaded opens registers p (p\<lparr>eng := e'\<rparr>)"

inductive_cases step_cases: "shutdown_step loaded opens registers p p'"

abbreviation later :: "load_result \<Rightarrow> bool \<Rightarrow> bool \<Rightarrow> process \<Rightarrow> process \<Rightarrow> bool" where
  "later loaded opens registers \<equiv> (shutdown_step loaded opens registers)\<^sup>*\<^sup>*"

section \<open>Lemmas\<close>

lemma written_simps [simp]:
  "main_at (written st p) = main_at p" "signal_at (written st p) = signal_at p" "keeper_at (written st p) = keeper_at p"
  "eng (written st p) = eng p" "main_ctx_done (written st p) = main_ctx_done p"
  by (simp_all add: written_def split: option.split)

text \<open>Packets and maintenance leave the lifecycle of the engine alone.\<close>

definition same_lifecycle :: "Engine \<Rightarrow> Engine \<Rightarrow> bool" where
  "same_lifecycle e e' \<longleftrightarrow> has_cancel e' = has_cancel e \<and> ctx_done e' = ctx_done e"

lemma same_lifecycle_refl [simp]: "same_lifecycle e e"
  by (simp add: same_lifecycle_def)

lemma lifecycle_logs [simp]:
  "same_lifecycle e (add_processed s) = same_lifecycle e s" "same_lifecycle e (add_allowed s) = same_lifecycle e s"
  "same_lifecycle e (add_blocked s) = same_lifecycle e s" "same_lifecycle e (logAudit v ty tid pkt r s) = same_lifecycle e s"
  "same_lifecycle e (block_packet v pkt r tid s) = same_lifecycle e s" "same_lifecycle e (fireAlert v a m s) = same_lifecycle e s"
  by (simp_all add: same_lifecycle_def log_defs fireAlert_def Let_def split: option.split prod.split)

lemma lifecycle_stages:
  "same_lifecycle e (after_flow v pkt e)" "same_lifecycle e (after_port v pkt e)" "same_lifecycle e (after_rates v pkt n e)"
  by (simp_all add: same_lifecycle_def after_flow_def after_port_def after_rates_def track_flow_def track_port_def track_rates_def
      add_processed_def Let_def split: prod.split)

lemma lifecycle_body:
  assumes "evaluate_body v pkt n e = (o', e')"
  shows "same_lifecycle e e'"
proof (cases v pkt n e rule: evaluate_body_cases)
  case (policy tid)
  with assms have d: "decide v pkt tid (policy_input v pkt n e) (after_rates v pkt n e) = (o', e')" by simp
  show ?thesis
    by (cases rule: decide_cases [where v = v and pkt = pkt and tid = tid and i = "policy_input v pkt n e" and e = "after_rates v pkt n e"])
      (use d in \<open>auto simp: lifecycle_stages\<close>)
qed (use assms in \<open>auto simp: lifecycle_stages\<close>)

lemma lifecycle_packet:
  assumes "handleQueuePacket gp v sends attr e = (sent, ret, e')"
  shows "same_lifecycle e e'"
proof -
  have "same_lifecycle e (snd (evaluatePacket v pkt n e))" for pkt n
    using lifecycle_body [of v pkt n e] by (auto simp: evaluatePacket_def split: prod.split outcome.split)
  then have "same_lifecycle e (snd (packetHandler gp v attr e))"
    by (auto simp: packetHandler_def split: option.split parse_result.split prod.split) (metis snd_conv)+
  then show ?thesis using assms by (auto simp: handleQueuePacket_def Let_def split: option.splits prod.splits)
qed

lemma lifecycle_housekeep: "housekeep v w e = (e', st) \<Longrightarrow> same_lifecycle e e'"
  by (auto simp: housekeep_def maintain_def same_lifecycle_def Let_def split: wake.splits)

lemma lifecycle_run:
  "run_begin loaded opens registers e = (err, e') \<Longrightarrow> has_cancel e' \<and> (err = None \<longrightarrow> \<not> ctx_done e') \<and> (err = None \<longleftrightarrow> opens \<and> registers)"
  by (auto simp: run_begin_def Let_def split: if_splits)

lemmas lifecycle_facts = same_lifecycle_def Stop_def run_end_def

lemma running_has_cancel:
  assumes "later loaded opens registers (launched e) p" "main_at p \<noteq> BeforeRun"
  shows "has_cancel (eng p)"
  using assms
proof (induction rule: rtranclp_induct)
  case (step p p')
  from step(2) show ?case
    by cases (use step(3,4) lifecycle_packet lifecycle_housekeep lifecycle_run in \<open>(fastforce simp: lifecycle_facts)+\<close>)
qed (simp add: launched_def)

text \<open>A shutdown that started after the engine ran: what holds of the process from then on.\<close>

definition orderly :: "process \<Rightarrow> bool" where
  "orderly p \<longleftrightarrow> main_at p \<noteq> BeforeRun \<and> has_cancel (eng p) \<and>
     (signal_at p = CancelMain \<or> signal_at p = Ended \<longrightarrow> ctx_done (eng p)) \<and> (signal_at p = Ended \<longrightarrow> main_ctx_done p)"

lemma orderly_step:
  assumes "orderly p" "shutdown_step loaded opens registers p p'"
  shows "orderly p'"
  using assms(2)
  by cases (use assms(1) lifecycle_packet lifecycle_housekeep in \<open>(fastforce simp: orderly_def lifecycle_facts)+\<close>)

fun signal_rank :: "signal_pc \<Rightarrow> nat" where
  "signal_rank Waiting = 4"
| "signal_rank ShutdownAdmin = 3"
| "signal_rank StopEngine = 2"
| "signal_rank CancelMain = 1"
| "signal_rank Ended = 0"

definition rank :: "process \<Rightarrow> nat" where
  "rank p = signal_rank (signal_at p) + (if main_at p = Exited then 0 else 1)"

lemma rank_mono: "shutdown_step loaded opens registers p p' \<Longrightarrow> rank p' \<le> rank p"
  by (cases rule: shutdown_step.cases) (auto simp: rank_def)

lemma orderly_progress:
  assumes "orderly p" "main_at p \<noteq> Exited" "signal_at p \<noteq> Waiting"
  shows "\<exists>p'. shutdown_step loaded opens registers p p' \<and> rank p' < rank p"
proof (cases "signal_at p")
  case ShutdownAdmin
  then show ?thesis using admin_down [OF assms(2)] by (force simp: rank_def)
next
  case StopEngine
  then show ?thesis using stops [OF assms(2)] by (force simp: rank_def)
next
  case CancelMain
  then show ?thesis using cancels [OF assms(2)] by (force simp: rank_def)
next
  case Ended
  then show ?thesis
    using assms(1,2) returns [of p] gives_up [of p] by (cases "main_at p") (force simp: rank_def orderly_def)+
qed (use assms in simp)

lemma orderly_later: "later loaded opens registers p p' \<Longrightarrow> orderly p \<Longrightarrow> orderly p'"
  by (induction rule: rtranclp_induct) (auto intro: orderly_step)

lemma rank_later: "later loaded opens registers p p' \<Longrightarrow> rank p' \<le> rank p"
  by (induction rule: rtranclp_induct) (auto dest: rank_mono)

text \<open>The signal was handled before the engine could be stopped: the engine runs and nobody is left to stop it.\<close>

definition deaf :: "process \<Rightarrow> bool" where
  "deaf p \<longleftrightarrow> (signal_at p = CancelMain \<or> signal_at p = Ended) \<and>
     (main_at p = BeforeRun \<or> main_at p = InRun \<and> \<not> ctx_done (eng p))"

lemma deaf_step:
  assumes "deaf p" "shutdown_step loaded True True p p'"
  shows "deaf p'"
  using assms(2)
  by cases (use assms(1) lifecycle_packet lifecycle_housekeep lifecycle_run in \<open>(fastforce simp: deaf_def lifecycle_facts)+\<close>)

lemma deaf_later: "later loaded True True p p' \<Longrightarrow> deaf p \<Longrightarrow> deaf p'"
  by (induction rule: rtranclp_induct) (auto intro: deaf_step)

lemma signal_before_run:
  "\<exists>p. later loaded opens registers (launched e) p \<and> main_at p = BeforeRun \<and> signal_at p = Ended"
proof -
  let ?p0 = "launched e"
  let ?p1 = "?p0\<lparr>signal_at := ShutdownAdmin\<rparr>"
  let ?p2 = "?p1\<lparr>signal_at := StopEngine\<rparr>"
  let ?p3 = "?p2\<lparr>signal_at := CancelMain, eng := Stop (eng ?p2)\<rparr>"
  let ?p4 = "?p3\<lparr>signal_at := Ended, main_ctx_done := True\<rparr>"
  let ?step = "shutdown_step loaded opens registers"
  have m: "main_at ?p0 \<noteq> Exited" "main_at ?p1 \<noteq> Exited" "main_at ?p2 \<noteq> Exited" "main_at ?p3 \<noteq> Exited"
    by (simp_all add: launched_def)
  have "?step ?p0 ?p1" by (rule signalled [OF m(1)]) (simp add: launched_def)
  moreover have "?step ?p1 ?p2" by (rule admin_down [OF m(2)]) simp
  moreover have "?step ?p2 ?p3" by (rule stops [OF m(3)]) simp
  moreover have "?step ?p3 ?p4" by (rule cancels [OF m(4)]) simp
  ultimately have "later loaded opens registers ?p0 ?p4" by (meson converse_rtranclp_into_rtranclp r_into_rtranclp)
  then show ?thesis by (intro exI [of _ ?p4]) (simp add: launched_def)
qed

section \<open>Properties\<close>

text \<open>
  C15. Shutdown terminates: once the engine has started (or failed to) and a signal has been
  received, then at every later moment either the process has exited or a step that brings it
  closer to its exit is possible, no step of any goroutine leads away from the exit, and at most
  four such steps are left.\<close>

theorem shutdown_terminates:
  assumes "later loaded opens registers (launched e) p" "main_at p = InRun \<or> main_at p = RunFailed" "signal_at p = Waiting"
    and "later loaded opens registers (p\<lparr>signal_at := ShutdownAdmin\<rparr>) p'"
  shows "(main_at p' = Exited \<or> (\<exists>p''. shutdown_step loaded opens registers p' p'' \<and> rank p'' < rank p')) \<and>
    (\<forall>p''. shutdown_step loaded opens registers p' p'' \<longrightarrow> rank p'' \<le> rank p') \<and> rank p' \<le> 4"
proof -
  let ?p = "p\<lparr>signal_at := ShutdownAdmin\<rparr>"
  have "main_at p \<noteq> BeforeRun" using assms(2) by auto
  then have "orderly ?p" using running_has_cancel [OF assms(1)] by (simp add: orderly_def)
  then have o: "orderly p'" by (rule orderly_later [OF assms(4)])
  have r: "rank p' \<le> 4" using rank_later [OF assms(4)] by (simp add: rank_def split: if_splits)
  have "signal_at p' \<noteq> Waiting \<or> main_at p' = Exited" using r by (auto simp: rank_def split: if_splits)
  with orderly_progress [OF o] rank_mono r show ?thesis by blast
qed

text \<open>
  C40. A signal that arrives too early is lost: it can be handled completely before \<open>Run\<close>
  has published its cancel function, and from such a moment on the process never exits,
  whatever happens, although it goes on to run the engine.\<close>

theorem early_signal_is_lost:
  "\<exists>p. later loaded True True (launched e) p \<and> signal_at p = Ended \<and>
     (\<exists>p'. shutdown_step loaded True True p p' \<and> main_at p' = InRun) \<and>
     (\<forall>p'. later loaded True True p p' \<longrightarrow> main_at p' \<noteq> Exited)"
proof -
  obtain p where p: "later loaded True True (launched e) p" "main_at p = BeforeRun" "signal_at p = Ended"
    using signal_before_run by blast
  obtain e' where "run_begin loaded True True (eng p) = (None, e')" by (simp add: run_begin_def Let_def)
  then have "\<exists>p'. shutdown_step loaded True True p p' \<and> main_at p' = InRun" using run_ok [OF p(2)] by fastforce
  moreover have "main_at p' \<noteq> Exited" if "later loaded True True p p'" for p'
    using deaf_later [OF that] p(2,3) by (auto simp: deaf_def)
  ultimately show ?thesis using p by blast
qed

text \<open>
  Run returns as soon as its context is cancelled, without waiting for the maintenance goroutine:
  the process can exit with the state of the last tick on disk.
\<close>

lemma final_save_can_be_skipped:
  assumes "main_at p = InRun" "signal_at p = StopEngine" "has_cancel (eng p)"
  shows "\<exists>p'. later loaded opens registers p p' \<and> main_at p' = Exited \<and> disk_state p' = disk_state p"
proof -
  let ?p1 = "p\<lparr>signal_at := CancelMain, eng := Stop (eng p)\<rparr>"
  let ?p2 = "?p1\<lparr>main_at := Exited, eng := run_end (eng ?p1)\<rparr>"
  have "shutdown_step loaded opens registers p ?p1" by (rule stops) (simp_all add: assms)
  moreover have "shutdown_step loaded opens registers ?p1 ?p2" by (rule returns) (simp_all add: assms Stop_def)
  ultimately have "later loaded opens registers p ?p2" by (meson converse_rtranclp_into_rtranclp r_into_rtranclp)
  then show ?thesis by (intro exI [of _ ?p2]) simp
qed

text \<open>A started engine, and the signal arriving while it runs.\<close>

theorem shutdown_terminates_witness:
  "\<exists>p. later NoState True True (launched sample_engine) p \<and> main_at p = InRun \<and> signal_at p = Waiting \<and>
     (\<exists>p''. shutdown_step NoState True True (p\<lparr>signal_at := ShutdownAdmin\<rparr>) p'' \<and> rank p'' < rank (p\<lparr>signal_at := ShutdownAdmin\<rparr>))"
proof -
  obtain e' where "run_begin NoState True True sample_engine = (None, e')" by (simp add: run_begin_def Let_def)
  then have step: "shutdown_step NoState True True (launched sample_engine)
      ((launched sample_engine)\<lparr>main_at := InRun, keeper_at := Keeping, eng := e'\<rparr>)"
    by (intro run_ok) (simp_all add: launched_def)
  define p where "p = (launched sample_engine)\<lparr>main_at := InRun, keeper_at := Keeping, eng := e'\<rparr>"
  have p: "later NoState True True (launched sample_engine) p" "main_at p = InRun" "signal_at p = Waiting"
    using step by (simp_all add: p_def launched_def)
  have "main_at (p\<lparr>signal_at := ShutdownAdmin\<rparr>) \<noteq> Exited" using p by simp
  with shutdown_terminates [OF p(1) disjI1 [OF p(2)] p(3) rtranclp.rtrancl_refl] p show ?thesis by blast
qed

theorem early_signal_is_lost_witness:
  "\<exists>p. later NoState True True (launched sample_engine) p \<and> signal_at p = Ended \<and> main_at p \<noteq> Exited"
  using early_signal_is_lost [of NoState sample_engine] by blast

end
