(* ===== verification/InputDoc.thy ===== *)
theory InputDoc
  imports Engine
begin

text \<open>
  The document a policy sees as \<open>input\<close>: the JSON form of the structs of
  internal/opa/input.go and internal/packet/parser.go under their field tags, and the type the
  policies rely on when they compare, count and format its fields.
\<close>

section \<open>Documents and their types\<close>

datatype doc =
    DNull
  | DBool bool
  | DInt int
  | DFloat float64
  | DStr string
  | DList "doc list"
  | DObj "(string \<times> doc) list"

text \<open>A field of a record type is required or may be left out.\<close>

datatype doc_type =
    TBool
  | TInt int int
  | TNat
  | TFloat float64 float64
  | TRate
  | TText
  | TEnum "string list"
  | TNullable doc_type
  | TList doc_type nat
  | TRecord "(string \<times> bool \<times> doc_type) list"

fun has_type :: "doc_type \<Rightarrow> doc \<Rightarrow> bool" and has_fields :: "(string \<times> bool \<times> doc_type) list \<Rightarrow> (string \<times> doc) list \<Rightarrow> bool" where
  "has_type TBool d = (case d of DBool b \<Rightarrow> True | _ \<Rightarrow> False)"
| "has_type (TInt lo hi) d = (case d of DInt i \<Rightarrow> lo \<le> i \<and> i \<le> hi | _ \<Rightarrow> False)"
| "has_type TNat d = (case d of DInt i \<Rightarrow> 0 \<le> i | _ \<Rightarrow> False)"
| "has_type (TFloat lo hi) d = (case d of DFloat x \<Rightarrow> lo \<le> x \<and> x \<le> hi | _ \<Rightarrow> False)"
| "has_type TRate d = (case d of DFloat x \<Rightarrow> 0 \<le> x | _ \<Rightarrow> False)"
| "has_type TText d = (case d of DStr s \<Rightarrow> True | _ \<Rightarrow> False)"
| "has_type (TEnum ss) d = (case d of DStr s \<Rightarrow> s \<in> set ss | _ \<Rightarrow> False)"
| "has_type (TNullable t) d = (d = DNull \<or> has_type t d)"
| "has_type (TList t n) d = (case d of DList ds \<Rightarrow> length ds \<le> n \<and> list_all (has_type t) ds | _ \<Rightarrow> False)"
| "has_type (TRecord fs) d =
     (case d of
        DObj ms \<Rightarrow> distinct (map fst ms) \<and> set (map fst ms) \<subseteq> set (map fst fs) \<and> has_fields fs ms
      | _ \<Rightarrow> False)"
| "has_fields [] ms = True"
| "has_fields ((k, req, t) # fs) ms =
     ((case map_of ms k of None \<Rightarrow> \<not> req | Some d \<Rightarrow> has_type t d) \<and> has_fields fs ms)"

section \<open>The input document\<close>

definition flags_doc :: "TCPFlags \<Rightarrow> doc" where
  "flags_doc f = DObj [(''syn'', DBool (SYN f)), (''ack'', DBool (ACK f)), (''rst'', DBool (RST f)), (''fin'', DBool (FIN f))]"

definition fragment_doc :: "FragmentInfo \<Rightarrow> doc" where
  "fragment_doc f =
     DObj [(''is_fragment'', DBool (IsFragment f)), (''more_fragments'', DBool (MoreFragments f)),
           (''offset'', DInt (Offset f)), (''l4_incomplete'', DBool (L4Incomplete f))]"

definition byte_doc :: "byte option \<Rightarrow> doc" where
  "byte_doc b = (case b of None \<Rightarrow> DNull | Some x \<Rightarrow> DInt (uint x))"

definition packet_doc :: "opa_PacketInfo \<Rightarrow> doc" where
  "packet_doc p =
     DObj [(''src_ip'', DStr (in_SrcIP p)), (''dst_ip'', DStr (in_DstIP p)), (''protocol'', DStr (in_Protocol p)),
           (''src_port'', DInt (uint (in_SrcPort p))), (''dst_port'', DInt (uint (in_DstPort p))),
           (''tcp_flags'', flags_doc (in_TCPFlags p)), (''icmp_type'', byte_doc (in_ICMPType p)),
           (''icmp_code'', byte_doc (in_ICMPCode p)), (''fragment'', fragment_doc (in_Fragment p)),
           (''packet_size'', DInt (in_PacketSize p))]"

text \<open>A nil slice is \<open>null\<close>.\<close>

definition connection_doc :: "ConnectionInfo \<Rightarrow> doc" where
  "connection_doc c =
     DObj [(''established'', DBool (in_Established c)), (''tcp_state'', DStr (in_TCPState c)),
           (''packets_in_flow'', DInt (in_PacketsInFlow c)), (''age_ms'', DInt (in_AgeMs c)),
           (''recent_ports'', case in_RecentPorts c of None \<Rightarrow> DNull | Some ps \<Rightarrow> DList (map (\<lambda>p. DInt (uint p)) ps))]"

definition rate_doc :: "RateInfo \<Rightarrow> doc" where
  "rate_doc r =
     DObj [(''src_ip_pps'', DFloat (in_SrcIPpps r)), (''src_ip_bps'', DFloat (in_SrcIPbps r)),
           (''src_port_pps'', DFloat (in_SrcPortPPS r)), (''src_port_bps'', DFloat (in_SrcPortBPS r)),
           (''new_conns_per_sec'', DFloat (in_NewConnsPerSec r))]"

definition time_doc :: "TimeInfo \<Rightarrow> doc" where
  "time_doc t = DObj [(''utc_hour'', DInt (int (in_UtcHour t))), (''utc_day'', DInt (int (in_UtcDay t)))]"

text \<open>\<open>omitempty\<close> leaves out an empty string, and has no effect on the struct-valued field \<open>geo\<close>.\<close>

definition geo_doc :: "GeoInfo \<Rightarrow> doc" where
  "geo_doc g =
     DObj ((if in_SrcCountry g = [] then [] else [(''src_country'', DStr (in_SrcCountry g))]) @
           (if in_DstCountry g = [] then [] else [(''dst_country'', DStr (in_DstCountry g))]))"

definition input_doc :: "Input \<Rightarrow> doc" where
  "input_doc i =
     DObj [(''packet'', packet_doc (in_Packet i)), (''connection'', connection_doc (in_Connection i)),
           (''rate'', rate_doc (in_Rate i)), (''time'', time_doc (in_Time i)), (''geo'', geo_doc (in_Geo i))]"

section \<open>Its type\<close>

definition required :: "string \<Rightarrow> doc_type \<Rightarrow> string \<times> bool \<times> doc_type" where
  "required k t = (k, True, t)"

definition optional :: "string \<Rightarrow> doc_type \<Rightarrow> string \<times> bool \<times> doc_type" where
  "optional k t = (k, False, t)"

definition protocol_names :: "string list" where
  "protocol_names = map (\<lambda>n. protocolName (of_nat n)) [0..<256]"

definition tcp_state_names :: "string list" where
  "tcp_state_names = map TCPState_String
     [TCPSynSent, TCPSynReceived, TCPEstablished, TCPFinWait1, TCPFinWait2, TCPClosing, TCPTimeWait, TcpCloseWait, TCPClosed]"

abbreviation port_type :: doc_type where
  "port_type \<equiv> TInt 0 65535"

definition flags_type :: doc_type where
  "flags_type = TRecord [required ''syn'' TBool, required ''ack'' TBool, required ''rst'' TBool, required ''fin'' TBool]"

definition fragment_type :: doc_type where
  "fragment_type = TRecord [required ''is_fragment'' TBool, required ''more_fragments'' TBool,
     required ''offset'' (TInt 0 65535), required ''l4_incomplete'' TBool]"

definition packet_type :: doc_type where
  "packet_type =
     TRecord [required ''src_ip'' TText, required ''dst_ip'' TText, required ''protocol'' (TEnum protocol_names),
       required ''src_port'' port_type, required ''dst_port'' port_type, required ''tcp_flags'' flags_type,
       required ''icmp_type'' (TNullable (TInt 0 255)), required ''icmp_code'' (TNullable (TInt 0 255)),
       required ''fragment'' fragment_type, required ''packet_size'' TNat]"

definition connection_type :: "nat \<Rightarrow> doc_type" where
  "connection_type maxPorts =
     TRecord [required ''established'' TBool, required ''tcp_state'' (TEnum ([] # tcp_state_names)),
       required ''packets_in_flow'' TNat, required ''age_ms'' TNat,
       required ''recent_ports'' (TNullable (TList port_type maxPorts))]"

definition rate_type :: doc_type where
  "rate_type =
     TRecord [required ''src_ip_pps'' (TFloat 0 (10 ^ 12)), required ''src_ip_bps'' (TFloat 0 (10 ^ 15)),
       required ''src_port_pps'' (TFloat 0 (10 ^ 12)), required ''src_port_bps'' (TFloat 0 (10 ^ 15)),
       required ''new_conns_per_sec'' TRate]"

definition time_type :: doc_type where
  "time_type = TRecord [required ''utc_hour'' (TInt 0 23), required ''utc_day'' (TInt 0 6)]"

definition geo_type :: doc_type where
  "geo_type = TRecord [optional ''src_country'' TText, optional ''dst_country'' TText]"

definition input_type :: "nat \<Rightarrow> doc_type" where
  "input_type maxPorts =
     TRecord [required ''packet'' packet_type, required ''connection'' (connection_type maxPorts),
       required ''rate'' rate_type, required ''time'' time_type, required ''geo'' geo_type]"

lemmas type_defs = required_def optional_def flags_type_def fragment_type_def packet_type_def connection_type_def rate_type_def
  time_type_def geo_type_def input_type_def
lemmas doc_defs = flags_doc_def fragment_doc_def byte_doc_def packet_doc_def connection_doc_def rate_doc_def time_doc_def
  geo_doc_def input_doc_def

section \<open>Lemmas\<close>

lemma flags_typed: "has_type flags_type (flags_doc f)"
  by (simp add: type_defs doc_defs)

lemma fragment_typed: "0 \<le> Offset f \<Longrightarrow> Offset f \<le> 65535 \<Longrightarrow> has_type fragment_type (fragment_doc f)"
  by (simp add: type_defs doc_defs)

lemma byte_typed: "has_type (TNullable (TInt 0 255)) (byte_doc b)"
  using uint_lt2p [of "the b"] by (cases b) (simp_all add: doc_defs)

lemma port_typed: "has_type port_type (DInt (uint (p :: uint16)))"
  using uint_lt2p [of p] by simp

lemma time_typed: "has_type time_type (time_doc \<lparr>in_UtcHour = utc_hour now, in_UtcDay = utc_weekday now\<rparr>)"
proof -
  have "time_unix now mod 86400 div 3600 \<le> 23" by (simp add: less_mult_imp_div_less Suc_leI flip: less_Suc_eq_le)
  then show ?thesis by (simp add: type_defs doc_defs utc_hour_def utc_weekday_def flip: less_Suc_eq_le)
qed

lemma geo_typed: "has_type geo_type (geo_doc g)"
  by (simp add: type_defs doc_defs)

lemma protocol_typed: "protocolName proto \<in> set protocol_names"
  using unat_byte_less [of proto] by (auto simp: protocol_names_def intro!: image_eqI [of _ _ "unat proto"])

lemma state_typed: "TCPState_String st \<in> set tcp_state_names"
  by (cases st) (simp_all add: tcp_state_names_def)

lemma walk_offset:
  "walkIPv6HeaderChain raw first = Some chain \<Longrightarrow> 0 \<le> Offset (ChainFragment chain) \<and> Offset (ChainFragment chain) \<le> 65535"
proof -
  assume w: "walkIPv6HeaderChain raw first = Some chain"
  have u: "uint (drop_bit 3 x) \<le> 65535" for x :: uint16 using uint_lt2p [of "drop_bit 3 x"] by simp
  have "\<exists>chain. walkIPv6HeaderChain raw first = Some chain \<and> 0 \<le> Offset (ChainFragment chain) \<and> Offset (ChainFragment chain) \<le> 65535"
    unfolding walkIPv6HeaderChain_def
    by (rule walk_invariant [where I = "\<lambda>_ frag. 0 \<le> Offset frag \<and> Offset frag \<le> 65535"]) (simp_all add: no_fragment_def u)
  with w show ?thesis by simp
qed

text \<open>What every parsed packet has: a protocol name, an offset of 16 bits, a size.\<close>

lemma parsed_fields:
  assumes "ParsePacket gp raw = Parsed pkt"
  shows "(\<exists>proto. Protocol pkt = protocolName proto) \<and> 0 \<le> Offset (Fragment pkt) \<and> Offset (Fragment pkt) \<le> 65535 \<and> 0 \<le> PacketSize pkt"
proof -
  consider (v4) "parseIPv4Packet gp raw = Parsed pkt" | (v6) "parseIPv6Packet gp raw = Parsed pkt"
    using assms by (auto simp: ParsePacket_def Let_def split: if_splits option.splits)
  then show ?thesis
  proof cases
    case v4
    then obtain p ip where p: "gp LayerTypeIPv4 raw = Some p" "layer_IPv4 p = Layer ip" "20 \<le> length raw"
      by (auto simp: parseIPv4Packet_def split: if_splits option.splits layer.splits)
    have "uint (ip4_FragOffset ip) \<le> 65535" using uint_lt2p [of "ip4_FragOffset ip"] by simp
    with v4 parseIPv4_refines [of gp, OF p] show ?thesis
      by (auto simp: l4_write_def ipv4_l4_def blank_info_def ipv4_frag_def l4_none_def)
  next
    case v6
    then obtain p ip chain where p: "gp LayerTypeIPv6 raw = Some p" "layer_IPv6 p = Layer ip" "40 \<le> length raw"
      and chain: "walkIPv6HeaderChain raw (ip6_NextHeader ip) = Some chain"
      by (auto simp: parseIPv6Packet_def split: if_splits option.splits layer.splits)
    from walk_offset [OF chain] v6 parseIPv6_refines [of gp, OF p chain] show ?thesis
      by (auto simp: l4_write_def chain_l4_def blank_info_def l4_none_def)
  qed
qed

lemma packet_typed:
  assumes "in_Protocol p = protocolName proto" "0 \<le> Offset (in_Fragment p)" "Offset (in_Fragment p) \<le> 65535" "0 \<le> in_PacketSize p"
  shows "has_type packet_type (packet_doc p)"
proof -
  note parts = flags_typed [of "in_TCPFlags p"] fragment_typed [OF assms(2,3)] byte_typed [of "in_ICMPType p"] byte_typed [of "in_ICMPCode p"]
    port_typed [of "in_SrcPort p"] port_typed [of "in_DstPort p"] protocol_typed [of proto] assms(1,4)
  show ?thesis
    unfolding packet_type_def packet_doc_def required_def using parts by simp
qed

lemma rates_typed:
  assumes "limiter_inv l" "0 \<le> n" "allow_key ord key now n l = ((p, q), l')"
  shows "0 \<le> p \<and> p \<le> 10 ^ 12 \<and> 0 \<le> q \<and> q \<le> 10 ^ 15"
proof -
  have l: "0 < lim_MaxEntries l" "alpha l = weight" using assms(1) by (simp_all add: limiter_inv_def)
  have "bucket_ok (updateBucket l n now (old_bucket l key now))"
    by (rule updateBucket_ok [OF l(2) old_bucket_ok [OF assms(1)] assms(2)])
  moreover have "(0 :: rat) < 2 powi (- 38)" by (rule powi_2_pos)
  ultimately show ?thesis
    using assms(3) by (auto simp: allow_key_eq [OF l(1)] bucket_ok_def Let_def)
qed

lemma rate_typed:
  assumes "0 \<le> p1 \<and> p1 \<le> 10 ^ 12 \<and> 0 \<le> q1 \<and> q1 \<le> 10 ^ 15" "0 \<le> p2 \<and> p2 \<le> 10 ^ 12 \<and> 0 \<le> q2 \<and> q2 \<le> 10 ^ 15" "0 \<le> c"
  shows "has_type rate_type (rate_doc \<lparr>in_SrcIPpps = p1, in_SrcIPbps = q1, in_SrcPortPPS = p2, in_SrcPortBPS = q2, in_NewConnsPerSec = c\<rparr>)"
  using assms by (simp add: rate_type_def rate_doc_def required_def)

lemma connection_typed:
  assumes "st \<in> set ([] # tcp_state_names)" "length ports \<le> n"
  shows "has_type (connection_type n) (connection_doc \<lparr>in_Established = b, in_TCPState = st, in_PacketsInFlow = 1, in_AgeMs = 0,
     in_RecentPorts = (if length ports > 0 then Some ports else None)\<rparr>)"
  using assms port_typed by (simp add: connection_type_def connection_doc_def required_def list_all_iff)

lemma NewConnectionRate_nonneg: "0 \<le> NewConnectionRate now t ip"
  by (auto simp: NewConnectionRate_def rate_def Let_def intro!: fl_nonneg divide_nonneg_nonneg split: option.split)

lemma track_rates_typed:
  assumes "limiter_inv (ratelimit e)" "env_ok v" "0 \<le> n" "track_rates v pkt n e = ((p1, q1), (p2, q2), e')"
  shows "(0 \<le> p1 \<and> p1 \<le> 10 ^ 12 \<and> 0 \<le> q1 \<and> q1 \<le> 10 ^ 15) \<and> (0 \<le> p2 \<and> p2 \<le> 10 ^ 12 \<and> 0 \<le> q2 \<and> q2 \<le> 10 ^ 15)"
proof -
  let ?o = "bucket_order v (buckets (ratelimit e))"
  obtain l1 where a: "Allow ?o (at_allow v) (SrcIP pkt) n (ratelimit e) = ((p1, q1), l1)"
    and b: "fst (AllowPort (bucket_order v (buckets l1)) (at_port v) (SrcIP pkt) (DstPort pkt) n l1) = (p2, q2)"
    using assms(4) by (auto simp: track_rates_def Let_def split: prod.splits)
  have "limiter_inv l1"
    using allow_key_inv [OF assms(1) _ assms(3), of ?o "ipKey (SrcIP pkt)" "at_allow v"] assms(2) limiter_inv_wf [OF assms(1)] a
    by (simp add: env_ok_def Allow_def)
  moreover obtain l2 where "AllowPort (bucket_order v (buckets l1)) (at_port v) (SrcIP pkt) (DstPort pkt) n l1 = ((p2, q2), l2)"
    using b by (metis prod.collapse)
  ultimately show ?thesis
    using rates_typed [OF assms(1,3)] rates_typed [OF _ assms(3)] a by (simp add: Allow_def AllowPort_def)
qed

lemma stage_cfg: "cfg (conntrack (after_port v pkt e)) = cfg (conntrack e)"
proof -
  have "cfg (conntrack (after_flow v pkt e)) = cfg (conntrack e)"
    by (simp add: after_flow_def track_flow_def Let_def add_processed_def case_prod_beta)
  then show ?thesis by (simp add: after_port_def track_port_def)
qed

lemma input_typed:
  assumes "has_type packet_type (packet_doc (in_Packet i))" "has_type (connection_type n) (connection_doc (in_Connection i))"
    "has_type rate_type (rate_doc (in_Rate i))" "has_type time_type (time_doc (in_Time i))"
  shows "has_type (input_type n) (input_doc i)"
  using assms geo_typed by (simp add: input_type_def input_doc_def required_def)

lemma packet_input_parts:
  "in_Packet (packet_input v pkt flow r1 r2 e) =
     \<lparr>in_SrcIP = SrcIP pkt, in_DstIP = DstIP pkt, in_Protocol = Protocol pkt, in_SrcPort = SrcPort pkt,
      in_DstPort = DstPort pkt, in_TCPFlags = Flags pkt, in_ICMPType = ICMPType pkt, in_ICMPCode = ICMPCode pkt,
      in_Fragment = Fragment pkt, in_PacketSize = PacketSize pkt\<rparr>"
  "in_Connection (packet_input v pkt flow r1 r2 e) =
     \<lparr>in_Established = Established flow,
      in_TCPState = (if Protocol pkt = ''TCP'' then TCPState_String (f_TCPState flow) else []), in_PacketsInFlow = 1, in_AgeMs = 0,
      in_RecentPorts = (if length (GetRecentDestPorts (conntrack e) (SrcIP pkt)) > 0
                        then Some (GetRecentDestPorts (conntrack e) (SrcIP pkt)) else None)\<rparr>"
  "in_Rate (packet_input v pkt flow r1 r2 e) =
     \<lparr>in_SrcIPpps = fst r1, in_SrcIPbps = snd r1, in_SrcPortPPS = fst r2, in_SrcPortBPS = snd r2,
      in_NewConnsPerSec = NewConnectionRate (at_connrate v) (conntrack e) (SrcIP pkt)\<rparr>"
  "in_Time (packet_input v pkt flow r1 r2 e) = \<lparr>in_UtcHour = utc_hour (at_input v), in_UtcDay = utc_weekday (at_input v)\<rparr>"
  by (simp_all add: packet_input_def BuildInput_def Let_def)

section \<open>Properties\<close>

text \<open>
  C16. The input document is well typed: for every reachable engine and every packet the parser
  accepts, the document given to the policy has exactly the fields of the struct Input and of the
  structs it is made of, under their JSON tags (the countries optional), every field has its type
  and range (ports and offset of 16 bits, ICMP fields of 8 bits or null, one of the 256 protocol
  names, a known TCP state or none, bounded rates, at most the configured number of recent ports, an
  hour below 24, a weekday below 7), and there is a TCP state exactly for TCP packets.\<close>

theorem policy_input_well_typed:
  assumes "engine_reachable e" "env_ok v" "ParsePacket gp raw = Parsed pkt"
  shows "has_type (input_type (nat (PortScanMaxPorts (cfg (conntrack e))))) (input_doc (policy_input v pkt (int (length raw)) e)) \<and>
    (in_TCPState (in_Connection (policy_input v pkt (int (length raw)) e)) \<noteq> [] \<longleftrightarrow> Protocol pkt = ''TCP'')"
proof -
  let ?n = "int (length raw)" and ?ap = "after_port v pkt e" and ?ar = "after_rates v pkt (int (length raw)) e"
  have inv: "engine_inv e" using engine_reachable_inv [OF assms(1)] .
  have ct: "table_inv (conntrack ?ap)" using stages_inv(2) [OF assms(2) inv, of ?n] by simp
  have same: "conntrack ?ar = conntrack ?ap" by (subst stage_eqs(3)) simp
  have rl: "ratelimit ?ap = ratelimit e" by (subst stage_eqs(2)) simp
  obtain p1 q1 p2 q2 e' where r: "track_rates v pkt ?n ?ap = ((p1, q1), (p2, q2), e')" by (metis surj_pair)
  have rates: "(0 \<le> p1 \<and> p1 \<le> 10 ^ 12 \<and> 0 \<le> q1 \<and> q1 \<le> 10 ^ 15) \<and> (0 \<le> p2 \<and> p2 \<le> 10 ^ 12 \<and> 0 \<le> q2 \<and> q2 \<le> 10 ^ 15)"
    by (rule track_rates_typed [OF _ assms(2) _ r]) (use inv rl in \<open>simp_all add: engine_inv_def\<close>)
  have ports: "length (GetRecentDestPorts (conntrack ?ar) (SrcIP pkt)) \<le> nat (PortScanMaxPorts (cfg (conntrack e)))"
    using ct stage_cfg [of v pkt e]
    by (auto simp: same GetRecentDestPorts_def gm_get_def table_inv_def ports_ok_def config_ok_def nat_le_iff le_nat_iff split: option.split)
  let ?i = "policy_input v pkt ?n e" and ?f = "the (packet_flow v pkt e)"
  have i: "?i = packet_input v pkt ?f (p1, q1) (p2, q2) ?ar" by (simp add: policy_input_def src_rates_def r)
  have "has_type packet_type (packet_doc (in_Packet ?i))"
    using parsed_fields [OF assms(3)] packet_typed [of "in_Packet ?i"] by (auto simp: i packet_input_parts)
  moreover have "has_type (connection_type (nat (PortScanMaxPorts (cfg (conntrack e))))) (connection_doc (in_Connection ?i))"
    unfolding i packet_input_parts by (rule connection_typed [OF _ ports]) (use state_typed in simp)
  moreover have "has_type rate_type (rate_doc (in_Rate ?i))"
    unfolding i packet_input_parts fst_conv snd_conv
    by (rule rate_typed [OF conjunct1 [OF rates] conjunct2 [OF rates] NewConnectionRate_nonneg])
  moreover have "has_type time_type (time_doc (in_Time ?i))" unfolding i packet_input_parts by (rule time_typed)
  moreover have "in_TCPState (in_Connection ?i) \<noteq> [] \<longleftrightarrow> Protocol pkt = ''TCP''"
    by (cases "f_TCPState ?f") (simp_all add: i packet_input_parts)
  ultimately show ?thesis using input_typed by blast
qed

theorem policy_input_well_typed_witness:
  "\<exists>pkt. ParsePacket gp_wire sample_head4 = Parsed pkt \<and>
     has_type (input_type 100) (input_doc (policy_input sample_env pkt (int (length sample_head4)) sample_engine))"
proof -
  obtain pkt where p: "ParsePacket gp_wire sample_head4 = Parsed pkt" using sample_packet by blast
  have "nat (PortScanMaxPorts (cfg (conntrack sample_engine))) = 100"
    by (simp add: sample_engine_def New_def NewTable_def effective_config_def DefaultConfig_def)
  with policy_input_well_typed [OF sample_engine_reachable sample_env_ok p] p show ?thesis by auto
qed

text \<open>
  The schema is not vacuous: a document with a missing field, a port out of range or a string in
  the place of a number does not have the type.
\<close>

lemma type_rejects:
  "\<not> has_type time_type (DObj [(''utc_hour'', DInt 24), (''utc_day'', DInt 0)])"
  "\<not> has_type time_type (DObj [(''utc_hour'', DInt 3)])"
  "\<not> has_type time_type (DObj [(''utc_hour'', DStr ''3''), (''utc_day'', DInt 0)])"
  by (simp_all add: time_type_def required_def)

end
