(* ===== verification/Metrics.thy ===== *)
theory Metrics
  imports Prelude
begin

text \<open>
  internal/metrics/metrics.go: the collectors and their registration, done once per process. The
  Prometheus registry is a parameter: \<open>register\<close> gives the registry with the collector added,
  or nothing when the library reports an error; \<open>MustRegister\<close> turns the error into a panic.
\<close>

section \<open>Collectors\<close>

datatype collector =
    CounterVec string "string list"
  | GaugeVec string "string list"
  | Counter string
  | GaugeFunc string

fun collector_name :: "collector \<Rightarrow> string" where
  "collector_name (CounterVec n ls) = n"
| "collector_name (GaugeVec n ls) = n"
| "collector_name (Counter n) = n"
| "collector_name (GaugeFunc n) = n"

record Metrics =
  PacketsProcessed :: collector
  PacketsAllowed :: collector
  PacketsBlocked :: collector
  PacketRate :: collector
  ConntrackEntries :: "collector option"
  RuleUpdates :: collector
  AuditBlocks :: collector

text \<open>A call of the package, and its state: the variable \<open>m\<close>, the \<open>sync.Once\<close>, the registry.\<close>

datatype 'a call = Returns 'a | Panics

record 'r metrics_state =
  the_metrics :: "Metrics option"
  init_done :: bool
  registry :: 'r

fun MustRegister :: "('r \<Rightarrow> collector \<Rightarrow> 'r option) \<Rightarrow> collector list \<Rightarrow> 'r \<Rightarrow> bool \<times> 'r" where
  "MustRegister register [] r = (True, r)"
| "MustRegister register (c # cs) r =
     (case register r c of None \<Rightarrow> (False, r) | Some r' \<Rightarrow> MustRegister register cs r')"

definition collectors :: "bool \<Rightarrow> Metrics" where
  "collectors has_len =
     \<lparr>PacketsProcessed = CounterVec ''l3_firewall_packets_processed_total'' [''protocol''],
      PacketsAllowed = CounterVec ''l3_firewall_packets_allowed_total'' [''protocol''],
      PacketsBlocked = CounterVec ''l3_firewall_packets_blocked_total'' [''reason''],
      PacketRate = GaugeVec ''l3_firewall_packet_rate'' [''src_ip''],
      ConntrackEntries = (if has_len then Some (GaugeFunc ''l3_firewall_conntrack_entries'') else None),
      RuleUpdates = Counter ''l3_firewall_rule_updates_total'',
      AuditBlocks = CounterVec ''l3_firewall_audit_blocks_total'' [''reason'']\<rparr>"

definition always_registered :: "Metrics \<Rightarrow> collector list" where
  "always_registered m = [PacketsProcessed m, PacketsAllowed m, PacketsBlocked m, PacketRate m, RuleUpdates m, AuditBlocks m]"

text \<open>\<open>newMetrics\<close> assigns the package variable before it registers, so a panic leaves it set.\<close>

definition newMetrics :: "('r \<Rightarrow> collector \<Rightarrow> 'r option) \<Rightarrow> bool \<Rightarrow> 'r metrics_state \<Rightarrow> Metrics call \<times> 'r metrics_state" where
  "newMetrics register has_len st =
     (let m = collectors has_len; st1 = st\<lparr>the_metrics := Some m\<rparr>
      in case MustRegister register
               (always_registered m) (registry st) of
           (False, r) \<Rightarrow> (Panics, st1\<lparr>registry := r\<rparr>)
         | (True, r) \<Rightarrow>
             (case ConntrackEntries m of
                None \<Rightarrow> (Returns m, st1\<lparr>registry := r\<rparr>)
              | Some g \<Rightarrow>
                  (case MustRegister register [g] r of
                     (False, r') \<Rightarrow> (Panics, st1\<lparr>registry := r'\<rparr>)
                   | (True, r') \<Rightarrow> (Returns m, st1\<lparr>registry := r'\<rparr>))))"

text \<open>A \<open>sync.Once\<close> counts as done also when its function panicked.\<close>

definition Init :: "('r \<Rightarrow> collector \<Rightarrow> 'r option) \<Rightarrow> bool \<Rightarrow> 'r metrics_state \<Rightarrow> Metrics option call \<times> 'r metrics_state" where
  "Init register has_len st =
     (if init_done st then (Returns (the_metrics st), st)
      else (case newMetrics register has_len (st\<lparr>init_done := True\<rparr>) of
              (Panics, st') \<Rightarrow> (Panics, st')
            | (Returns m, st') \<Rightarrow> (Returns (Some m), st'\<lparr>the_metrics := Some m\<rparr>)))"

definition Get :: "'r metrics_state \<Rightarrow> Metrics call" where
  "Get st = (case the_metrics st of None \<Rightarrow> Panics | Some m \<Rightarrow> Returns m)"

definition fresh_metrics :: "'r \<Rightarrow> 'r metrics_state" where
  "fresh_metrics r = \<lparr>the_metrics = None, init_done = False, registry = r\<rparr>"

section \<open>Lemmas\<close>

text \<open>The documented behaviour of the registry: a collector is refused exactly when its name is taken.\<close>

definition registry_contract :: "('r \<Rightarrow> collector \<Rightarrow> 'r option) \<Rightarrow> ('r \<Rightarrow> string set) \<Rightarrow> bool" where
  "registry_contract register names \<longleftrightarrow>
     (\<forall>r c. if collector_name c \<in> names r then register r c = None
            else \<exists>r'. register r c = Some r' \<and> names r' = insert (collector_name c) (names r))"

lemma register_fresh:
  "registry_contract register names \<Longrightarrow> collector_name c \<notin> names r \<Longrightarrow>
   \<exists>r'. register r c = Some r' \<and> names r' = insert (collector_name c) (names r)"
  unfolding registry_contract_def by metis

lemma register_taken: "registry_contract register names \<Longrightarrow> collector_name c \<in> names r \<Longrightarrow> register r c = None"
  unfolding registry_contract_def by metis

lemma register_grows: "registry_contract register names \<Longrightarrow> register r c = Some r' \<Longrightarrow> names r \<subseteq> names r'"
  using register_fresh [of register names c r] register_taken [of register names c r] by auto

lemma MustRegister_grows:
  "registry_contract register names \<Longrightarrow> MustRegister register cs r = (ok, r') \<Longrightarrow> names r \<subseteq> names r'"
proof (induction cs arbitrary: r)
  case (Cons c cs)
  then show ?case using register_grows [OF Cons.prems(1), of r c] by (auto split: option.splits)
qed simp

lemma MustRegister_ok:
  assumes "registry_contract register names" "distinct (map collector_name cs)" "set (map collector_name cs) \<inter> names r = {}"
  shows "\<exists>r'. MustRegister register cs r = (True, r') \<and> names r' = names r \<union> set (map collector_name cs)"
  using assms(2,3)
proof (induction cs arbitrary: r)
  case (Cons c cs)
  obtain r' where r': "register r c = Some r'" "names r' = insert (collector_name c) (names r)"
    using register_fresh [OF assms(1), of c r] Cons.prems(2) by auto
  have "set (map collector_name cs) \<inter> names r' = {}" using Cons.prems r'(2) by auto
  from Cons.IH [OF _ this] Cons.prems(1) r' show ?case by auto
qed simp

definition metric_names :: "string set" where
  "metric_names = {''l3_firewall_packets_processed_total'', ''l3_firewall_packets_allowed_total'',
     ''l3_firewall_packets_blocked_total'', ''l3_firewall_packet_rate'', ''l3_firewall_rule_updates_total'',
     ''l3_firewall_audit_blocks_total'', ''l3_firewall_conntrack_entries''}"

lemma always_registered_names:
  "distinct (map collector_name (always_registered (collectors b)))"
  "set (map collector_name (always_registered (collectors b))) = metric_names - {''l3_firewall_conntrack_entries''}"
  by (auto simp: always_registered_def collectors_def metric_names_def)

lemma first_registration:
  assumes "registry_contract register names" "names r \<inter> metric_names = {}"
  shows "\<exists>r'. MustRegister register (always_registered (collectors b)) r = (True, r') \<and>
    names r' = names r \<union> (metric_names - {''l3_firewall_conntrack_entries''})"
  using MustRegister_ok [OF assms(1) always_registered_names(1), of b r] assms(2) always_registered_names(2) [of b] by auto

lemma newMetrics_ok:
  assumes "registry_contract register names" "names (registry st) \<inter> metric_names = {}"
  shows "\<exists>r. newMetrics register has_len st = (Returns (collectors has_len), st\<lparr>the_metrics := Some (collectors has_len), registry := r\<rparr>)"
proof -
  let ?m = "collectors has_len"
  obtain r where r: "MustRegister register (always_registered ?m) (registry st) = (True, r)"
      "names r = names (registry st) \<union> (metric_names - {''l3_firewall_conntrack_entries''})"
    using first_registration [OF assms] by blast
  show ?thesis
  proof (cases has_len)
    case True
    have "''l3_firewall_conntrack_entries'' \<notin> names r" using r(2) assms(2) by (auto simp: metric_names_def)
    then obtain r' where "MustRegister register [GaugeFunc ''l3_firewall_conntrack_entries''] r = (True, r')"
      using MustRegister_ok [OF assms(1), of "[GaugeFunc ''l3_firewall_conntrack_entries'']" r] by auto
    moreover have "ConntrackEntries ?m = Some (GaugeFunc ''l3_firewall_conntrack_entries'')" using True by (simp add: collectors_def)
    ultimately show ?thesis using r(1) unfolding newMetrics_def Let_def by (auto simp del: MustRegister.simps)
  next
    case False
    then have "ConntrackEntries ?m = None" by (simp add: collectors_def)
    then show ?thesis using r(1) unfolding newMetrics_def Let_def by (auto simp del: MustRegister.simps)
  qed
qed

text \<open>
  Initialisation is idempotent: on a registry where none of the names is taken the first call
  registers the collectors, and every further call gives the same instance, registers nothing
  and does not panic, although registering twice would.
\<close>

fun Inits :: "('r \<Rightarrow> collector \<Rightarrow> 'r option) \<Rightarrow> bool list \<Rightarrow> 'r metrics_state \<Rightarrow> Metrics option call list \<times> 'r metrics_state" where
  "Inits register [] st = ([], st)"
| "Inits register (b # bs) st =
     (case Init register b st of (c, st') \<Rightarrow> (case Inits register bs st' of (cs, st'') \<Rightarrow> (c # cs, st'')))"

lemma Inits_done: "init_done st \<Longrightarrow> Inits register bs st = (replicate (length bs) (Returns (the_metrics st)), st)"
  by (induction bs) (simp_all add: Init_def)

lemma Init_idempotent:
  assumes "registry_contract register names" "names r \<inter> metric_names = {}" "Inits register (b # bs) (fresh_metrics r) = (cs, st)"
  shows "set cs = {Returns (Some (collectors b))} \<and> Get st = Returns (collectors b)"
proof -
  let ?st = "\<lparr>the_metrics = None, init_done = True, registry = r\<rparr>"
  obtain r' where r': "newMetrics register b ?st = (Returns (collectors b), ?st\<lparr>the_metrics := Some (collectors b), registry := r'\<rparr>)"
    using newMetrics_ok [OF assms(1), of ?st b] assms(2) by auto
  have i: "Init register b (fresh_metrics r) = (Returns (Some (collectors b)), ?st\<lparr>the_metrics := Some (collectors b), registry := r'\<rparr>)"
    by (simp add: Init_def fresh_metrics_def r')
  have "cs = Returns (Some (collectors b)) # replicate (length bs) (Returns (Some (collectors b)))"
    "st = ?st\<lparr>the_metrics := Some (collectors b), registry := r'\<rparr>"
    using assms(3) i by (simp_all add: Inits_done)
  then show ?thesis by (auto simp: Get_def)
qed

text \<open>A registry that satisfies the contract, and what a second registration would do there.\<close>

definition name_registry :: "string list \<Rightarrow> collector \<Rightarrow> string list option" where
  "name_registry r c = (if collector_name c \<in> set r then None else Some (collector_name c # r))"

lemma name_registry_contract: "registry_contract name_registry set"
  by (simp add: registry_contract_def name_registry_def)

lemma newMetrics_twice_panics:
  assumes "registry_contract register names" "names (registry st) \<inter> metric_names = {}" "newMetrics register b st = (Returns m, st')"
  shows "fst (newMetrics register b' st') = Panics"
proof -
  let ?c = "CounterVec ''l3_firewall_packets_processed_total'' [''protocol'']"
  obtain r where r: "MustRegister register (always_registered (collectors b)) (registry st) = (True, r)"
      "names r = names (registry st) \<union> (metric_names - {''l3_firewall_conntrack_entries''})"
    using first_registration [OF assms(1,2)] by blast
  have "names r \<subseteq> names (registry st')"
    using assms(3) r(1) MustRegister_grows [OF assms(1)]
    by (auto simp: newMetrics_def Let_def simp del: MustRegister.simps split: option.splits prod.splits bool.splits) blast+
  moreover have "collector_name ?c \<in> names r" using r(2) by (simp add: metric_names_def)
  ultimately have "register (registry st') ?c = None" using register_taken [OF assms(1)] by blast
  then show ?thesis by (simp add: newMetrics_def always_registered_def collectors_def Let_def)
qed

end
