(* ===== verification/AlertPost.thy ===== *)
theory AlertPost
  imports Alert GoTime GoJSON
begin

text \<open>
  internal/alert/alert.go, the rest of \<open>fire\<close>: the RFC 3339 timestamp, the JSON body and what
  becomes of the POST. Whatever valid UTF-8 the message and the source of an alert contain,
  the body is one object with exactly the five members of the event.
\<close>

text \<open>\<open>t.UTC().Format(time.RFC3339)\<close>.\<close>

definition RFC3339 :: "time \<Rightarrow> string" where
  "RFC3339 t =
     (case (date_of (time_unix t div 86400), time_unix t mod 86400) of
        ((y, m, d), r) \<Rightarrow>
          pad0 4 y @ ''-'' @ pad0 2 m @ ''-'' @ pad0 2 d @ ''T'' @
          pad0 2 (r div 60 div 60) @ '':'' @ pad0 2 (r div 60 mod 60) @ '':'' @ pad0 2 (r mod 60) @ ''Z'')"

text \<open>\<open>json.Marshal\<close> of the payload: a map, so its members come in the order of their names.\<close>

definition payload_body :: "payload \<Rightarrow> string" where
  "payload_body p = enc_object
     [(''event_type'', enc_string (pl_event_type p)),
      (''message'', enc_string (pl_message p)),
      (''source'', enc_string (pl_source p)),
      (''timestamp'', enc_string (RFC3339 (pl_timestamp p))),
      (''type'', enc_string (pl_type p))]"

text \<open>
  The POST itself is the client's: it gives an error or a status. The outcome is what \<open>fire\<close>
  writes to the log.
\<close>

datatype post_outcome = RequestFailed string | ErrorStatus int | Delivered

definition post_alert :: "(string \<Rightarrow> string \<Rightarrow> string \<Rightarrow> string + int) \<Rightarrow> string \<Rightarrow> AlertEvent \<Rightarrow> post_outcome" where
  "post_alert post url e =
     (case post url ''application/json'' (payload_body (fire e)) of
        Inl err \<Rightarrow> RequestFailed err
      | Inr status \<Rightarrow> if status \<ge> 400 then ErrorStatus status else Delivered)"

section \<open>A timestamp\<close>

lemma leap_day: "date_of 789 = (1972, 2, 29)"
  by (simp add: date_of_def year_of.simps [of 1970] year_of.simps [of 1971] year_of.simps [of 1972] year_len_def leap_def month_lens_def)

lemma RFC3339_leap_day: "RFC3339 (68169662 * 10 ^ 9) = ''1972-02-29T00:01:02Z''"
proof -
  have "dec 1972 = ''1972''" "dec 29 = ''29''" "dec 2 = ''2''" "dec (Suc 0) = ''1''" "dec 0 = ''0''"
    by (simp_all add: dec_def ndigits.simps digit_char_def char_of_def bit_0)
  moreover have "time_unix (68169662 * 10 ^ 9) div 86400 = 789" "time_unix (68169662 * 10 ^ 9) mod 86400 = 62"
    by (simp_all add: time_unix_def)
  ultimately show ?thesis using leap_day by (simp add: RFC3339_def pad0_def)
qed

section \<open>The body\<close>

lemma dec_ascii: "list_all (\<lambda>c. code c < 0x80) (dec n)"
proof -
  have "code c < 0x80" if "c \<in> set (dec n)" for c
    using dec_digit [OF that] by (auto simp: is_digit_def dec_val_def Let_def split: if_splits)
  then show ?thesis by (simp add: list_all_iff)
qed

lemma pad0_ascii: "list_all (\<lambda>c. code c < 0x80) (pad0 w n)"
  using dec_ascii [of n] by (auto simp: pad0_def list_all_iff)

lemma RFC3339_ascii: "list_all (\<lambda>c. code c < 0x80) (RFC3339 t)"
  by (simp add: RFC3339_def pad0_ascii split: prod.split)

lemma alert_body_is_the_event:
  assumes "valid_utf8 (al_Message e)" "valid_utf8 (al_Source e)"
  shows "parse_value (Suc n) (payload_body (fire e) @ t) =
    Some (JObj [(''event_type'', JStr ''l3_firewall_alert''), (''message'', JStr (al_Message e)),
      (''source'', JStr (al_Source e)), (''timestamp'', JStr (RFC3339 (al_Timestamp e))),
      (''type'', JStr (AlertType_String (al_Type e)))], t)"
proof -
  have ty: "valid_utf8 (AlertType_String (al_Type e))" by (cases "al_Type e") (simp_all add: valid_utf8_ascii)
  have lit: "valid_utf8 ''event_type''" "valid_utf8 ''message''" "valid_utf8 ''source''" "valid_utf8 ''timestamp''"
    "valid_utf8 ''type''" "valid_utf8 ''l3_firewall_alert''"
    by (simp_all add: valid_utf8_ascii)
  note en = encodes_string [of _ n]
  show ?thesis
    using parse_enc_object [of "[(''event_type'', enc_string ''l3_firewall_alert'', JStr ''l3_firewall_alert''),
        (''message'', enc_string (al_Message e), JStr (al_Message e)), (''source'', enc_string (al_Source e), JStr (al_Source e)),
        (''timestamp'', enc_string (RFC3339 (al_Timestamp e)), JStr (RFC3339 (al_Timestamp e))),
        (''type'', enc_string (AlertType_String (al_Type e)), JStr (AlertType_String (al_Type e)))]" n t]
      en [OF lit(6)] en [OF assms(1)] en [OF assms(2)] en [OF ty] en [OF valid_utf8_ascii [OF RFC3339_ascii]] lit
    by (simp add: payload_body_def fire_def)
qed

lemma post_alert_outcomes:
  "post_alert post url e = Delivered \<longleftrightarrow> (\<exists>st < 400. post url ''application/json'' (payload_body (fire e)) = Inr st)"
  by (auto simp: post_alert_def split: sum.splits if_splits)

end
