(* ===== verification/Spec2Isabelle.thy ===== *)
theory Spec2Isabelle
  imports Server Shutdown InputDoc Metrics AlertPost
begin

text \<open>
  A verification of l3-firewall, a userspace packet filter for Linux. The kernel hands packets to
  the program through NFQUEUE; the program decodes them, tracks their flows and rates, asks an OPA
  policy and sends back accept or drop. The policy can change while it runs: from a watched file and
  from etcd. The rest of the program keeps evidence of what was blocked (audit log, packet
  captures, alerts, counters that survive a restart) and serves an admin API.

  \<^bold>\<open>How the parts interact.\<close> \<open>main\<close> (src/cmd/server/main.go) reads the policy file, builds the
  evaluator and everything that shares it, and runs the engine. For each queued packet
  \<open>handleQueuePacket\<close> (src/internal/engine/engine.go) calls the packet parser, the flow table, the
  layer-2 filter, the rate limiter, the blocklist and the evaluator in this order; the first that
  objects decides. The file watcher and the etcd syncer call the evaluator's \<open>Load\<close>; the threat
  refresher adds to the engine's blocklist; a 60-second maintenance loop expires flows and buckets
  and saves the counters.

  \<^bold>\<open>Conventions.\<close> A Go struct is a record, a Go map an association list with distinct keys (insertion
  by \<open>AList.update\<close>), whose unspecified iteration order is an argument; a slice is a list, a string
  the list of its bytes, a nil pointer \<open>None\<close>. Fixed-width integers are words where the width
  matters (packet fields, counters, the queue number) and otherwise \<open>int\<close>; a \<open>float64\<close> is the rational
  it denotes, rounded to nearest even after each operation. Clock readings are nanoseconds and are
  arguments, one for each call of \<open>time.Now\<close>. Errors and panics are values. A mutex-protected
  method is one function on the state; where the interleaving of goroutines matters it is a
  step relation (\<open>load_step\<close> in Opa, \<open>shutdown_step\<close> in Shutdown) or a list of actions
  (\<open>sys_step\<close> in Server). What comes from outside (results of system calls, etcd's answers, HTTP
  responses, random bytes) is an input over which the theorems quantify.

  \<^bold>\<open>Theories of the language and its library.\<close>
  \<^item> Prelude: integers, time, maps, the interface \<open>evict_policy\<close> of a table that makes room before it
    inserts (interpreted for flows, rate buckets and ARP bindings).
  \<^item> GoText, GoNet, GoCIDR, GoIO, GoFloat, GoTime, GoJSON: the parts of strconv, strings, net,
    net/netip, bufio, float64 arithmetic, time and encoding/json the program uses, with the facts
    clients need: printing an address and parsing it back, prefix membership, line splitting,
    rounding errors, order of time stamps, JSON round trips.
  \<^item> Files: the view of the file system the hardened readers have. Rotation: what the two rotating
    writers share, with the contract \<open>retention\<close> of a bounded cleanup scan.

  \<^bold>\<open>Theories of the program.\<close>
  \<^item> PacketParser (src/internal/packet/parser.go): \<open>ParsePacket\<close> on raw bytes for both families, with
    the walk of IPv6 extension headers. No input makes it index out of range; it rejects exactly
    the malformed packets; extension headers cannot hide the transport header; both families
    agree; no field is invented for fragments and truncated headers.
  \<^item> Conntrack (src/internal/conntrack/table.go): record \<open>Table\<close>, one function per method. The
    limits and the agreement of flows, counts and rate rings in every reachable table, what
    \<open>LookupOrCreate\<close> does on each branch, the TCP state machine, the exactness of the ten-slot ring.
  \<^item> Ratelimit (src/internal/ratelimit/ratelimit.go): \<open>Limiter\<close> with its exponential averages. Bounds on the
    buckets and rates, detection of a flood, the rate of a spaced source up to rounding.
  \<^item> L2Filter (src/internal/l2filter/l2filter.go): MAC lists and the learned ARP table.
  \<^item> ThreatIntel (src/internal/threatintel/threatintel.go): the blocklist refines a bounded set; the
    feed parser terminates and adds exactly the lines; refreshes only add (locale \<open>feed_sink\<close>).
  \<^item> Opa (src/internal/opa): \<open>BuildInput\<close>, the evaluator and the extraction of a decision. The locale
    \<open>policy_loader\<close> is what the watcher and the syncer rely on; the evaluator is its interpretation.
    Concurrent loads behave like serial ones in lock order, and a rejected policy leaves the last
    good one in force. InputDoc: the JSON document a policy sees has exactly the fields of
    the structs, each in its range.
  \<^item> Alert, AlertPost (src/internal/alert/alert.go): cooldown per type; the body of the POST parses
    back to the event. GeoIP (src/internal/geoip/geoip.go): opening a database and looking up a
    country.
  \<^item> Engine (src/internal/engine): record \<open>Engine\<close>, \<open>evaluatePacket\<close>, \<open>packetHandler\<close>, \<open>handleQueuePacket\<close>,
    block log, counters, maintenance, lifecycle. Exactly which packets are accepted; the
    invariant of the whole engine; counters that agree with the verdicts.
  \<^item> SecurePath (src/internal/securepath/securepath.go): accepted paths have no symbolic link.
    PolicyWatch (src/cmd/server/main.go: \<open>readPolicyFile\<close>, \<open>pollPolicyFile\<close>, \<open>watchPolicyFile\<close>):
    links planted on the policy path change nothing and cannot keep a later edit from being loaded.
  \<^item> Syncer (src/internal/syncer/syncer.go): the watch loop with its pending policy and timer
    converges to etcd's last policy; its reloads for events are at least the minimum interval apart,
    and a resync adds at most one for each reconnect.
  \<^item> AuditLog (src/internal/audit/audit.go), Capture (src/internal/capture/capture.go), Persist
    (src/internal/persist/persist.go): what a rotation keeps, the writer's invariant, atomic saves
    and the round trip of the counters through the bytes of the state file.
  \<^item> Admin (src/internal/admin/api.go): routing, tokens, handlers and headers; who gets which answer.
    Metrics (src/internal/metrics/metrics.go): collectors are registered once.
  \<^item> Server (src/cmd/server/main.go): flags, start-up and the running system. Its theorem composes
    the others: after any interleaving of packets, polls, etcd events, refreshes, maintenance and
    admin requests, an accepted packet was allowed by the last acceptable policy that a verified
    source delivered. Shutdown: a signal after the start of the engine leads to the exit, one
    before it is lost.

  Some theorems and lemmas state behaviour the code's comments do not intend: flows opened by a SYN
  never become established, a reset hides its connection from the policy, an oversized feed is cut
  inside a line, a failed rotation silences the audit log, a planted name displaces a rotated log, a restarted
  capture deletes its own files, a save reports success when its close has lost the data, an early
  signal is lost.

  \<^bold>\<open>Termination and bounds.\<close> Every function is total. Loops over a finite input are
  structural; the walk of extension headers, the drain of a feed and the calendar have a decreasing
  measure. The endless loops (watcher, syncer, refresher, maintenance) are functions of the list of
  their inputs, of any length. Fuel occurs once, in \<open>parse_value\<close> of GoJSON, where it is the nesting
  limit 10000 of Go's decoder, so running out of it is the decoder's error. The constants of the code
  (table sizes, file sizes, intervals) are definitions with their value.

  \<^bold>\<open>Parameters.\<close> Third-party code is an argument: gopacket's decoding of the fixed header, the OPA
  compiler and evaluator (\<open>rego\<close>), the MaxMind reader, the Prometheus registry, etcd's client, the pcap
  file format. Theorems that need a law of it name it as a hypothesis (\<open>gopacket_contract\<close>,
  \<open>registry_contract\<close>) and have a concrete instance.

  \<^bold>\<open>Not modelled.\<close>
  \<^item> Accepting connections, TLS and the HTTP protocol itself, and the rendering of the admin API's JSON
    bodies: work of net/http, crypto/tls and encoding/json on data the model has as values.
  \<^item> \<open>promhttp.Handler\<close>, the encoding of collectors and their update: no code of the program updates
    them.
  \<^item> The set-up of logging in \<open>main\<close> and every slog call: they have no effect on the state.
  \<^item> Delivery of signals by the operating system and the NFQUEUE socket, of which only the callbacks
    and the error returns appear.
  \<^item> File descriptors and durability: there is no model of what a power failure leaves of an unsynced
    file. A failing close loses data in the model of the state file, and a failing write leaves a part
    of a record in that of the captures; the audit log's writes are whole or absent.
  \<^item> Upper-casing of letters outside ASCII in a country code, and counters of more than 63 bits: the
    flow table's statistics are unbounded in the model.
  \<^item> The memory model: each mutex-protected section and each atomic operation is one step.
  \<^item> The Rego policy files themselves, which are data to the program.
\<close>

end
